(* ===== verification/Prelude.thy ===== *)
theory Prelude
  imports Main "HOL-Library.Sublist"
begin

text \<open>
  What the components share: Go error values and slices, the loop that keeps one entry per key
  (used by both refresh jobs), the bounded history window, and the collections that gather the
  facts the component proofs rewrite with.
\<close>

named_theorems go_simps \<open>definitions of small helpers that proofs unfold\<close>
named_theorems codec_simps \<open>round trips of the JSON codecs\<close>
named_theorems frame_simps \<open>what an operation leaves unchanged\<close>

section \<open>Error values\<close>

text \<open>
  A Go error is a sentinel (\<open>errors.New\<close> at package level), a leaf built by \<open>fmt.Errorf\<close>
  without \<open>%w\<close>, or a wrapped error. Only the constant part of a message is kept.
\<close>

datatype go_error =
    ErrMiss
  | ErrInvalidTicket
  | ErrInvalidFlightToken
  | ErrBackend
  | ErrDecode
  | ErrEncode
  | Errorf string
  | Wrapf string go_error

fun errors_is :: "go_error \<Rightarrow> go_error \<Rightarrow> bool" where
  "errors_is (Wrapf m e) t = (Wrapf m e = t \<or> errors_is e t)"
| "errors_is e t = (e = t)"

lemma errors_is_refl [simp]: "errors_is e e"
  by (cases e) auto

section \<open>Searching\<close>

lemma find_by_key: "distinct (map f xs) \<Longrightarrow> x \<in> set xs \<Longrightarrow> find (\<lambda>y. f y = f x) xs = Some x"
  by (induction xs) (auto simp: rev_image_eqI)

section \<open>Slices\<close>

text \<open>A slice is nil or holds elements: the two are distinguished only by the JSON encoder.\<close>

type_synonym 'a slice = "'a list option"

definition elems :: "'a slice \<Rightarrow> 'a list" where
  "elems s = (case s of None \<Rightarrow> [] | Some xs \<Rightarrow> xs)"

lemma elems_simps [simp]: "elems None = []" "elems (Some xs) = xs"
  by (simp_all add: elems_def)

section \<open>The bounded window\<close>

text \<open>The idiom \<open>if len(h) > n { h = h[len(h)-n:] }\<close>.\<close>

definition keep_last :: "nat \<Rightarrow> 'a list \<Rightarrow> 'a list" where
  "keep_last n h = (if length h > n then drop (length h - n) h else h)"

lemma keep_last_drop: "keep_last n h = drop (length h - n) h"
  by (simp add: keep_last_def)

lemma length_keep_last [simp]: "length (keep_last n h) = min n (length h)"
  by (simp add: keep_last_def)

lemma set_keep_last: "set (keep_last n h) \<subseteq> set h"
  by (simp add: keep_last_drop set_drop_subset)

lemma suffix_keep_last: "suffix (keep_last n h) h"
  by (simp add: keep_last_drop suffix_drop)

lemma keep_last_snoc: "keep_last (Suc n) (h @ [x]) = keep_last n h @ [x]"
  by (auto simp: keep_last_def Suc_diff_le)

lemma keep_last_short [simp]: "length h \<le> n \<Longrightarrow> keep_last n h = h"
  by (simp add: keep_last_def)

lemma keep_last_idem [simp]: "keep_last n (keep_last n h) = keep_last n h"
  by simp

lemma keep_last_append:
  "keep_last n (keep_last n h @ t) = keep_last n (h @ t)"
  by (cases "n \<le> length h") (auto simp: keep_last_drop add.commute)

section \<open>One entry per key\<close>

text \<open>
  Both \<open>prepareCurrentSessions\<close> and \<open>UpsertFlights\<close> walk a slice with a map from a key to the
  index of its entry: a new key is appended, a known key overwrites the entry in place.
  \<open>place\<close> is one turn of that loop, on the result and the index map.
\<close>

type_synonym ('k, 'a) table = "'a list \<times> ('k \<rightharpoonup> nat)"

definition place :: "'k \<Rightarrow> 'a \<Rightarrow> ('k, 'a) table \<Rightarrow> ('k, 'a) table" where
  "place k x t =
     (case snd t k of
        Some i \<Rightarrow> ((fst t)[i := x], snd t)
      | None \<Rightarrow> (fst t @ [x], (snd t)(k \<mapsto> length (fst t))))"

definition place_all :: "('a \<Rightarrow> 'k) \<Rightarrow> 'a list \<Rightarrow> ('k, 'a) table" where
  "place_all key xs = fold (\<lambda>x. place (key x) x) xs ([], Map.empty)"

text \<open>The reference: keys in the order of their first occurrence, each with its last value.\<close>

definition first_keys :: "'k list \<Rightarrow> 'k list" where
  "first_keys ks = rev (remdups (rev ks))"

definition last_with :: "('a \<Rightarrow> 'k) \<Rightarrow> 'k \<Rightarrow> 'a list \<Rightarrow> 'a option" where
  "last_with key k xs = find (\<lambda>x. key x = k) (rev xs)"

definition last_per_key :: "('a \<Rightarrow> 'k) \<Rightarrow> 'a list \<Rightarrow> 'a list" where
  "last_per_key key xs = map (\<lambda>k. the (last_with key k xs)) (first_keys (map key xs))"

lemma first_keys_Nil [simp]: "first_keys [] = []"
  by (simp add: first_keys_def)

lemma first_keys_snoc [simp]:
  "first_keys (ks @ [k]) = (if k \<in> set ks then first_keys ks else first_keys ks @ [k])"
  by (simp add: first_keys_def)

lemma set_first_keys [simp]: "set (first_keys ks) = set ks"
  by (simp add: first_keys_def)

lemma distinct_first_keys [simp]: "distinct (first_keys ks)"
  by (simp add: first_keys_def)

lemma last_with_Nil [simp]: "last_with key k [] = None"
  by (simp add: last_with_def)

lemma last_with_snoc [simp]:
  "last_with key k (xs @ [x]) = (if key x = k then Some x else last_with key k xs)"
  by (simp add: last_with_def)

lemma last_with_Cons:
  "last_with key k (x # xs) =
     (case last_with key k xs of Some y \<Rightarrow> Some y | None \<Rightarrow> if key x = k then Some x else None)"
  by (induction xs rule: rev_induct) (auto simp: last_with_snoc [of _ _ "x # _", simplified] last_with_def [of _ _ "[x]"])

lemma last_with_SomeD: "last_with key k xs = Some x \<Longrightarrow> x \<in> set xs \<and> key x = k"
  by (induction xs rule: rev_induct) (auto split: if_splits)

lemma last_with_None_iff: "last_with key k xs = None \<longleftrightarrow> k \<notin> key ` set xs"
  by (auto simp: last_with_def find_None_iff)

lemma map_last_per_key [simp]: "map key (last_per_key key xs) = first_keys (map key xs)"
proof -
  have "key (the (last_with key k xs)) = k" if "k \<in> key ` set xs" for k
    using that last_with_None_iff [of key k xs] last_with_SomeD [of key k xs] by fastforce
  then show ?thesis
    by (auto simp: last_per_key_def intro!: map_idI)
qed

lemma distinct_last_per_key: "distinct (map key (last_per_key key xs))"
  by simp

lemma length_last_per_key: "length (last_per_key key xs) \<le> length xs"
  using length_remdups_leq [of "rev (map key xs)"] by (simp add: last_per_key_def first_keys_def)

lemma distinct_last_per_key' [simp]: "distinct (last_per_key key xs)"
  using distinct_last_per_key [of key xs] by (simp only: distinct_map)

lemma set_last_per_key: "set (last_per_key key xs) \<subseteq> set xs"
proof
  fix x assume "x \<in> set (last_per_key key xs)"
  then obtain k where "k \<in> key ` set xs" and x: "x = the (last_with key k xs)"
    by (auto simp: last_per_key_def)
  then obtain y where "last_with key k xs = Some y"
    using last_with_None_iff [of key k xs] by auto
  with x show "x \<in> set xs" using last_with_SomeD [of key k xs y] by simp
qed

lemma mem_last_per_key:
  "x \<in> set (last_per_key key xs) \<longleftrightarrow> last_with key (key x) xs = Some x"
proof
  assume x: "x \<in> set (last_per_key key xs)"
  then obtain k where k: "k \<in> key ` set xs" "x = the (last_with key k xs)"
    by (auto simp: last_per_key_def)
  then obtain y where y: "last_with key k xs = Some y"
    using last_with_None_iff [of key k xs] by auto
  with k show "last_with key (key x) xs = Some x"
    using last_with_SomeD [OF y] by simp
next
  assume a: "last_with key (key x) xs = Some x"
  then have "key x \<in> set (first_keys (map key xs))"
    using last_with_SomeD [OF a] by auto
  with a show "x \<in> set (last_per_key key xs)"
    by (force simp: last_per_key_def)
qed

text \<open>The index map of the loop always points at the entry of its key.\<close>

definition table_ok :: "('a \<Rightarrow> 'k) \<Rightarrow> ('k, 'a) table \<Rightarrow> bool" where
  "table_ok key t \<longleftrightarrow> (\<forall>k i. snd t k = Some i \<longleftrightarrow> i < length (fst t) \<and> key (fst t ! i) = k)"

lemma table_okD:
  "table_ok key t \<Longrightarrow> snd t k = Some i \<Longrightarrow> i < length (fst t) \<and> key (fst t ! i) = k"
  by (simp add: table_ok_def)

lemma table_okI2:
  "table_ok key t \<Longrightarrow> i < length (fst t) \<Longrightarrow> snd t (key (fst t ! i)) = Some i"
  by (simp add: table_ok_def)

lemma table_ok_place:
  assumes ok: "table_ok key t"
  shows "table_ok key (place (key x) x t)"
proof (cases "snd t (key x)")
  case None
  have fresh: "key (fst t ! i) \<noteq> key x" if "i < length (fst t)" for i
    using table_okI2 [OF ok that] None by auto
  have "((snd t)(key x \<mapsto> length (fst t))) k = Some i \<longleftrightarrow>
      i < Suc (length (fst t)) \<and> key ((fst t @ [x]) ! i) = k" for k i
    using ok fresh [of i] by (cases "i < length (fst t)") (auto simp: table_ok_def nth_append)
  with None show ?thesis
    by (simp add: table_ok_def place_def)
next
  case (Some i)
  note i = table_okD [OF ok Some]
  have "key ((fst t)[i := x] ! j) = key (fst t ! j)" if "j < length (fst t)" for j
    using that i by (auto simp: nth_list_update)
  moreover have "snd t k = Some j \<longleftrightarrow> j < length (fst t) \<and> key (fst t ! j) = k" for k j
    using ok unfolding table_ok_def by blast
  ultimately have "snd t k = Some j \<longleftrightarrow>
      j < length ((fst t)[i := x]) \<and> key ((fst t)[i := x] ! j) = k" for k j
    by auto
  moreover have "place (key x) x t = ((fst t)[i := x], snd t)"
    using Some by (simp add: place_def)
  ultimately show ?thesis
    unfolding table_ok_def by simp
qed

lemma place_all_snoc [simp]:
  "place_all key (xs @ [x]) = place (key x) x (place_all key xs)"
  by (simp add: place_all_def)

lemma table_ok_place_all: "table_ok key (place_all key xs)"
proof (induction xs rule: rev_induct)
  case Nil
  show ?case by (simp add: place_all_def table_ok_def)
next
  case (snoc x xs)
  then show ?case by (simp add: table_ok_place)
qed

lemma fst_place_known:
  assumes ok: "table_ok key t" and known: "key x \<in> key ` set (fst t)"
  shows "\<exists>i. i < length (fst t) \<and> key (fst t ! i) = key x \<and>
    fst (place (key x) x t) = (fst t)[i := x]"
proof -
  from known obtain i where i: "i < length (fst t)" "key (fst t ! i) = key x"
    by (auto simp: in_set_conv_nth)
  with table_okI2 [OF ok i(1)] show ?thesis
    by (intro exI [of _ i]) (simp add: place_def)
qed

lemma fst_place_new:
  assumes ok: "table_ok key t" and new: "key x \<notin> key ` set (fst t)"
  shows "fst (place (key x) x t) = fst t @ [x]"
proof (cases "snd t (key x)")
  case None
  then show ?thesis by (simp add: place_def)
next
  case (Some i)
  have "key (fst t ! i) \<in> key ` set (fst t)"
    using table_okD [OF ok Some] by (intro imageI nth_mem) simp
  with table_okD [OF ok Some] new show ?thesis by simp
qed

lemma last_per_key_snoc_new:
  assumes "key x \<notin> key ` set xs"
  shows "last_per_key key (xs @ [x]) = last_per_key key xs @ [x]"
proof -
  have "key x \<noteq> k" if "k \<in> set (first_keys (map key xs))" for k
    using that assms by auto
  with assms show ?thesis
    by (simp add: last_per_key_def)
qed

lemma last_per_key_snoc_known:
  assumes "i < length (last_per_key key xs)" and "key (last_per_key key xs ! i) = key x"
  shows "last_per_key key (xs @ [x]) = (last_per_key key xs)[i := x]"
proof (rule nth_equalityI)
  have mem: "key x \<in> key ` set xs"
    using assms set_last_per_key [of key xs] by (metis image_eqI nth_mem subsetD)
  then show len: "length (last_per_key key (xs @ [x])) = length ((last_per_key key xs)[i := x])"
    by (simp add: last_per_key_def)
  fix j assume j: "j < length (last_per_key key (xs @ [x]))"
  let ?ks = "first_keys (map key xs)"
  from mem have ks: "first_keys (map key (xs @ [x])) = ?ks" by auto
  have "i < length ?ks"
    using assms(1) by (simp add: last_per_key_def)
  moreover have "?ks ! i = key x"
    using nth_map [OF assms(1), of key] assms(2) by simp
  ultimately have i: "i < length ?ks" "?ks ! i = key x" .
  from j ks have j': "j < length ?ks" by (simp add: last_per_key_def)
  have "?ks ! j = key x \<longleftrightarrow> j = i"
    using i j' nth_eq_iff_index_eq [OF distinct_first_keys, of j "map key xs" i] by metis
  with i j' ks show "last_per_key key (xs @ [x]) ! j = (last_per_key key xs)[i := x] ! j"
    by (auto simp: last_per_key_def nth_list_update)
qed

lemma place_all_last_per_key: "fst (place_all key xs) = last_per_key key xs"
proof (induction xs rule: rev_induct)
  case Nil
  show ?case by (simp add: place_all_def last_per_key_def)
next
  case (snoc x xs)
  note ok = table_ok_place_all [of key xs]
  have keys: "key ` set (last_per_key key xs) = key ` set xs"
    by (metis list.set_map map_last_per_key set_first_keys)
  show ?case
  proof (cases "key x \<in> key ` set xs")
    case True
    with snoc keys fst_place_known [OF ok, of x] obtain i
      where "i < length (last_per_key key xs)" "key (last_per_key key xs ! i) = key x"
        "fst (place (key x) x (place_all key xs)) = (last_per_key key xs)[i := x]"
      by auto
    then show ?thesis by (simp add: last_per_key_snoc_known)
  next
    case False
    with snoc keys fst_place_new [OF ok, of x] show ?thesis
      by (simp add: last_per_key_snoc_new)
  qed
qed

lemma place_all_map:
  "fold (\<lambda>x. place (key (f x)) (f x)) xs ([], Map.empty) = place_all key (map f xs)"
  by (simp add: place_all_def fold_map o_def)

end
