(* ===== verification/GoStrings.thy ===== *)
theory GoStrings
  imports Prelude
begin

text \<open>
  The functions of Go's \<open>strings\<close>, \<open>strconv\<close> and \<open>fmt\<close> packages that the source calls, on
  byte strings. A Go string is a sequence of bytes, and so is an Isabelle \<open>string\<close> here; white
  space is matched as the UTF-8 encodings of the code points \<open>unicode.IsSpace\<close> accepts. The case
  tables of the \<open>unicode\<close> package are data, so \<open>strings.ToLower\<close> takes them as a parameter for
  strings with a byte outside ASCII and is spelled out for all others.
\<close>

section \<open>White space\<close>

definition ascii_spaces :: "char list" where
  "ascii_spaces = [CHR 0x09, CHR 0x0A, CHR 0x0B, CHR 0x0C, CHR 0x0D, CHR '' '']"

definition wide_spaces :: "string list" where
  "wide_spaces =
     [[CHR 0xC2, CHR 0x85], [CHR 0xC2, CHR 0xA0], [CHR 0xE1, CHR 0x9A, CHR 0x80],
      [CHR 0xE2, CHR 0x80, CHR 0x80], [CHR 0xE2, CHR 0x80, CHR 0x81], [CHR 0xE2, CHR 0x80, CHR 0x82],
      [CHR 0xE2, CHR 0x80, CHR 0x83], [CHR 0xE2, CHR 0x80, CHR 0x84], [CHR 0xE2, CHR 0x80, CHR 0x85],
      [CHR 0xE2, CHR 0x80, CHR 0x86], [CHR 0xE2, CHR 0x80, CHR 0x87], [CHR 0xE2, CHR 0x80, CHR 0x88],
      [CHR 0xE2, CHR 0x80, CHR 0x89], [CHR 0xE2, CHR 0x80, CHR 0x8A], [CHR 0xE2, CHR 0x80, CHR 0xA8],
      [CHR 0xE2, CHR 0x80, CHR 0xA9], [CHR 0xE2, CHR 0x80, CHR 0xAF], [CHR 0xE2, CHR 0x81, CHR 0x9F],
      [CHR 0xE3, CHR 0x80, CHR 0x80]]"

definition go_spaces :: "string list" where
  "go_spaces = map (\<lambda>c. [c]) ascii_spaces @ wide_spaces"

lemma go_spaces_nonempty: "w \<in> set go_spaces \<Longrightarrow> w \<noteq> []"
  by (auto simp: go_spaces_def wide_spaces_def)

definition leading_space :: "string \<Rightarrow> string option" where
  "leading_space s = find (\<lambda>w. prefix w s) go_spaces"

definition trailing_space :: "string \<Rightarrow> string option" where
  "trailing_space s = find (\<lambda>w. suffix w s) go_spaces"

lemma leading_spaceD: "leading_space s = Some w \<Longrightarrow> w \<in> set go_spaces \<and> prefix w s \<and> w \<noteq> []"
  by (auto simp: leading_space_def find_Some_iff) (use go_spaces_nonempty nth_mem in blast)

lemma trailing_spaceD: "trailing_space s = Some w \<Longrightarrow> w \<in> set go_spaces \<and> suffix w s \<and> w \<noteq> []"
  by (auto simp: trailing_space_def find_Some_iff) (use go_spaces_nonempty nth_mem in blast)

function trim_left :: "string \<Rightarrow> string" where
  "trim_left s = (case leading_space s of None \<Rightarrow> s | Some w \<Rightarrow> trim_left (drop (length w) s))"
  by pat_completeness auto
termination
  by (relation "measure length") (auto dest!: leading_spaceD simp: prefix_def)

function trim_right :: "string \<Rightarrow> string" where
  "trim_right s =
     (case trailing_space s of None \<Rightarrow> s | Some w \<Rightarrow> trim_right (take (length s - length w) s))"
  by pat_completeness auto
termination
  by (relation "measure length") (auto dest!: trailing_spaceD simp: suffix_def)

declare trim_left.simps [simp del] trim_right.simps [simp del]

definition trim_space :: "string \<Rightarrow> string" where
  "trim_space s = trim_right (trim_left s)"

lemma leading_space_trim_left [simp]: "leading_space (trim_left s) = None"
  by (induction s rule: trim_left.induct) (subst trim_left.simps, auto split: option.split)

lemma trailing_space_trim_right [simp]: "trailing_space (trim_right s) = None"
  by (induction s rule: trim_right.induct) (subst trim_right.simps, auto split: option.split)

lemma trim_left_id: "leading_space s = None \<Longrightarrow> trim_left s = s"
  by (simp add: trim_left.simps)

lemma trim_right_id: "trailing_space s = None \<Longrightarrow> trim_right s = s"
  by (simp add: trim_right.simps)

lemma prefix_trim_right: "prefix (trim_right s) s"
proof (induction s rule: trim_right.induct)
  case (1 s)
  show ?case
    by (subst trim_right.simps)
       (auto split: option.split dest!: "1.IH" intro: prefix_order.trans take_is_prefix)
qed

lemma leading_space_prefix:
  "leading_space s = None \<Longrightarrow> prefix t s \<Longrightarrow> leading_space t = None"
  by (auto simp: leading_space_def find_None_iff intro: prefix_order.trans)

lemma leading_space_trim_space [simp]: "leading_space (trim_space s) = None"
  unfolding trim_space_def by (rule leading_space_prefix [OF leading_space_trim_left prefix_trim_right])

lemma trailing_space_trim_space [simp]: "trailing_space (trim_space s) = None"
  by (simp add: trim_space_def)

lemma trim_space_id: "leading_space s = None \<Longrightarrow> trailing_space s = None \<Longrightarrow> trim_space s = s"
  by (simp add: trim_space_def trim_left_id trim_right_id)

lemma trim_space_idem [simp]: "trim_space (trim_space s) = trim_space s"
  by (simp add: trim_space_id)

lemma trim_space_Nil [simp]: "trim_space [] = []"
  by (rule trim_space_id)
     (auto simp: leading_space_def trailing_space_def find_None_iff dest: go_spaces_nonempty)

section \<open>Case\<close>

definition is_ascii :: "string \<Rightarrow> bool" where
  "is_ascii s = list_all (\<lambda>c. (of_char c :: nat) < 128) s"

definition ascii_lower :: "char \<Rightarrow> char" where
  "ascii_lower c =
     (if 65 \<le> (of_char c :: nat) \<and> (of_char c :: nat) \<le> 90 then char_of ((of_char c :: nat) + 32) else c)"

definition to_lower :: "(string \<Rightarrow> string) \<Rightarrow> string \<Rightarrow> string" where
  "to_lower uni s = (if is_ascii s then map ascii_lower s else uni s)"

lemma of_char_ascii_lower:
  "(of_char (ascii_lower c) :: nat) =
     (if 65 \<le> (of_char c :: nat) \<and> (of_char c :: nat) \<le> 90 then of_char c + 32 else of_char c)"
  by (simp add: ascii_lower_def)

lemma ascii_lower_idem [simp]: "ascii_lower (ascii_lower c) = ascii_lower c"
  by (simp add: ascii_lower_def)

lemma is_ascii_map_lower: "is_ascii s \<Longrightarrow> is_ascii (map ascii_lower s)"
  by (auto simp: is_ascii_def list_all_iff of_char_ascii_lower)

lemma is_ascii_Cons [simp]: "is_ascii (c # s) \<longleftrightarrow> (of_char c :: nat) < 128 \<and> is_ascii s"
  by (simp add: is_ascii_def)

lemma is_ascii_Nil [simp]: "is_ascii []"
  by (simp add: is_ascii_def)

lemma to_lower_idem_ascii: "is_ascii s \<Longrightarrow> to_lower uni (to_lower uni s) = to_lower uni s"
  by (simp add: to_lower_def is_ascii_map_lower)

lemma to_lower_Nil [simp]: "to_lower uni [] = []"
  by (simp add: to_lower_def)

section \<open>Searching and replacing\<close>

fun contains :: "string \<Rightarrow> string \<Rightarrow> bool" where
  "contains [] q = (q = [])"
| "contains (c # s) q = (prefix q (c # s) \<or> contains s q)"

lemma contains_iff: "contains s q \<longleftrightarrow> (\<exists>u v. s = u @ q @ v)"
proof (induction s)
  case Nil
  then show ?case by simp
next
  case (Cons c s)
  show ?case
    by (auto simp: Cons.IH prefix_def Cons_eq_append_conv)
qed

lemma contains_Nil [simp]: "contains s []"
  by (cases s) simp_all

lemma contains_refl [simp]: "contains s s"
  by (cases s) simp_all

definition spaces_to_underscores :: "string \<Rightarrow> string" where
  "spaces_to_underscores s = map (\<lambda>c. if c = CHR '' '' then CHR ''_'' else c) s"

text \<open>\<open>strings.TrimRight(s, "/")\<close>.\<close>

definition trim_right_slash :: "string \<Rightarrow> string" where
  "trim_right_slash s = rev (dropWhile (\<lambda>c. c = CHR ''/'') (rev s))"

lemma trim_right_slash_end: "trim_right_slash s \<noteq> [] \<Longrightarrow> last (trim_right_slash s) \<noteq> CHR ''/''"
  using hd_dropWhile [of "\<lambda>c. c = CHR ''/''" "rev s"] by (simp add: trim_right_slash_def last_rev)

section \<open>Trimming ASCII strings\<close>

definition is_space :: "char \<Rightarrow> bool" where
  "is_space c = (c \<in> set ascii_spaces)"

lemma wide_space_not_ascii: "w \<in> set wide_spaces \<Longrightarrow> \<not> is_ascii w"
  by (auto simp: wide_spaces_def)

lemma is_ascii_append [simp]: "is_ascii (s @ t) \<longleftrightarrow> is_ascii s \<and> is_ascii t"
  by (auto simp: is_ascii_def)

lemma find_single_prefix:
  "find (\<lambda>w. prefix w (c # s)) (map (\<lambda>c. [c]) xs @ ws) =
     (if c \<in> set xs then Some [c] else find (\<lambda>w. prefix w (c # s)) ws)"
  by (induction xs) auto

lemma find_single_suffix:
  "find (\<lambda>w. suffix w (s @ [c])) (map (\<lambda>c. [c]) xs @ ws) =
     (if c \<in> set xs then Some [c] else find (\<lambda>w. suffix w (s @ [c])) ws)"
  by (induction xs) auto

lemma leading_space_ascii:
  assumes "is_ascii (c # s)"
  shows "leading_space (c # s) = (if is_space c then Some [c] else None)"
proof -
  have "\<not> prefix w (c # s)" if "w \<in> set wide_spaces" for w
    using wide_space_not_ascii [OF that] assms by (metis is_ascii_append prefixE)
  then have "find (\<lambda>w. prefix w (c # s)) wide_spaces = None"
    by (simp add: find_None_iff)
  then show ?thesis
    unfolding leading_space_def go_spaces_def find_single_prefix is_space_def by simp
qed

lemma trailing_space_ascii:
  assumes "is_ascii (s @ [c])"
  shows "trailing_space (s @ [c]) = (if is_space c then Some [c] else None)"
proof -
  have "\<not> suffix w (s @ [c])" if "w \<in> set wide_spaces" for w
    using wide_space_not_ascii [OF that] assms by (metis is_ascii_append suffixE)
  then have "find (\<lambda>w. suffix w (s @ [c])) wide_spaces = None"
    unfolding find_None_iff by blast
  then show ?thesis
    unfolding trailing_space_def go_spaces_def find_single_suffix is_space_def by simp
qed

lemma leading_space_Nil [simp]: "leading_space [] = None"
  by (auto simp: leading_space_def find_None_iff dest: go_spaces_nonempty)

lemma trailing_space_Nil [simp]: "trailing_space [] = None"
  by (auto simp: trailing_space_def find_None_iff dest: go_spaces_nonempty)

lemma trim_left_ascii: "is_ascii s \<Longrightarrow> trim_left s = dropWhile is_space s"
proof (induction s)
  case Nil
  show ?case by (simp add: trim_left_id)
next
  case (Cons c s)
  then show ?case
    by (subst trim_left.simps) (simp add: leading_space_ascii del: is_ascii_Cons, simp)
qed

lemma trim_right_ascii: "is_ascii s \<Longrightarrow> trim_right s = rev (dropWhile is_space (rev s))"
proof (induction s rule: rev_induct)
  case Nil
  show ?case by (simp add: trim_right_id)
next
  case (snoc c s)
  then show ?case
    by (subst trim_right.simps) (simp add: trailing_space_ascii del: is_ascii_append, simp)
qed

lemma is_ascii_dropWhile [simp]: "is_ascii s \<Longrightarrow> is_ascii (dropWhile P s)"
  by (auto simp: is_ascii_def list_all_iff dest: set_dropWhileD)

lemma is_ascii_rev [simp]: "is_ascii (rev s) = is_ascii s"
  by (auto simp: is_ascii_def list_all_iff)

lemma trim_space_ascii:
  "is_ascii s \<Longrightarrow> trim_space s = rev (dropWhile is_space (rev (dropWhile is_space s)))"
  by (simp add: trim_space_def trim_left_ascii trim_right_ascii)

lemma is_ascii_trim_space [simp]: "is_ascii s \<Longrightarrow> is_ascii (trim_space s)"
  by (simp add: trim_space_ascii)

lemma trim_space_ends:
  assumes "is_ascii s" and "trim_space s \<noteq> []"
  shows "\<not> is_space (hd (trim_space s))" and "\<not> is_space (last (trim_space s))"
proof -
  let ?t = "trim_space s"
  have a: "is_ascii ?t" using assms(1) by simp
  obtain c t where t: "?t = c # t" using assms(2) by (cases ?t) auto
  show "\<not> is_space (hd ?t)"
    using leading_space_trim_space [of s] a t leading_space_ascii [of c t]
    by (auto simp del: leading_space_trim_space split: if_splits)
  obtain d u where u: "?t = u @ [d]" using assms(2) by (cases ?t rule: rev_cases) auto
  show "\<not> is_space (last ?t)"
    using trailing_space_trim_space [of s] a u trailing_space_ascii [of u d]
    by (auto simp del: trailing_space_trim_space split: if_splits)
qed

lemma trim_space_ascii_id:
  assumes "is_ascii s" and "s \<noteq> [] \<Longrightarrow> \<not> is_space (hd s) \<and> \<not> is_space (last s)"
  shows "trim_space s = s"
proof (cases "s = []")
  case False
  then obtain c t d u where s: "s = c # t" "s = u @ [d]"
    by (metis list.exhaust rev_exhaust)
  with assms have "\<not> is_space c" and "\<not> is_space d"
    by (metis list.sel(1) list.distinct(1)) (metis assms(2) False last_snoc s(2))
  with assms(1) s have "leading_space s = None" and "trailing_space s = None"
    by (metis leading_space_ascii) (metis \<open>\<not> is_space d\<close> assms(1) s(2) trailing_space_ascii)
  then show ?thesis by (rule trim_space_id)
qed simp

section \<open>Decimal numbers\<close>

definition digit_char :: "nat \<Rightarrow> char" where
  "digit_char n = char_of (48 + n)"

definition is_digit :: "char \<Rightarrow> bool" where
  "is_digit c \<longleftrightarrow> 48 \<le> (of_char c :: nat) \<and> (of_char c :: nat) \<le> 57"

definition digit_val :: "char \<Rightarrow> nat" where
  "digit_val c = of_char c - 48"

fun show_nat :: "nat \<Rightarrow> string" where
  "show_nat n = (if n < 10 then [digit_char n] else show_nat (n div 10) @ [digit_char (n mod 10)])"

declare show_nat.simps [simp del]

text \<open>\<open>%d\<close> and \<open>strconv.Itoa\<close>.\<close>

definition show_int :: "int \<Rightarrow> string" where
  "show_int i = (if i < 0 then CHR ''-'' # show_nat (nat (- i)) else show_nat (nat i))"

text \<open>A fixed number of digits, zero padded.\<close>

fun show_fixed :: "nat \<Rightarrow> nat \<Rightarrow> string" where
  "show_fixed 0 n = []"
| "show_fixed (Suc w) n = show_fixed w (n div 10) @ [digit_char (n mod 10)]"

definition read_digits :: "string \<Rightarrow> nat" where
  "read_digits s = foldl (\<lambda>a c. 10 * a + digit_val c) 0 s"

lemma of_char_digit_char: "n < 10 \<Longrightarrow> (of_char (digit_char n) :: nat) = 48 + n"
  by (simp add: digit_char_def)

lemma is_digit_digit_char [simp]: "n < 10 \<Longrightarrow> is_digit (digit_char n)"
  by (simp add: is_digit_def of_char_digit_char)

lemma digit_val_digit_char [simp]: "n < 10 \<Longrightarrow> digit_val (digit_char n) = n"
  by (simp add: digit_val_def of_char_digit_char)

lemma read_digits_snoc [simp]: "read_digits (s @ [c]) = 10 * read_digits s + digit_val c"
  by (simp add: read_digits_def)

lemma read_digits_Nil [simp]: "read_digits [] = 0"
  by (simp add: read_digits_def)

lemma length_show_fixed [simp]: "length (show_fixed w n) = w"
  by (induction w arbitrary: n) auto

lemma digits_show_fixed [simp]: "c \<in> set (show_fixed w n) \<Longrightarrow> is_digit c"
  by (induction w arbitrary: n) auto

lemma read_show_fixed: "n < 10 ^ w \<Longrightarrow> read_digits (show_fixed w n) = n"
proof (induction w arbitrary: n)
  case (Suc w)
  then have "n div 10 < 10 ^ w" by (simp add: div_less_iff_less_mult mult.commute)
  then show ?case by (simp add: Suc.IH)
qed simp

lemma digits_show_nat: "c \<in> set (show_nat n) \<Longrightarrow> is_digit c"
proof (induction n rule: show_nat.induct)
  case (1 n)
  then show ?case by (auto simp: show_nat.simps [of n] split: if_splits)
qed

lemma read_show_nat [simp]: "read_digits (show_nat n) = n"
proof (induction n rule: show_nat.induct)
  case (1 n)
  then show ?case
    using read_digits_snoc [of "[]"] by (auto simp: show_nat.simps [of n])
qed

lemma show_nat_nonempty [simp]: "show_nat n \<noteq> []"
  by (subst show_nat.simps) simp

lemma show_nat_inj [simp]: "show_nat m = show_nat n \<longleftrightarrow> m = n"
  by (metis read_show_nat)

end
