(* ===== verification/GoTime.thy ===== *)
theory GoTime
  imports GoStrings "HOL-Library.Monad_Syntax"
begin

text \<open>
  Instants and their two textual forms. A \<open>time.Time\<close> that went through \<open>UTC()\<close> is the number of
  nanoseconds since 1970-01-01T00:00:00Z. The calendar is the proleptic Gregorian one of the
  \<open>time\<close> package; \<open>marshal_time\<close> and \<open>unmarshal_time\<close> are \<open>Time.MarshalJSON\<close> and
  \<open>Time.UnmarshalJSON\<close>, and \<open>parse_layout\<close> is \<open>time.Parse\<close> on the one layout the source uses,
  with the liberties \<open>time.Parse\<close> takes (a one digit hour, several blanks, a fraction).
\<close>

section \<open>Calendar\<close>

type_synonym time = int

definition is_leap :: "int \<Rightarrow> bool" where
  "is_leap y \<longleftrightarrow> y mod 4 = 0 \<and> (y mod 100 \<noteq> 0 \<or> y mod 400 = 0)"

text \<open>Days from 0000-01-01 to the first day of year \<open>y\<close>, and to the first day of month \<open>m\<close>.\<close>

definition ceil_div :: "int \<Rightarrow> int \<Rightarrow> int" where
  "ceil_div c y = (y + c - 1) div c"

definition days_before_year :: "int \<Rightarrow> int" where
  "days_before_year y = 365 * y + ceil_div 4 y - ceil_div 100 y + ceil_div 400 y"

definition month_starts :: "int list" where
  "month_starts = [0, 31, 59, 90, 120, 151, 181, 212, 243, 273, 304, 334, 365]"

definition days_before_month :: "int \<Rightarrow> nat \<Rightarrow> int" where
  "days_before_month y m = month_starts ! (m - 1) + (if is_leap y \<and> 3 \<le> m then 1 else 0)"

definition days_in :: "int \<Rightarrow> nat \<Rightarrow> int" where
  "days_in y m = days_before_month y (Suc m) - days_before_month y m"

definition day_number :: "int \<Rightarrow> nat \<Rightarrow> int \<Rightarrow> int" where
  "day_number y m d = days_before_year y + days_before_month y m + d - 1"

definition year_of_day :: "int \<Rightarrow> int" where
  "year_of_day n =
     (let y = (400 * n) div 146097
      in if days_before_year (y + 1) \<le> n then y + 1 else if n < days_before_year y then y - 1 else y)"

definition month_of_day :: "int \<Rightarrow> nat" where
  "month_of_day n =
     (let y = year_of_day n; k = n - days_before_year y
      in length (filter (\<lambda>m. days_before_month y m \<le> k) [1..<13]))"

definition mday_of_day :: "int \<Rightarrow> int" where
  "mday_of_day n =
     (let y = year_of_day n in n - days_before_year y - days_before_month y (month_of_day n) + 1)"

lemma div_bounds:
  assumes "0 < (c::int)"
  shows "c * (a div c) \<le> a" "a < c * (a div c) + c"
  using mult_div_mod_eq [of c a] pos_mod_sign [OF assms, of a] pos_mod_bound [OF assms, of a]
  by linarith+

lemma ceil_div_bounds:
  assumes "0 < c"
  shows "y \<le> c * ceil_div c y" "c * ceil_div c y \<le> y + c - 1"
  using div_bounds [OF assms, of "y + c - 1"] by (simp_all add: ceil_div_def)

lemma ceil_div_Suc:
  assumes "0 < c"
  shows "ceil_div c (y + 1) = ceil_div c y + (if y mod c = 0 then 1 else 0)"
proof -
  define q r where "q = y div c" and "r = y mod c"
  have y: "y = c * q + r" and r: "0 \<le> r" "r < c"
    using assms by (simp_all add: q_def r_def)
  have 1: "(y + 1 + c - 1) div c = q + 1"
    by (rule int_div_pos_eq [of _ _ _ r]) (use r in \<open>simp_all add: y algebra_simps\<close>)
  have "(y + c - 1) div c = q" if "r = 0"
    by (rule int_div_pos_eq [of _ _ _ "c - 1"]) (use that assms in \<open>simp_all add: y algebra_simps\<close>)
  moreover have "(y + c - 1) div c = q + 1" if "r \<noteq> 0"
    by (rule int_div_pos_eq [of _ _ _ "r - 1"]) (use that r in \<open>simp_all add: y algebra_simps\<close>)
  ultimately show ?thesis using 1 unfolding ceil_div_def r_def [symmetric] by auto
qed

lemma days_before_year_bounds:
  "146097 * y - 396 \<le> 400 * days_before_year y" "400 * days_before_year y \<le> 146097 * y + 699"
  using ceil_div_bounds [of 4 y] ceil_div_bounds [of 100 y] ceil_div_bounds [of 400 y]
  by (simp_all add: days_before_year_def)

lemma year_of_day:
  "days_before_year (year_of_day n) \<le> n \<and> n < days_before_year (year_of_day n + 1)"
proof -
  define y where "y = (400 * n) div 146097"
  have y: "146097 * y \<le> 400 * n" "400 * n < 146097 * y + 146097"
    using div_bounds [of 146097 "400 * n"] by (simp_all add: y_def algebra_simps)
  note b = days_before_year_bounds [of "y - 1"] days_before_year_bounds [of y]
    days_before_year_bounds [of "y + 1"] days_before_year_bounds [of "y + 2"]
  have eq: "y + 1 + 1 = y + 2" "y - 1 + 1 = y" by simp_all
  show ?thesis
    unfolding year_of_day_def Let_def y_def [symmetric]
    using y b by (auto simp: eq)
qed

lemma year_length: "days_before_year (y + 1) - days_before_year y = (if is_leap y then 366 else 365)"
proof -
  have "y mod 100 mod 4 = y mod 4" "y mod 400 mod 100 = y mod 100"
    by (simp_all add: mod_mod_cancel)
  then have "y mod 100 = 0 \<Longrightarrow> y mod 4 = 0" "y mod 400 = 0 \<Longrightarrow> y mod 100 = 0"
    by auto
  moreover have "ceil_div 4 (y + 1) = ceil_div 4 y + (if y mod 4 = 0 then 1 else 0)"
    "ceil_div 100 (y + 1) = ceil_div 100 y + (if y mod 100 = 0 then 1 else 0)"
    "ceil_div 400 (y + 1) = ceil_div 400 y + (if y mod 400 = 0 then 1 else 0)"
    by (rule ceil_div_Suc, simp)+
  ultimately show ?thesis
    by (cases "y mod 4 = 0"; cases "y mod 100 = 0"; cases "y mod 400 = 0")
       (simp_all only: days_before_year_def is_leap_def if_True if_False simp_thms, simp_all)
qed

text \<open>The month search stops inside the year and leaves a valid day of the month.\<close>

lemma sorted_count:
  "sorted ds \<Longrightarrow> i < length (filter (\<lambda>d. d \<le> k) ds) \<longleftrightarrow> i < length ds \<and> ds ! i \<le> (k::int)"
proof (induction ds arbitrary: i)
  case (Cons d ds)
  show ?case
  proof (cases "d \<le> k")
    case True
    with Cons show ?thesis by (cases i) auto
  next
    case False
    with Cons.prems have "\<not> x \<le> k" if "x \<in> set (d # ds)" for x
      using that by auto
    then show ?thesis by (metis filter_False length_0_conv not_less_zero nth_mem)
  qed
qed simp

lemma month_starts_of_year:
  "map (days_before_month y) [1..<13] =
     (if is_leap y then [0, 31, 60, 91, 121, 152, 182, 213, 244, 274, 305, 335]
      else [0, 31, 59, 90, 120, 151, 181, 212, 243, 273, 304, 334])"
  by (simp add: upt_rec days_before_month_def month_starts_def)

lemma month_search:
  assumes k: "0 \<le> k" "k < (if is_leap y then 366 else 365)"
  defines "m \<equiv> length (filter (\<lambda>m. days_before_month y m \<le> k) [1..<13])"
  shows "1 \<le> m \<and> m \<le> 12 \<and> days_before_month y m \<le> k \<and> k < days_before_month y (Suc m)"
proof -
  let ?ds = "map (days_before_month y) [1..<13]"
  have m: "m = length (filter (\<lambda>d. d \<le> k) ?ds)"
    by (simp add: m_def filter_map o_def)
  have "sorted ?ds" unfolding month_starts_of_year by simp
  note count = sorted_count [OF this, of _ k, folded m]
  have "?ds ! 0 \<le> k" using k(1) unfolding month_starts_of_year by simp
  then have "0 < m" using count [of 0] by simp
  moreover have "m \<le> 12" unfolding m by (rule order.trans [OF length_filter_le]) simp
  moreover have "days_before_month y m \<le> k"
    using count [of "m - 1"] \<open>0 < m\<close> \<open>m \<le> 12\<close> by simp
  moreover have "k < days_before_month y (Suc m)"
  proof (cases "m = 12")
    case True
    with k(2) show ?thesis by (auto simp: days_before_month_def month_starts_def)
  next
    case False
    with \<open>m \<le> 12\<close> count [of m] show ?thesis by simp
  qed
  ultimately show ?thesis by simp
qed

lemma civil_of_day:
  fixes n :: int
  defines "y \<equiv> year_of_day n" and "m \<equiv> month_of_day n" and "d \<equiv> mday_of_day n"
  shows "1 \<le> m" "m \<le> 12" "1 \<le> d" "d \<le> days_in y m" "day_number y m d = n"
proof -
  have y: "days_before_year y \<le> n" "n < days_before_year (y + 1)"
    using year_of_day [of n] by (simp_all add: y_def)
  have s: "1 \<le> m \<and> m \<le> 12 \<and> days_before_month y m \<le> n - days_before_year y \<and>
      n - days_before_year y < days_before_month y (Suc m)"
    unfolding m_def month_of_day_def Let_def y_def [symmetric]
    by (rule month_search) (use y year_length [of y] in linarith)+
  have d: "d = n - days_before_year y - days_before_month y m + 1"
    by (simp add: d_def mday_of_day_def Let_def y_def m_def)
  show "1 \<le> m" "m \<le> 12" "1 \<le> d" "d \<le> days_in y m" "day_number y m d = n"
    using s by (simp_all add: d days_in_def day_number_def)
qed

section \<open>Fields of an instant\<close>

definition epoch_day :: int where
  "epoch_day = 719528"

definition day_ns :: int where
  "day_ns = 86400000000000"

definition sec_ns :: int where
  "sec_ns = 1000000000"

definition day_of :: "time \<Rightarrow> int" where
  "day_of t = t div day_ns + epoch_day"

definition clock_of :: "time \<Rightarrow> nat" where
  "clock_of t = nat ((t mod day_ns) div sec_ns)"

definition nanos_of :: "time \<Rightarrow> nat" where
  "nanos_of t = nat ((t mod day_ns) mod sec_ns)"

text \<open>\<open>time.Date\<close> with the range checks of the parsers; the offset is in seconds east of UTC.\<close>

definition assemble :: "nat \<Rightarrow> nat \<Rightarrow> nat \<Rightarrow> nat \<Rightarrow> nat \<Rightarrow> nat \<Rightarrow> nat \<Rightarrow> int \<Rightarrow> time option" where
  "assemble y m d h mi s ns off =
     (if 1 \<le> m \<and> m \<le> 12 \<and> 1 \<le> d \<and> int d \<le> days_in (int y) m \<and> h < 24 \<and> mi < 60 \<and> s < 60
      then Some ((day_number (int y) m (int d) - epoch_day) * day_ns
                 + (int (h * 3600 + mi * 60 + s) - off) * sec_ns + int ns)
      else None)"

text \<open>The zero \<open>time.Time\<close>, January 1 of year 1, and \<open>IsZero\<close>.\<close>

definition zero_time :: time where
  "zero_time = (day_number 1 1 1 - epoch_day) * day_ns"

definition is_zero_time :: "time \<Rightarrow> bool" where
  "is_zero_time t \<longleftrightarrow> t = zero_time"

lemma clock_of_bound: "clock_of t < 86400"
  unfolding clock_of_def day_ns_def sec_ns_def
  using pos_mod_bound [of 86400000000000 t] by (simp add: nat_less_iff div_less_iff_less_mult)

lemma nanos_of_bound: "nanos_of t < 10 ^ 9"
  by (simp add: nanos_of_def sec_ns_def nat_less_iff)

lemma time_fields:
  "(day_of t - epoch_day) * day_ns + int (clock_of t) * sec_ns + int (nanos_of t) = t"
proof -
  have "0 \<le> t mod day_ns" by (simp add: day_ns_def)
  then have "int (clock_of t) = t mod day_ns div sec_ns" "int (nanos_of t) = t mod day_ns mod sec_ns"
    by (simp_all add: clock_of_def nanos_of_def sec_ns_def pos_imp_zdiv_nonneg_iff)
  then show ?thesis
    by (simp add: day_of_def mult.commute add.assoc)
qed

section \<open>RFC 3339\<close>

definition show_frac :: "nat \<Rightarrow> string" where
  "show_frac ns =
     (if ns = 0 then []
      else CHR ''.'' # rev (dropWhile (\<lambda>c. c = CHR ''0'') (rev (show_fixed 9 ns))))"

definition format_clock :: "nat \<Rightarrow> string" where
  "format_clock s =
     show_fixed 2 (s div 3600) @ '':'' @ show_fixed 2 (s div 60 mod 60) @ '':'' @ show_fixed 2 (s mod 60)"

definition format_date :: "int \<Rightarrow> string" where
  "format_date n =
     show_fixed 4 (nat (year_of_day n)) @ ''-'' @ show_fixed 2 (month_of_day n) @ ''-'' @
     show_fixed 2 (nat (mday_of_day n))"

definition format_rfc3339 :: "time \<Rightarrow> string" where
  "format_rfc3339 t =
     format_date (day_of t) @ ''T'' @ format_clock (clock_of t) @ show_frac (nanos_of t) @ ''Z''"

definition year_in_range :: "time \<Rightarrow> bool" where
  "year_in_range t \<longleftrightarrow> 0 \<le> year_of_day (day_of t) \<and> year_of_day (day_of t) \<le> 9999"

definition marshal_time :: "time \<Rightarrow> string option" where
  "marshal_time t = (if year_in_range t then Some (format_rfc3339 t) else None)"

text \<open>Parsing: one literal, a number of fixed width, a number of one or two digits.\<close>

definition lit :: "char \<Rightarrow> string \<Rightarrow> string option" where
  "lit c s = (case s of [] \<Rightarrow> None | d # r \<Rightarrow> if c = d then Some r else None)"

definition num :: "nat \<Rightarrow> string \<Rightarrow> (nat \<times> string) option" where
  "num w s =
     (if w \<le> length s \<and> list_all is_digit (take w s) then Some (read_digits (take w s), drop w s)
      else None)"

definition num12 :: "string \<Rightarrow> (nat \<times> string) option" where
  "num12 s = (case num 2 s of Some r \<Rightarrow> Some r | None \<Rightarrow> num 1 s)"

definition frac :: "char list \<Rightarrow> string \<Rightarrow> nat \<times> string" where
  "frac marks s =
     (case s of
        m # c # r \<Rightarrow>
          if m \<in> set marks \<and> is_digit c
          then (read_digits (take 9 (takeWhile is_digit (c # r) @ replicate 9 (CHR ''0''))),
                dropWhile is_digit (c # r))
          else (0, s)
      | _ \<Rightarrow> (0, s))"

text \<open>The zone: \<open>Z\<close>, or a sign and hours and minutes up to the given bounds.\<close>

definition zone :: "nat \<Rightarrow> nat \<Rightarrow> string \<Rightarrow> (int \<times> string) option" where
  "zone hmax mmax s =
     (case s of
        [] \<Rightarrow> None
      | c # r \<Rightarrow>
          if c = CHR ''Z'' then Some (0, r)
          else if c = CHR ''+'' \<or> c = CHR ''-'' then do {
            (h, r) \<leftarrow> num 2 r;
            r \<leftarrow> lit (CHR '':'') r;
            (m, r) \<leftarrow> num 2 r;
            if h \<le> hmax \<and> m \<le> mmax
            then Some ((if c = CHR ''-'' then - 1 else 1) * int (h * 3600 + m * 60), r)
            else None
          }
          else None)"

definition unmarshal_time :: "string \<Rightarrow> time option" where
  "unmarshal_time s = do {
     (y, s) \<leftarrow> num 4 s;
     s \<leftarrow> lit (CHR ''-'') s;
     (mo, s) \<leftarrow> num 2 s;
     s \<leftarrow> lit (CHR ''-'') s;
     (d, s) \<leftarrow> num 2 s;
     s \<leftarrow> lit (CHR ''T'') s;
     (h, s) \<leftarrow> num 2 s;
     s \<leftarrow> lit (CHR '':'') s;
     (mi, s) \<leftarrow> num 2 s;
     s \<leftarrow> lit (CHR '':'') s;
     (sec, s) \<leftarrow> num 2 s;
     let (ns, s) = frac [CHR ''.''] s;
     (off, s) \<leftarrow> zone 23 59 s;
     if s = [] then assemble y mo d h mi sec ns off else None
   }"

text \<open>
  \<open>time.Parse("2006-01-02 15:04:05Z07:00", s)\<close>: the blank of the layout matches one or more
  blanks, the hour may have one digit, a fraction may follow the seconds after a dot or a comma,
  and offsets reach 24 hours and 60 minutes.
\<close>

definition blanks :: "string \<Rightarrow> string option" where
  "blanks s =
     (case s of [] \<Rightarrow> Some [] | c # _ \<Rightarrow> if c = CHR '' '' then Some (dropWhile (\<lambda>c. c = CHR '' '') s) else None)"

definition parse_layout :: "string \<Rightarrow> time option" where
  "parse_layout s = do {
     (y, s) \<leftarrow> num 4 s;
     s \<leftarrow> lit (CHR ''-'') s;
     (mo, s) \<leftarrow> num 2 s;
     s \<leftarrow> lit (CHR ''-'') s;
     (d, s) \<leftarrow> num 2 s;
     s \<leftarrow> blanks s;
     (h, s) \<leftarrow> num12 s;
     s \<leftarrow> lit (CHR '':'') s;
     (mi, s) \<leftarrow> num 2 s;
     s \<leftarrow> lit (CHR '':'') s;
     (sec, s) \<leftarrow> num 2 s;
     let (ns, s) = frac [CHR ''.'', CHR '',''] s;
     (off, s) \<leftarrow> zone 24 60 s;
     if s = [] then assemble y mo d h mi sec ns off else None
   }"

section \<open>Round trips\<close>

lemma num_show_fixed [simp]: "n < 10 ^ w \<Longrightarrow> num w (show_fixed w n @ r) = Some (n, r)"
  by (simp add: num_def read_show_fixed list_all_iff del: show_fixed.simps)

lemma lit_Cons [simp]: "lit c (c # r) = Some r"
  by (simp add: lit_def)

lemma strip_pad:
  "take (length xs) (rev (dropWhile (\<lambda>x. x = c) (rev xs)) @ replicate (length xs) c) = xs"
proof (induction xs rule: rev_induct)
  case (snoc x xs)
  let ?ys = "rev (dropWhile (\<lambda>x. x = c) (rev xs))"
  show ?case
  proof (cases "x = c")
    case True
    have len: "length ?ys \<le> length xs"
      by (metis length_dropWhile_le length_rev)
    have "take (Suc (length xs)) (?ys @ replicate (Suc (length xs)) c) =
        take (length xs) (?ys @ replicate (length xs) c) @ [c]"
      using len by (simp add: Suc_diff_le replicate_append_same flip: replicate_Suc)
    with snoc True show ?thesis by simp
  qed simp
qed simp

lemma read_digits_zeros: "\<forall>c \<in> set s. c = CHR ''0'' \<Longrightarrow> read_digits s = 0"
  by (induction s rule: rev_induct) (simp_all add: digit_val_def)

lemma frac_show_frac:
  assumes ns: "ns < 10 ^ 9" and dot: "CHR ''.'' \<in> set marks"
    and r: "r = c # u" "\<not> is_digit c" "c \<notin> set marks"
  shows "frac marks (show_frac ns @ r) = (ns, r)"
proof (cases "ns = 0")
  case True
  with r show ?thesis by (simp add: show_frac_def frac_def split: list.split)
next
  case False
  let ?p = "\<lambda>c. c = CHR ''0''"
  define q where "q = rev (dropWhile ?p (rev (show_fixed 9 ns)))"
  have dig: "is_digit c" if "c \<in> set q" for c
    using that by (auto simp: q_def simp del: show_fixed.simps dest!: set_dropWhileD)
  have "q \<noteq> []"
  proof
    assume "q = []"
    then have "\<forall>c \<in> set (show_fixed 9 ns). ?p c"
      by (simp add: q_def dropWhile_eq_Nil_conv del: show_fixed.simps)
    then have "read_digits (show_fixed 9 ns) = 0" by (rule read_digits_zeros)
    with False read_show_fixed [OF ns] show False by simp
  qed
  then obtain d v where q: "q = d # v" by (cases q) auto
  have take: "takeWhile is_digit (q @ r) = q" and drop: "dropWhile is_digit (q @ r) = r"
    using dig r by (simp_all add: takeWhile_append2 dropWhile_append2)
  have "take 9 (q @ replicate 9 (CHR ''0'')) = show_fixed 9 ns"
    using strip_pad [of "show_fixed 9 ns" "CHR ''0''"] unfolding q_def length_show_fixed .
  then have "read_digits (take 9 (q @ replicate 9 (CHR ''0''))) = ns"
    using read_show_fixed [OF ns] by simp
  with False take drop dig dot show ?thesis
    unfolding show_frac_def q_def [symmetric] by (simp add: frac_def q)
qed

lemma zone_Z [simp]: "zone hmax mmax (CHR ''Z'' # r) = Some (0, r)"
  by (simp add: zone_def)

lemma days_in_le:
  assumes "1 \<le> m" "m \<le> 12"
  shows "days_in y m \<le> 31"
proof -
  have "list_all (\<lambda>m. days_in y m \<le> 31) [1..<13]"
    by (simp add: upt_rec days_in_def days_before_month_def month_starts_def)
  with assms show ?thesis by (simp add: list_all_iff)
qed

lemma civil_bounds:
  assumes "year_in_range t"
  shows "nat (year_of_day (day_of t)) < 10 ^ 4" "month_of_day (day_of t) < 10 ^ 2"
    "nat (mday_of_day (day_of t)) < 10 ^ 2"
  using assms civil_of_day [of "day_of t"]
    days_in_le [of "month_of_day (day_of t)" "year_of_day (day_of t)"]
  by (auto simp: year_in_range_def)

lemma assemble_fields:
  assumes "year_in_range t" and "s = clock_of t"
  shows "assemble (nat (year_of_day (day_of t))) (month_of_day (day_of t)) (nat (mday_of_day (day_of t)))
    (s div 3600) (s div 60 mod 60) (s mod 60) (nanos_of t) 0 = Some t"
proof -
  note civil = civil_of_day [of "day_of t"]
  have "s div 3600 * 3600 + s div 60 mod 60 * 60 + s mod 60 = s"
  proof -
    define q r x where qrx: "q = s div 60 div 60" "r = s div 60 mod 60" "x = s mod 60"
    have "q * 60 + r = s div 60" and "s div 60 * 60 + x = s"
      unfolding qrx by (rule div_mult_mod_eq)+
    then show ?thesis
      unfolding qrx(2,3) [symmetric] using div_mult2_eq [of s 60 60] by (simp add: qrx(1))
  qed
  moreover have "s div 3600 < 24"
    using clock_of_bound [of t] assms(2) by (simp add: div_less_iff_less_mult)
  moreover have "int (nat (year_of_day (day_of t))) = year_of_day (day_of t)"
    using assms(1) by (simp add: year_in_range_def)
  ultimately show ?thesis
    using civil time_fields [of t] assms(2) by (simp add: assemble_def)
qed

lemma clock_parts: "s div 60 mod 60 < 10 ^ 2" "s mod 60 < (10 ^ 2 :: nat)"
  by simp_all

lemma unmarshal_marshal_time:
  assumes "marshal_time t = Some s"
  shows "unmarshal_time s = Some t"
proof -
  from assms have y: "year_in_range t" and s: "s = format_rfc3339 t"
    by (auto simp: marshal_time_def split: if_splits)
  note b = civil_bounds [OF y] clock_parts [of "clock_of t"]
  have h: "clock_of t div 3600 < 10 ^ 2"
    using clock_of_bound [of t] by (simp add: div_less_iff_less_mult)
  have "frac [CHR ''.''] (show_frac (nanos_of t) @ ''Z'') = (nanos_of t, ''Z'')"
    by (rule frac_show_frac [OF nanos_of_bound, where c = "CHR ''Z''" and u = "[]"])
       (simp_all add: is_digit_def)
  with b h assemble_fields [OF y refl] show ?thesis
    by (simp add: unmarshal_time_def s format_rfc3339_def format_date_def format_clock_def
        del: show_fixed.simps)
qed

lemma parse_layout_utc:
  assumes "year_in_range t" and "nanos_of t = 0"
  shows "parse_layout (format_date (day_of t) @ '' '' @ format_clock (clock_of t) @ ''Z'') = Some t"
proof -
  note b = civil_bounds [OF assms(1)] clock_parts [of "clock_of t"]
  have h: "clock_of t div 3600 < 10 ^ 2"
    using clock_of_bound [of t] by (simp add: div_less_iff_less_mult)
  obtain c r where c: "show_fixed 2 (clock_of t div 3600) = c # r" "is_digit c"
    using digits_show_fixed [of _ 2 "clock_of t div 3600"]
    by (cases "show_fixed 2 (clock_of t div 3600)")
       (auto simp del: show_fixed.simps dest!: arg_cong [of _ _ length])
  have blank: "blanks (CHR '' '' # show_fixed 2 (clock_of t div 3600) @ v)
      = Some (show_fixed 2 (clock_of t div 3600) @ v)" for v
    using c by (auto simp: blanks_def is_digit_def simp del: show_fixed.simps)
  have hour: "num12 (show_fixed 2 (clock_of t div 3600) @ v) = Some (clock_of t div 3600, v)" for v
    using h by (simp add: num12_def del: show_fixed.simps)
  show ?thesis
    using b h assemble_fields [OF assms(1) refl] assms(2)
    by (simp add: parse_layout_def format_date_def format_clock_def blank hour frac_def
        del: show_fixed.simps)
qed

end
