(* ===== verification/GoFloat.thy ===== *)
theory GoFloat
  imports Complex_Main GoStrings "HOL-Library.Word"
begin

text \<open>
  The binary64 arithmetic the flight mapper performs: multiplication and division by a positive
  constant with rounding to nearest even, \<open>math.Round\<close>, the conversion to \<open>int\<close> and the verb
  \<open>%.1f\<close>. A finite value carries its sign bit (so that negative zero exists) and its magnitude as
  an exact rational; \<open>rnd\<close> puts an exact result back on the binary64 grid.
\<close>

datatype float64 = NaN | Inf bool | Fin bool rat

fun bits :: "nat \<Rightarrow> nat" where
  "bits n = (if n = 0 then 0 else Suc (bits (n div 2)))"

declare bits.simps [simp del]

definition flog2 :: "rat \<Rightarrow> int" where
  "flog2 m =
     (let (a, b) = quotient_of m; k = int (bits (nat a)) - int (bits (nat b))
      in if 2 powi k \<le> m then k else k - 1)"

definition half_even :: "rat \<Rightarrow> int" where
  "half_even m =
     (let f = \<lfloor>m\<rfloor>; d = m - of_int f
      in if d < 1 / 2 then f else if 1 / 2 < d then f + 1 else if even f then f else f + 1)"

definition grid :: "rat \<Rightarrow> int" where
  "grid m = max (flog2 m - 52) (- 1074)"

definition rnd :: "bool \<Rightarrow> rat \<Rightarrow> float64" where
  "rnd s m =
     (if m = 0 then Fin s 0
      else let v = of_int (half_even (m / 2 powi grid m)) * 2 powi grid m
           in if v < 2 ^ 1024 then Fin s v else Inf s)"

fun fmul :: "rat \<Rightarrow> float64 \<Rightarrow> float64" where
  "fmul c NaN = NaN"
| "fmul c (Inf s) = Inf s"
| "fmul c (Fin s m) = rnd s (m * c)"

fun fdiv :: "rat \<Rightarrow> float64 \<Rightarrow> float64" where
  "fdiv c NaN = NaN"
| "fdiv c (Inf s) = Inf s"
| "fdiv c (Fin s m) = rnd s (m / c)"

text \<open>\<open>math.Round\<close>: to the nearest integer, halves away from zero, the sign kept.\<close>

fun math_round :: "float64 \<Rightarrow> float64" where
  "math_round NaN = NaN"
| "math_round (Inf s) = Inf s"
| "math_round (Fin s m) = Fin s (of_int \<lfloor>m + 1 / 2\<rfloor>)"

text \<open>
  Go's \<open>int\<close> has 64 bits. \<open>int(x)\<close> truncates; outside the range of an \<open>int\<close> the result depends
  on the machine and is the parameter \<open>oob\<close>.
\<close>

type_synonym gint = "64 word"

definition in_int64 :: "int \<Rightarrow> bool" where
  "in_int64 i \<longleftrightarrow> - (2 ^ 63) \<le> i \<and> i < 2 ^ 63"

fun to_int :: "(float64 \<Rightarrow> gint) \<Rightarrow> float64 \<Rightarrow> gint" where
  "to_int oob (Fin s m) =
     (let i = (if s then - \<lfloor>m\<rfloor> else \<lfloor>m\<rfloor>) in if in_int64 i then word_of_int i else oob (Fin s m))"
| "to_int oob x = oob x"

lemma sint_of_in_int64: "in_int64 i \<Longrightarrow> sint (word_of_int i :: gint) = i"
  by (simp add: in_int64_def sint_sbintrunc' signed_take_bit_int_eq_self)

lemma in_int64_sint [simp]: "in_int64 (sint (w :: gint))"
  using sint_greater_eq [of w] sint_less [of w] by (simp add: in_int64_def)

fun format_f1 :: "float64 \<Rightarrow> string" where
  "format_f1 NaN = ''NaN''"
| "format_f1 (Inf s) = (if s then ''-Inf'' else ''+Inf'')"
| "format_f1 (Fin s m) =
     (let n = nat (half_even (m * 10))
      in (if s then ''-'' else '''') @ show_nat (n div 10) @ ''.'' @ show_nat (n mod 10))"

fun is_finite :: "float64 \<Rightarrow> bool" where
  "is_finite (Fin s m) = True"
| "is_finite _ = False"

section \<open>Rounding errors\<close>

lemma bits_bounds: "0 < n \<Longrightarrow> 2 ^ (bits n - 1) \<le> n \<and> n < 2 ^ bits n \<and> 0 < bits n"
proof (induction n rule: bits.induct)
  case (1 n)
  show ?case
  proof (cases "n div 2 = 0")
    case True
    with "1.prems" have "n = 1" by auto
    then show ?thesis by (simp add: bits.simps)
  next
    case False
    with 1 have IH: "2 ^ (bits (n div 2) - 1) \<le> n div 2" "n div 2 < 2 ^ bits (n div 2)"
      "0 < bits (n div 2)"
      by simp_all
    from IH(2) have "n < 2 ^ Suc (bits (n div 2))" by simp
    moreover from IH(1,3) have "2 ^ bits (n div 2) \<le> n"
      by (cases "bits (n div 2)") auto
    ultimately show ?thesis using "1.prems" by (simp add: bits.simps [of n])
  qed
qed

lemma bits_bounds_rat:
  assumes "0 < a"
  shows "(2::rat) ^ (bits (nat a) - 1) \<le> of_int a" "of_int a < (2::rat) ^ bits (nat a)"
    "0 < bits (nat a)"
proof -
  have b: "2 ^ (bits (nat a) - 1) \<le> nat a \<and> nat a < 2 ^ bits (nat a) \<and> 0 < bits (nat a)"
    using assms by (intro bits_bounds) simp
  then have "(of_nat (2 ^ (bits (nat a) - 1)) :: rat) \<le> of_nat (nat a)"
    and "(of_nat (nat a) :: rat) < of_nat (2 ^ bits (nat a))"
    by (simp_all only: of_nat_le_iff of_nat_less_iff)
  with b assms show "(2::rat) ^ (bits (nat a) - 1) \<le> of_int a"
    and "of_int a < (2::rat) ^ bits (nat a)" and "0 < bits (nat a)"
    by simp_all
qed

lemma flog2_bounds:
  assumes "0 < m"
  shows "2 powi flog2 m \<le> m" "m < 2 powi (flog2 m + 1)"
proof -
  obtain a b where ab: "quotient_of m = (a, b)" by (cases "quotient_of m")
  have b: "0 < b" using quotient_of_denom_pos [OF ab] .
  have m: "m = of_int a / of_int b" using quotient_of_div [OF ab] .
  have a: "0 < a" using assms b by (simp add: m zero_less_divide_iff)
  define ka kb where k: "ka = bits (nat a)" "kb = bits (nat b)"
  note A = bits_bounds_rat [OF a, folded k] and B = bits_bounds_rat [OF b, folded k]
  have "(2::rat) powi (int ka - int kb - 1) = 2 powi (int (ka - 1) - int kb)"
    using A(3) by (intro arg_cong [of _ _ "(powi) 2"]) simp
  also have "\<dots> = 2 ^ (ka - 1) / 2 ^ kb"
    by (simp add: power_int_diff)
  also have "\<dots> \<le> m"
    unfolding m using A B b a by (intro frac_le) simp_all
  finally have lower: "2 powi (int ka - int kb - 1) \<le> m" .
  have "m < 2 ^ ka / 2 ^ (kb - 1)"
    unfolding m using A B a by (intro frac_less) simp_all
  also have "\<dots> = (2::rat) powi (int ka - int (kb - 1))"
    by (simp add: power_int_diff)
  also have "\<dots> = 2 powi (int ka - int kb + 1)"
    using B(3) by (intro arg_cong [of _ _ "(powi) 2"]) simp
  finally have "m < 2 powi (int ka - int kb + 1)" .
  with lower show "2 powi flog2 m \<le> m" "m < 2 powi (flog2 m + 1)"
    by (auto simp: flog2_def ab k [symmetric] Let_def)
qed

lemma half_even_error: "\<bar>of_int (half_even m) - m\<bar> \<le> 1 / 2"
proof -
  have "of_int \<lfloor>m\<rfloor> \<le> m" "m < of_int \<lfloor>m\<rfloor> + 1"
    using floor_correct [of m] by simp_all
  then show ?thesis by (auto simp: half_even_def Let_def)
qed

lemma half_even_unique: "\<bar>m - of_int k\<bar> < 1 / 2 \<Longrightarrow> half_even m = k"
proof -
  assume k: "\<bar>m - of_int k\<bar> < 1 / 2"
  have "\<bar>of_int (half_even m) - of_int k\<bar> < (1::rat)"
    using half_even_error [of m] k by linarith
  then show ?thesis by linarith
qed

lemma half_even_nonneg: "0 \<le> m \<Longrightarrow> 0 \<le> half_even m"
  by (auto simp: half_even_def Let_def)

lemma grid_error:
  assumes "0 < m"
  shows "2 powi grid m / 2 \<le> (m + 1) / 2 ^ 53"
proof (cases "flog2 m - 52 \<le> - 1074")
  case True
  then have "(2::rat) powi grid m \<le> 2 powi (- 52)"
    by (intro power_int_increasing) (simp_all add: grid_def)
  also have "\<dots> = 1 / 2 ^ 52"
    by (simp add: power_int_def power_one_over)
  finally show ?thesis using assms by simp
next
  case False
  then have "(2::rat) powi grid m = 2 powi flog2 m / 2 ^ 52"
    by (simp add: grid_def power_int_diff)
  also have "\<dots> \<le> m / 2 ^ 52"
    using flog2_bounds [OF assms] by (intro divide_right_mono) simp_all
  finally show ?thesis using assms by simp
qed

text \<open>
  Rounding to the grid moves a magnitude by at most half a unit in the last place, and half of the
  smallest subnormal below the normal range.
\<close>

lemma rnd_error:
  assumes "0 \<le> m" and "m < 2 ^ 1000"
  obtains v where "rnd s m = Fin s v" "0 \<le> v" "\<bar>v - m\<bar> \<le> (m + 1) / 2 ^ 53"
proof (cases "m = 0")
  case True
  then show ?thesis using that by (simp add: rnd_def)
next
  case False
  with assms have m: "0 < m" by simp
  define p where "p = (2::rat) powi grid m"
  have p: "0 < p" by (simp add: p_def)
  define v where "v = of_int (half_even (m / p)) * p"
  have "\<bar>v - m\<bar> = \<bar>of_int (half_even (m / p)) - m / p\<bar> * p"
    using p by (simp add: v_def abs_mult_pos left_diff_distrib)
  also have "\<dots> \<le> 1 / 2 * p"
    using p half_even_error by (intro mult_right_mono) simp_all
  also have "\<dots> \<le> (m + 1) / 2 ^ 53"
    using grid_error [OF m] by (simp add: p_def)
  finally have err: "\<bar>v - m\<bar> \<le> (m + 1) / 2 ^ 53" .
  have "(m + 1) / 2 ^ 53 \<le> (m + 1) / 1"
    using m by (intro divide_left_mono) simp_all
  also have "\<dots> = m + 1" by simp
  finally have "(m + 1) / 2 ^ 53 \<le> m + 1" .
  with err have "v \<le> 2 * m + 1" by linarith
  also have "\<dots> < 2 ^ 1024" using assms(2) by simp
  finally have "v < 2 ^ 1024" .
  then have "rnd s m = Fin s v"
    using False by (simp add: rnd_def Let_def v_def p_def)
  moreover have "0 \<le> v" using m p half_even_nonneg [of "m / p"] by (simp add: v_def)
  ultimately show ?thesis using err that by blast
qed

text \<open>Integers of at most 53 bits are on the grid.\<close>

lemma half_even_of_int [simp]: "half_even (of_int k) = k"
  by (rule half_even_unique) simp

lemma flog2_le:
  assumes "0 < m" and "m < 2 ^ n"
  shows "flog2 m < int n"
proof (rule ccontr)
  assume "\<not> flog2 m < int n"
  then have "(2::rat) powi int n \<le> 2 powi flog2 m"
    by (intro power_int_increasing) simp_all
  with flog2_bounds(1) [OF assms(1)] assms(2) show False by simp
qed

lemma rnd_of_nat:
  assumes "n < 2 ^ 53"
  shows "rnd s (of_nat n) = Fin s (of_nat n)"
proof (cases "n = 0")
  case True
  then show ?thesis by (simp add: rnd_def)
next
  case False
  have "(of_nat n :: rat) < of_nat (2 ^ 53)" using assms by (simp only: of_nat_less_iff)
  then have "flog2 (of_nat n) < 53"
    using flog2_le [of "of_nat n" 53] False by simp
  then have g: "grid (of_nat n) \<le> 0" by (simp add: grid_def)
  define j where "j = nat (- grid (of_nat n))"
  have "grid (of_nat n) = - int j" using g by (simp add: j_def)
  then have p: "(2::rat) powi grid (of_nat n) = 1 / 2 ^ j"
    by (simp add: power_int_minus inverse_eq_divide)
  have "(of_nat n :: rat) / (1 / 2 ^ j) = of_int (int n * 2 ^ j)" by simp
  then have "half_even (of_nat n / (1 / 2 ^ j)) = int n * 2 ^ j"
    by (simp only: half_even_of_int)
  then have "of_int (half_even (of_nat n / (1 / 2 ^ j))) * (1 / 2 ^ j) = (of_nat n :: rat)"
    by simp
  moreover have "(of_nat n :: rat) < 2 ^ 1024"
  proof -
    have "(of_nat n :: rat) < 2 ^ 53" using \<open>of_nat n < of_nat (2 ^ 53)\<close> by simp
    also have "(2::rat) ^ 53 \<le> 2 ^ 1024" by (rule power_increasing) simp_all
    finally show ?thesis .
  qed
  ultimately show ?thesis using False by (simp add: rnd_def p)
qed

section \<open>Rounding to a number of decimals\<close>

text \<open>\<open>math.Round(x*c) / c\<close>.\<close>

definition round_to :: "rat \<Rightarrow> float64 \<Rightarrow> float64" where
  "round_to c x = fdiv c (math_round (fmul c x))"

lemma round_half_error: "\<bar>of_int \<lfloor>m + 1 / 2\<rfloor> - m\<bar> \<le> (1 / 2 :: rat)"
  using floor_correct [of "m + 1 / 2"] by (simp add: abs_if) linarith

text \<open>
  For an ordinary magnitude the result is finite, keeps the sign, and is a whole number of decimal
  units rounded to the grid; it is half a unit away from the argument up to the rounding of the two
  operations.
\<close>

lemma round_to_steps:
  assumes m: "0 \<le> m" "m \<le> 2 ^ 40" and c: "1 \<le> c" "c \<le> 2 ^ 20"
  obtains k v where "round_to c (Fin s m) = Fin s v" "0 \<le> v" "0 \<le> k"
    "\<bar>of_int k - m * c\<bar> \<le> 1 / 2 + (m * c + 1) / 2 ^ 53"
    "\<bar>v - of_int k / c\<bar> \<le> (of_int k / c + 1) / 2 ^ 53"
    "of_int k / c \<le> 2 * m + 2"
proof -
  have mc: "0 \<le> m * c" using m c by simp
  have "m * c \<le> 2 ^ 40 * 2 ^ 20" using m c by (intro mult_mono) simp_all
  also have "\<dots> < (2::rat) ^ 1000"
    unfolding power_add [symmetric] by (rule power_strict_increasing) simp_all
  finally have "m * c < 2 ^ 1000" .
  then obtain u where u: "rnd s (m * c) = Fin s u" "0 \<le> u" "\<bar>u - m * c\<bar> \<le> (m * c + 1) / 2 ^ 53"
    using rnd_error [of "m * c" s] mc by auto
  define k where "k = \<lfloor>u + 1 / 2\<rfloor>"
  have k: "0 \<le> k" "\<bar>of_int k - u\<bar> \<le> 1 / 2"
    using u(2) round_half_error [of u] by (simp_all add: k_def)
  have k_err: "\<bar>of_int k - m * c\<bar> \<le> 1 / 2 + (m * c + 1) / 2 ^ 53"
    using u(3) k(2) by linarith
  have "(m * c + 1) / 2 ^ 53 \<le> (m * c + 1) / 1"
    using mc by (intro divide_left_mono) simp_all
  also have "\<dots> = m * c + 1" by simp
  finally have "(m * c + 1) / 2 ^ 53 \<le> m * c + 1" .
  with k_err have "of_int k \<le> 2 * (m * c) + 2" using mc by linarith
  then have "of_int k / c \<le> (2 * (m * c) + 2) / c"
    using c by (intro divide_right_mono) simp_all
  also have "\<dots> = 2 * m + 2 / c" using c by (simp add: field_simps)
  also have "\<dots> \<le> 2 * m + 2" using c by (simp add: field_simps)
  finally have kc: "of_int k / c \<le> 2 * m + 2" .
  also have "\<dots> < (2::rat) ^ 1000"
  proof -
    have "2 * m + 2 \<le> 2 ^ 42" using m by simp
    also have "(2::rat) ^ 42 < 2 ^ 1000" by (rule power_strict_increasing) simp_all
    finally show ?thesis .
  qed
  finally have "of_int k / c < 2 ^ 1000" .
  moreover have "0 \<le> of_int k / c" using k c by simp
  ultimately obtain v where v: "rnd s (of_int k / c) = Fin s v" "0 \<le> v"
    "\<bar>v - of_int k / c\<bar> \<le> (of_int k / c + 1) / 2 ^ 53"
    using rnd_error [of "of_int k / c" s] by auto
  have "round_to c (Fin s m) = Fin s v"
    by (simp add: round_to_def u(1) v(1) flip: k_def)
  then show ?thesis using that [of v k] v k k_err kc by blast
qed

lemma round_to_error:
  assumes m: "0 \<le> m" "m \<le> 2 ^ 40" and c: "1 \<le> c" "c \<le> 2 ^ 20"
  obtains v where "round_to c (Fin s m) = Fin s v" "0 \<le> v"
    "\<bar>v - m\<bar> \<le> 1 / (2 * c) + (m + 1) / 2 ^ 51"
proof -
  obtain k v where v: "round_to c (Fin s m) = Fin s v" "0 \<le> v"
    and k: "\<bar>of_int k - m * c\<bar> \<le> 1 / 2 + (m * c + 1) / 2 ^ 53"
    and vk: "\<bar>v - of_int k / c\<bar> \<le> (of_int k / c + 1) / 2 ^ 53" and kc: "of_int k / c \<le> 2 * m + 2"
    by (rule round_to_steps [OF assms])
  have "of_int k / c - m = (of_int k - m * c) / c"
    using c by (simp add: field_simps)
  then have "\<bar>of_int k / c - m\<bar> = \<bar>of_int k - m * c\<bar> / c"
    using c by (simp add: abs_divide)
  also have "\<dots> \<le> (1 / 2 + (m * c + 1) / 2 ^ 53) / c"
    using k c by (intro divide_right_mono) simp_all
  also have "\<dots> = 1 / (2 * c) + (m + 1 / c) / 2 ^ 53"
    using c by (simp add: field_simps)
  also have "\<dots> \<le> 1 / (2 * c) + (m + 1) / 2 ^ 53"
    using c by (intro add_left_mono divide_right_mono) simp_all
  finally have "\<bar>of_int k / c - m\<bar> \<le> 1 / (2 * c) + (m + 1) / 2 ^ 53" .
  moreover have "(of_int k / c + 1) / 2 ^ 53 \<le> (2 * m + 3) / 2 ^ 53"
    using kc by (intro divide_right_mono) simp_all
  moreover have "(2 * m + 3) / 2 ^ 53 + (m + 1) / 2 ^ 53 \<le> (m + 1) / 2 ^ (51::nat)"
    using m by (simp add: field_simps)
  ultimately have "\<bar>v - m\<bar> \<le> 1 / (2 * c) + (m + 1) / 2 ^ 51"
    using vk by linarith
  with v show ?thesis by (rule that)
qed

text \<open>One decimal survives \<open>%.1f\<close>: the text shows exactly the number of tenths.\<close>

lemma round_to_tenths:
  assumes m: "0 \<le> m" "m \<le> 2 ^ 40"
  obtains k v where "round_to 10 (Fin s m) = Fin s v" "0 \<le> k"
    "\<bar>of_int k - m * 10\<bar> \<le> 1 / 2 + (m * 10 + 1) / 2 ^ 53" "half_even (v * 10) = k"
proof -
  obtain k v where v: "round_to 10 (Fin s m) = Fin s v" and k0: "0 \<le> k"
    and k: "\<bar>of_int k - m * 10\<bar> \<le> 1 / 2 + (m * 10 + 1) / 2 ^ 53"
    and vk: "\<bar>v - of_int k / 10\<bar> \<le> (of_int k / 10 + 1) / 2 ^ 53" and kc: "of_int k / 10 \<le> 2 * m + 2"
    by (rule round_to_steps [OF m, of 10 s]) simp_all
  have "of_int k / 10 + 1 \<le> (2::rat) ^ 42" using kc m by simp
  then have "(of_int k / 10 + 1) / 2 ^ 53 \<le> (2::rat) ^ 42 / 2 ^ 53"
    by (intro divide_right_mono) simp_all
  with vk have "\<bar>v - of_int k / 10\<bar> < 1 / 20" by simp
  then have "\<bar>v * 10 - of_int k\<bar> < 1 / 2" by (simp add: abs_if split: if_splits)
  then have "half_even (v * 10) = k" by (rule half_even_unique)
  with v k0 k show ?thesis by (rule that)
qed

lemma sint_of_nat: "n < 2 ^ 63 \<Longrightarrow> sint (of_nat n :: gint) = int n"
proof -
  assume "n < 2 ^ 63"
  then have "in_int64 (int n)" by (simp add: in_int64_def)
  from sint_of_in_int64 [OF this] show ?thesis by simp
qed

end
