(* ===== verification/Json.thy ===== *)
theory Json
  imports GoFloat GoTime
begin

text \<open>
  What \<open>encoding/json\<close> does with the structs of the source, on parsed values: an encoder per
  struct returns no value where \<open>json.Marshal\<close> fails (a float that is not finite, a year outside
  0 to 9999), a decoder returns none where \<open>json.Unmarshal\<close> reports an error. Missing fields and
  \<open>null\<close> leave the zero value. Keys are matched exactly, the last one winning; the case folding
  fallback of the library only concerns text this program did not write.
\<close>

datatype json =
    JNull
  | JBool bool
  | JInt int
  | JFloat float64
  | JStr string
  | JArr "json list"
  | JObj "(string \<times> json) list"

section \<open>Encoding\<close>

text \<open>A field contributes at most one pair; \<open>None\<close> is a marshalling error.\<close>

type_synonym fields = "(string \<times> json) list option"

definition fld :: "string \<Rightarrow> json \<Rightarrow> fields" where
  "fld n j = Some [(n, j)]"

definition fld_opt :: "string \<Rightarrow> json option \<Rightarrow> fields" where
  "fld_opt n j = map_option (\<lambda>v. [(n, v)]) j"

definition fld_omit :: "string \<Rightarrow> bool \<Rightarrow> json option \<Rightarrow> fields" where
  "fld_omit n omit j = (if omit then Some [] else fld_opt n j)"

definition jobj :: "fields list \<Rightarrow> json option" where
  "jobj fs = map_option (\<lambda>kvs. JObj (concat kvs)) (those fs)"

definition enc_str :: "string \<Rightarrow> string \<Rightarrow> fields" where
  "enc_str n s = fld n (JStr s)"

definition enc_str_omit :: "string \<Rightarrow> string \<Rightarrow> fields" where
  "enc_str_omit n s = fld_omit n (s = []) (Some (JStr s))"

definition enc_strptr :: "string \<Rightarrow> string option \<Rightarrow> fields" where
  "enc_strptr n s = fld n (case s of None \<Rightarrow> JNull | Some t \<Rightarrow> JStr t)"

definition enc_int :: "string \<Rightarrow> gint \<Rightarrow> fields" where
  "enc_int n i = fld n (JInt (sint i))"

definition enc_bool :: "string \<Rightarrow> bool \<Rightarrow> fields" where
  "enc_bool n b = fld n (JBool b)"

definition enc_float :: "string \<Rightarrow> float64 \<Rightarrow> fields" where
  "enc_float n x = (if is_finite x then fld n (JFloat x) else None)"

definition enc_time :: "string \<Rightarrow> time \<Rightarrow> fields" where
  "enc_time n t = fld_opt n (map_option JStr (marshal_time t))"

definition enc_list :: "('a \<Rightarrow> json option) \<Rightarrow> 'a list \<Rightarrow> json option" where
  "enc_list enc xs = map_option JArr (those (map enc xs))"

definition enc_slice :: "('a \<Rightarrow> json option) \<Rightarrow> 'a slice \<Rightarrow> json option" where
  "enc_slice enc s = (case s of None \<Rightarrow> Some JNull | Some xs \<Rightarrow> enc_list enc xs)"

section \<open>Decoding\<close>

definition field :: "string \<Rightarrow> (string \<times> json) list \<Rightarrow> json option" where
  "field n kvs = map_of (rev kvs) n"

definition dec_str :: "string \<Rightarrow> (string \<times> json) list \<Rightarrow> string option" where
  "dec_str n kvs =
     (case field n kvs of
        None \<Rightarrow> Some []
      | Some j \<Rightarrow> (case j of JNull \<Rightarrow> Some [] | JStr s \<Rightarrow> Some s | _ \<Rightarrow> None))"

definition dec_strptr :: "string \<Rightarrow> (string \<times> json) list \<Rightarrow> string option option" where
  "dec_strptr n kvs =
     (case field n kvs of
        None \<Rightarrow> Some None
      | Some j \<Rightarrow> (case j of JNull \<Rightarrow> Some None | JStr s \<Rightarrow> Some (Some s) | _ \<Rightarrow> None))"

definition dec_int :: "string \<Rightarrow> (string \<times> json) list \<Rightarrow> gint option" where
  "dec_int n kvs =
     (case field n kvs of
        None \<Rightarrow> Some 0
      | Some j \<Rightarrow>
          (case j of
             JNull \<Rightarrow> Some 0
           | JInt i \<Rightarrow> if in_int64 i then Some (word_of_int i) else None
           | JFloat (Fin s m) \<Rightarrow>
               (let i = (if s then - \<lfloor>m\<rfloor> else \<lfloor>m\<rfloor>)
                in if of_int \<lfloor>m\<rfloor> = m \<and> in_int64 i then Some (word_of_int i) else None)
           | _ \<Rightarrow> None))"

definition dec_bool :: "string \<Rightarrow> (string \<times> json) list \<Rightarrow> bool option" where
  "dec_bool n kvs =
     (case field n kvs of
        None \<Rightarrow> Some False
      | Some j \<Rightarrow> (case j of JNull \<Rightarrow> Some False | JBool b \<Rightarrow> Some b | _ \<Rightarrow> None))"

definition dec_float :: "string \<Rightarrow> (string \<times> json) list \<Rightarrow> float64 option" where
  "dec_float n kvs =
     (case field n kvs of
        None \<Rightarrow> Some (Fin False 0)
      | Some j \<Rightarrow>
          (case j of
             JNull \<Rightarrow> Some (Fin False 0)
           | JFloat x \<Rightarrow> if is_finite x then Some x else None
           | JInt i \<Rightarrow> (let x = rnd (i < 0) (of_int \<bar>i\<bar>) in if is_finite x then Some x else None)
           | _ \<Rightarrow> None))"

definition dec_time :: "string \<Rightarrow> (string \<times> json) list \<Rightarrow> time option" where
  "dec_time n kvs =
     (case field n kvs of
        None \<Rightarrow> Some zero_time
      | Some j \<Rightarrow> (case j of JNull \<Rightarrow> Some zero_time | JStr s \<Rightarrow> unmarshal_time s | _ \<Rightarrow> None))"

definition dec_slice :: "(json \<Rightarrow> 'a option) \<Rightarrow> json option \<Rightarrow> 'a slice option" where
  "dec_slice dec j =
     (case j of
        None \<Rightarrow> Some None
      | Some v \<Rightarrow>
          (case v of JNull \<Rightarrow> Some None | JArr xs \<Rightarrow> map_option Some (those (map dec xs)) | _ \<Rightarrow> None))"

text \<open>A nested struct and a pointer to one, as fields.\<close>

definition dec_nested :: "'a \<Rightarrow> (json \<Rightarrow> 'a option) \<Rightarrow> string \<Rightarrow> (string \<times> json) list \<Rightarrow> 'a option" where
  "dec_nested zero dec n kvs = (case field n kvs of None \<Rightarrow> Some zero | Some j \<Rightarrow> dec j)"

definition dec_ptr :: "(json \<Rightarrow> 'a option) \<Rightarrow> string \<Rightarrow> (string \<times> json) list \<Rightarrow> 'a option option" where
  "dec_ptr dec n kvs =
     (case field n kvs of
        None \<Rightarrow> Some None
      | Some j \<Rightarrow> if j = JNull then Some None else map_option Some (dec j))"

text \<open>A struct decodes from \<open>null\<close> as its zero value and from an object field by field.\<close>

definition dec_struct :: "'a \<Rightarrow> ((string \<times> json) list \<Rightarrow> 'a option) \<Rightarrow> json \<Rightarrow> 'a option" where
  "dec_struct zero dec j = (case j of JNull \<Rightarrow> Some zero | JObj kvs \<Rightarrow> dec kvs | _ \<Rightarrow> None)"

lemma dec_struct_JObj [simp]: "dec_struct zero dec (JObj kvs) = dec kvs"
  by (simp add: dec_struct_def)

section \<open>Lemmas of the codecs\<close>

lemma those_Cons_Some_iff:
  "those (x # xs) = Some ys \<longleftrightarrow> (\<exists>z zs. x = Some z \<and> those xs = Some zs \<and> ys = z # zs)"
  by (auto split: option.splits)

lemma those_Nil_Some_iff [simp]: "those [] = Some ys \<longleftrightarrow> ys = []"
  by auto

lemma those_map_Some: "(\<And>x. x \<in> set xs \<Longrightarrow> f x = Some (g x)) \<Longrightarrow> those (map f xs) = Some (map g xs)"
  by (induction xs) auto

lemma those_length: "those xs = Some ys \<Longrightarrow> length ys = length xs"
  by (induction xs arbitrary: ys) (auto split: option.splits)

lemma those_roundtrip:
  "those (map enc xs) = Some js \<Longrightarrow>
   (\<And>x j. x \<in> set xs \<Longrightarrow> enc x = Some j \<Longrightarrow> dec j = Some (g x)) \<Longrightarrow>
   those (map dec js) = Some (map g xs)"
proof (induction xs arbitrary: js)
  case (Cons x xs)
  from Cons.prems(1) obtain j js' where j: "enc x = Some j" and "those (map enc xs) = Some js'"
    and js: "js = j # js'"
    by (auto split: option.splits)
  with Cons.IH [of js'] Cons.prems(2) show ?case by (simp add: Cons.prems(2) [OF _ j])
qed simp

lemma jobj_Some_iff: "jobj fs = Some j \<longleftrightarrow> (\<exists>kvs. those fs = Some kvs \<and> j = JObj (concat kvs))"
  by (auto simp: jobj_def)

lemma field_size: "field n kvs = Some j \<Longrightarrow> size j < size (JObj kvs)"
proof -
  assume "field n kvs = Some j"
  then have "(n, j) \<in> set kvs" by (auto simp: field_def dest: map_of_SomeD)
  then show ?thesis
    by (induction kvs) auto
qed

lemma dec_slice_enc_list:
  assumes "enc_list enc xs = Some j"
    and "\<And>x j. x \<in> set xs \<Longrightarrow> enc x = Some j \<Longrightarrow> dec j = Some (g x)"
  shows "dec_slice dec (Some j) = Some (Some (map g xs))"
  using assms those_roundtrip [of enc xs _ dec g] by (auto simp: enc_list_def dec_slice_def)

lemma dec_slice_enc_slice:
  assumes "enc_slice enc s = Some j"
    and "\<And>x j. x \<in> set (elems s) \<Longrightarrow> enc x = Some j \<Longrightarrow> dec j = Some x"
  shows "dec_slice dec (Some j) = Some s"
proof (cases s)
  case None
  with assms(1) show ?thesis by (simp add: enc_slice_def dec_slice_def)
next
  case (Some xs)
  with assms dec_slice_enc_list [of enc xs j dec "\<lambda>x. x"] show ?thesis
    by (simp add: enc_slice_def)
qed

text \<open>Recursive structs: what the encoder and the decoder call is smaller.\<close>

lemma enc_list_cong [fundef_cong]:
  "xs = ys \<Longrightarrow> (\<And>x. x \<in> set ys \<Longrightarrow> f x = g x) \<Longrightarrow> enc_list f xs = enc_list g ys"
  by (simp add: enc_list_def cong: map_cong)

lemma dec_slice_cong [fundef_cong]:
  "j = j' \<Longrightarrow> (\<And>xs x. j' = Some (JArr xs) \<Longrightarrow> x \<in> set xs \<Longrightarrow> f x = g x) \<Longrightarrow>
     dec_slice f j = dec_slice g j'"
  by (simp add: dec_slice_def cong: map_cong split: option.split json.split)

lemma size_array_element: "x \<in> set xs \<Longrightarrow> size x < size (JArr xs)"
  by (simp add: less_Suc_eq_le size_list_estimation')

lemma size_field_element:
  "field n kvs = Some (JArr xs) \<Longrightarrow> x \<in> set xs \<Longrightarrow> size x < size (JObj kvs)"
  using field_size size_array_element by (metis less_trans)

lemma field_simps1 [simp]:
  "field n [] = None"
  "field n (kvs @ [(k, v)]) = (if k = n then Some v else field n kvs)"
  by (simp_all add: field_def)

lemma field_append: "field n (xs @ ys) = (case field n ys of None \<Rightarrow> field n xs | Some j \<Rightarrow> Some j)"
  by (auto simp: field_def map_of_append map_add_def split: option.split)

lemma field_Cons: "field n ((k, v) # kvs) = (case field n kvs of None \<Rightarrow> if k = n then Some v else None | Some j \<Rightarrow> Some j)"
  by (auto simp: field_def map_add_def split: option.split)

lemmas enc_defs = enc_str_def enc_str_omit_def enc_strptr_def enc_int_def enc_bool_def enc_float_def
  enc_time_def fld_def fld_opt_def fld_omit_def

lemmas dec_defs = dec_str_def dec_strptr_def dec_int_def dec_bool_def dec_float_def dec_time_def

section \<open>Reading back what was encoded\<close>

text \<open>A field named \<open>n\<close> contributes nothing or one pair with that name.\<close>

definition named :: "string \<Rightarrow> fields \<Rightarrow> bool" where
  "named n f \<longleftrightarrow> (\<forall>kvs. f = Some kvs \<longrightarrow> kvs = [] \<or> (\<exists>v. kvs = [(n, v)]))"

lemma named_enc [simp]:
  "named n (enc_str n s)" "named n (enc_str_omit n s)" "named n (enc_strptr n p)"
  "named n (enc_int n i)" "named n (enc_bool n b)" "named n (enc_float n x)"
  "named n (enc_time n t)" "named n (fld_opt n j)" "named n (Some [])"
  by (auto simp: named_def enc_defs)

lemma field_no_name: "those fs = Some kvss \<Longrightarrow> list_all2 named ns fs \<Longrightarrow> n \<notin> set ns \<Longrightarrow> field n (concat kvss) = None"
proof (induction fs arbitrary: ns kvss)
  case Nil
  then show ?case by simp
next
  case (Cons f fs)
  obtain m ns' where ns: "ns = m # ns'" using Cons.prems(2) by (cases ns) auto
  obtain kvs kvss' where f: "f = Some kvs" and fs: "those fs = Some kvss'" and k: "kvss = kvs # kvss'"
    using Cons.prems(1) by (auto simp: those_Cons_Some_iff simp del: those.simps)
  have "field n (concat kvss') = None" using Cons.IH [OF fs, of ns'] Cons.prems(2,3) ns by simp
  moreover have "kvs = [] \<or> (\<exists>v. kvs = [(m, v)])" using Cons.prems(2) ns f by (simp add: named_def)
  ultimately show ?case using k Cons.prems(3) ns by (auto simp: field_append field_Cons)
qed

lemma field_of_named:
  "those fs = Some kvss \<Longrightarrow> list_all2 named ns fs \<Longrightarrow> distinct ns \<Longrightarrow> (n, f) \<in> set (zip ns fs) \<Longrightarrow>
     \<exists>kvs. f = Some kvs \<and> field n (concat kvss) = field n kvs"
proof (induction fs arbitrary: ns kvss)
  case Nil
  then show ?case by simp
next
  case (Cons g fs)
  obtain m ns' where ns: "ns = m # ns'" using Cons.prems(2) by (cases ns) auto
  obtain kvs kvss' where g: "g = Some kvs" and fs: "those fs = Some kvss'" and k: "kvss = kvs # kvss'"
    using Cons.prems(1) by (auto simp: those_Cons_Some_iff simp del: those.simps)
  have single: "kvs = [] \<or> (\<exists>v. kvs = [(m, v)])" using Cons.prems(2) ns g by (simp add: named_def)
  show ?case
  proof (cases "(n, f) \<in> set (zip ns' fs)")
    case True
    then have "n \<noteq> m" using Cons.prems(3) ns by (auto dest: set_zip_leftD)
    with single have "field n kvs = None" by (auto simp: field_Cons)
    with True Cons.IH [OF fs, of ns'] Cons.prems ns k show ?thesis
      by (auto simp: field_append split: option.split)
  next
    case False
    with Cons.prems(4) ns have "n = m" "f = g" by auto
    moreover have "field m (concat kvss') = None"
      using field_no_name [OF fs, of ns' m] Cons.prems(2,3) ns by simp
    ultimately show ?thesis using g k by (simp add: field_append)
  qed
qed

lemma read_enc:
  "\<exists>kvs. enc_str n s = Some kvs \<and> field n all = field n kvs \<Longrightarrow> dec_str n all = Some s"
  "\<exists>kvs. enc_str_omit n s = Some kvs \<and> field n all = field n kvs \<Longrightarrow> dec_str n all = Some s"
  "\<exists>kvs. enc_strptr n p = Some kvs \<and> field n all = field n kvs \<Longrightarrow> dec_strptr n all = Some p"
  "\<exists>kvs. enc_int n i = Some kvs \<and> field n all = field n kvs \<Longrightarrow> dec_int n all = Some i"
  "\<exists>kvs. enc_bool n b = Some kvs \<and> field n all = field n kvs \<Longrightarrow> dec_bool n all = Some b"
  "\<exists>kvs. enc_float n x = Some kvs \<and> field n all = field n kvs \<Longrightarrow> dec_float n all = Some x"
  "\<exists>kvs. enc_time n t = Some kvs \<and> field n all = field n kvs \<Longrightarrow> dec_time n all = Some t"
  by (auto simp: enc_defs dec_defs field_Cons sint_of_in_int64 unmarshal_marshal_time
      split: option.splits if_splits)

end
