(* ===== verification/Cache.thy ===== *)
theory Cache
  imports Json
begin

text \<open>
  \<open>internal/cache\<close>: the key conventions of \<open>keys.go\<close> and the JSON store of \<open>store.go\<close> with its
  operation counters. The Redis client is third party code: it is the parameter \<open>R\<close>, a record of
  the five calls the store makes, and the locale \<open>redis_service\<close> states what its documentation
  promises of them on the abstract contents \<open>view\<close>. \<open>mem_redis\<close> is a single server with expiry
  that satisfies it, for the examples.
\<close>

section \<open>Keys\<close>

definition PrefixGame :: string where
  "PrefixGame = ''game:''"

definition PrefixGameSessions :: string where
  "PrefixGameSessions = PrefixGame @ ''sessions:''"

definition KeyActiveSessions :: string where
  "KeyActiveSessions = PrefixGameSessions @ ''active''"

definition KeySessionNames :: string where
  "KeySessionNames = PrefixGameSessions @ ''names''"

definition PrefixGameFlights :: string where
  "PrefixGameFlights = PrefixGame @ ''flights:''"

definition PrefixGameFlightsActive :: string where
  "PrefixGameFlightsActive = PrefixGameFlights @ ''active:''"

definition PrefixGameFlightsHistory :: string where
  "PrefixGameFlightsHistory = PrefixGameFlights @ ''history:''"

definition PrefixGameLivery :: string where
  "PrefixGameLivery = PrefixGame @ ''livery:''"

definition PrefixAuth :: string where
  "PrefixAuth = ''auth:''"

definition PrefixAPIKeyStatus :: string where
  "PrefixAPIKeyStatus = PrefixAuth @ ''api_key:''"

definition PrefixLoginTicket :: string where
  "PrefixLoginTicket = PrefixAuth @ ''login_ticket:''"

definition PrefixSession :: string where
  "PrefixSession = ''session:''"

definition KeyAPIKeyStatus :: "string \<Rightarrow> string" where
  "KeyAPIKeyStatus apiKey = PrefixAPIKeyStatus @ apiKey"

definition KeyLoginTicket :: "string \<Rightarrow> string" where
  "KeyLoginTicket ticketID = PrefixLoginTicket @ ticketID"

definition KeySession :: "string \<Rightarrow> string" where
  "KeySession sessionID = PrefixSession @ sessionID"

definition KeyActiveFlights :: "string \<Rightarrow> string" where
  "KeyActiveFlights normalizedName = PrefixGameFlightsActive @ normalizedName"

definition KeyFlightHistory :: "string \<Rightarrow> string" where
  "KeyFlightHistory flightID = PrefixGameFlightsHistory @ flightID"

definition KeyLivery :: "string \<Rightarrow> string" where
  "KeyLivery liveryID = PrefixGameLivery @ liveryID"

lemmas prefix_defs = PrefixGame_def PrefixGameSessions_def PrefixGameFlights_def
  PrefixGameFlightsActive_def PrefixGameFlightsHistory_def PrefixGameLivery_def PrefixAuth_def
  PrefixAPIKeyStatus_def PrefixLoginTicket_def PrefixSession_def

lemmas key_defs = KeyActiveSessions_def KeySessionNames_def KeyAPIKeyStatus_def KeyLoginTicket_def
  KeySession_def KeyActiveFlights_def KeyFlightHistory_def KeyLivery_def prefix_defs

text \<open>The kinds of entries, and the key of each.\<close>

datatype cache_key =
    ActiveSessions
  | SessionNames
  | APIKeyStatus string
  | LoginTicketKey string
  | SessionKey string
  | ActiveFlights string
  | FlightHistory string
  | LiveryKey string

fun key_of :: "cache_key \<Rightarrow> string" where
  "key_of ActiveSessions = KeyActiveSessions"
| "key_of SessionNames = KeySessionNames"
| "key_of (APIKeyStatus k) = KeyAPIKeyStatus k"
| "key_of (LoginTicketKey k) = KeyLoginTicket k"
| "key_of (SessionKey k) = KeySession k"
| "key_of (ActiveFlights k) = KeyActiveFlights k"
| "key_of (FlightHistory k) = KeyFlightHistory k"
| "key_of (LiveryKey k) = KeyLivery k"

text \<open>
  two different entries never share a Redis key: every key builder is injective and the key
  families are disjoint, whatever the identifiers (which come from upstream data, headers and
  cookies) contain.
\<close>

theorem cache_keys_distinct: "key_of a = key_of b \<longleftrightarrow> a = b"
  by (cases a; cases b) (auto simp: key_defs)

lemma key_neq [simp]:
  "KeyActiveSessions \<noteq> KeySessionNames" "KeySessionNames \<noteq> KeyActiveSessions"
  "KeyActiveFlights n \<noteq> KeyActiveSessions" "KeyActiveFlights n \<noteq> KeySessionNames"
  "KeyFlightHistory i \<noteq> KeyActiveSessions" "KeyFlightHistory i \<noteq> KeySessionNames"
  "KeyFlightHistory i \<noteq> KeyActiveFlights n" "KeyActiveFlights n \<noteq> KeyFlightHistory i"
  "KeyLivery l \<noteq> KeyActiveSessions" "KeyLivery l \<noteq> KeySessionNames"
  "KeyLivery l \<noteq> KeyActiveFlights n" "KeyLivery l \<noteq> KeyFlightHistory i"
  "KeyActiveSessions \<noteq> KeyActiveFlights n" "KeyActiveSessions \<noteq> KeyFlightHistory i"
  "KeySessionNames \<noteq> KeyActiveFlights n" "KeySessionNames \<noteq> KeyFlightHistory i"
  "KeyLoginTicket t \<noteq> KeySession s" "KeySession s \<noteq> KeyLoginTicket t"
  "KeyAPIKeyStatus k \<noteq> KeySession s" "KeySession s \<noteq> KeyAPIKeyStatus k"
  "KeyAPIKeyStatus k \<noteq> KeyLoginTicket t" "KeyLoginTicket t \<noteq> KeyAPIKeyStatus k"
  by (simp_all add: key_defs)

lemma key_inj [simp]:
  "KeyActiveFlights n = KeyActiveFlights n' \<longleftrightarrow> n = n'"
  "KeyFlightHistory i = KeyFlightHistory i' \<longleftrightarrow> i = i'"
  "KeyLivery l = KeyLivery l' \<longleftrightarrow> l = l'"
  "KeySession s = KeySession s' \<longleftrightarrow> s = s'"
  "KeyLoginTicket t = KeyLoginTicket t' \<longleftrightarrow> t = t'"
  "KeyAPIKeyStatus k = KeyAPIKeyStatus k' \<longleftrightarrow> k = k'"
  by (simp_all add: key_defs)

section \<open>The Redis client\<close>

text \<open>A stored value is text that parses as JSON, or text that does not (\<open>None\<close>).\<close>

type_synonym payload = "json option"
type_synonym duration = int

datatype reply = Bytes payload | RedisNil | RedisErr

record 'r redis =
  r_get :: "string \<Rightarrow> 'r \<Rightarrow> reply \<times> 'r"
  r_getdel :: "string \<Rightarrow> 'r \<Rightarrow> reply \<times> 'r"
  r_set :: "string \<Rightarrow> json \<Rightarrow> duration \<Rightarrow> 'r \<Rightarrow> bool \<times> 'r"
  r_del :: "string \<Rightarrow> 'r \<Rightarrow> bool \<times> 'r"
  r_ping :: "'r \<Rightarrow> bool \<times> 'r"

section \<open>The store\<close>

record 'r store =
  server :: 'r
  ops :: "string \<times> string \<Rightarrow> nat"
  inserts :: nat

definition observe :: "string \<Rightarrow> string \<Rightarrow> 'r store \<Rightarrow> 'r store" where
  "observe operation outcome st =
     st\<lparr>ops := (ops st)((operation, outcome) := Suc (ops st (operation, outcome)))\<rparr>"

definition GetJSON ::
  "'r redis \<Rightarrow> (json \<Rightarrow> 'a option) \<Rightarrow> string \<Rightarrow> 'r store \<Rightarrow> (go_error + 'a) \<times> 'r store" where
  "GetJSON R dec key st =
     (let (reply, r) = r_get R key (server st); st = st\<lparr>server := r\<rparr> in
      case reply of
        RedisNil \<Rightarrow> (Inl ErrMiss, observe ''get'' ''miss'' st)
      | RedisErr \<Rightarrow> (Inl (Wrapf ''get cache key'' ErrBackend), observe ''get'' ''error'' st)
      | Bytes data \<Rightarrow>
          (case Option.bind data dec of
             None \<Rightarrow> (Inl (Wrapf ''decode cache key'' ErrDecode), observe ''get'' ''error'' st)
           | Some v \<Rightarrow> (Inr v, observe ''get'' ''hit'' st)))"

definition SetJSON ::
  "'r redis \<Rightarrow> ('a \<Rightarrow> json option) \<Rightarrow> string \<Rightarrow> 'a \<Rightarrow> duration \<Rightarrow> 'r store \<Rightarrow> (go_error + unit) \<times> 'r store"
where
  "SetJSON R enc key v ttl st =
     (case enc v of
        None \<Rightarrow> (Inl (Wrapf ''encode cache key'' ErrEncode), observe ''set'' ''error'' st)
      | Some data \<Rightarrow>
          (let (ok, r) = r_set R key data ttl (server st); st = st\<lparr>server := r\<rparr> in
           if ok then (Inr (), observe ''set'' ''success'' (st\<lparr>inserts := Suc (inserts st)\<rparr>))
           else (Inl (Wrapf ''set cache key'' ErrBackend), observe ''set'' ''error'' st)))"

definition Delete :: "'r redis \<Rightarrow> string \<Rightarrow> 'r store \<Rightarrow> (go_error + unit) \<times> 'r store" where
  "Delete R key st =
     (let (ok, r) = r_del R key (server st); st = st\<lparr>server := r\<rparr> in
      if ok then (Inr (), observe ''delete'' ''success'' st)
      else (Inl (Wrapf ''delete cache key'' ErrBackend), observe ''delete'' ''error'' st))"

definition GetDelJSON ::
  "'r redis \<Rightarrow> (json \<Rightarrow> 'a option) \<Rightarrow> string \<Rightarrow> 'r store \<Rightarrow> (go_error + 'a) \<times> 'r store" where
  "GetDelJSON R dec key st =
     (let (reply, r) = r_getdel R key (server st); st = st\<lparr>server := r\<rparr> in
      case reply of
        RedisNil \<Rightarrow> (Inl ErrMiss, observe ''getdel'' ''miss'' st)
      | RedisErr \<Rightarrow> (Inl (Wrapf ''getdel cache key'' ErrBackend), observe ''getdel'' ''error'' st)
      | Bytes data \<Rightarrow>
          (case Option.bind data dec of
             None \<Rightarrow> (Inl (Wrapf ''decode cache key'' ErrDecode), observe ''getdel'' ''error'' st)
           | Some v \<Rightarrow> (Inr v, observe ''getdel'' ''hit'' st)))"

definition Ping :: "'r redis \<Rightarrow> 'r store \<Rightarrow> (go_error + unit) \<times> 'r store" where
  "Ping R st =
     (let (ok, r) = r_ping R (server st); st = st\<lparr>server := r\<rparr> in
      if ok then (Inr (), observe ''ping'' ''success'' st)
      else (Inl ErrBackend, observe ''ping'' ''error'' st))"

lemma server_observe [simp]: "server (observe a b st) = server st"
  by (simp add: observe_def)

lemma inserts_observe [simp]: "inserts (observe a b st) = inserts st"
  by (simp add: observe_def)

section \<open>The contract of Redis\<close>

text \<open>
  \<open>view r k\<close> is what a \<open>GET k\<close> would find. A reply tells the contents; a write that was
  acknowledged is visible; a write that failed may or may not have been applied. Expiry and other
  clients act between the calls of one run, not inside them.
\<close>

text \<open>What a read of a typed entry would return, as far as the contents tell.\<close>

definition stored ::
  "('r \<Rightarrow> string \<Rightarrow> payload option) \<Rightarrow> (json \<Rightarrow> 'a option) \<Rightarrow> string \<Rightarrow> 'r store \<Rightarrow> 'a option"
where
  "stored view dec k st = (case view (server st) k of Some (Some j) \<Rightarrow> dec j | _ \<Rightarrow> None)"

locale redis_service =
  fixes R :: "'r redis" and view :: "'r \<Rightarrow> string \<Rightarrow> payload option"
  assumes get_frame: "r_get R k r = (rep, r') \<Longrightarrow> view r' = view r"
    and get_bytes: "r_get R k r = (Bytes p, r') \<Longrightarrow> view r k = Some p"
    and get_nil: "r_get R k r = (RedisNil, r') \<Longrightarrow> view r k = None"
    and set_ok: "r_set R k j ttl r = (True, r') \<Longrightarrow> view r' = (view r)(k \<mapsto> Some j)"
    and set_failed: "r_set R k j ttl r = (False, r') \<Longrightarrow> view r' = view r \<or> view r' = (view r)(k \<mapsto> Some j)"
    and getdel_bytes: "r_getdel R k r = (Bytes p, r') \<Longrightarrow> view r k = Some p \<and> view r' = (view r)(k := None)"
    and getdel_nil: "r_getdel R k r = (RedisNil, r') \<Longrightarrow> view r k = None \<and> view r' = view r"
    and getdel_failed: "r_getdel R k r = (RedisErr, r') \<Longrightarrow> view r' = view r \<or> view r' = (view r)(k := None)"
    and del_ok: "r_del R k r = (True, r') \<Longrightarrow> view r' = (view r)(k := None)"
    and del_failed: "r_del R k r = (False, r') \<Longrightarrow> view r' = view r \<or> view r' = (view r)(k := None)"
    and ping_frame: "r_ping R r = (ok, r') \<Longrightarrow> view r' = view r"
begin

abbreviation contents :: "'r store \<Rightarrow> string \<Rightarrow> payload option" where
  "contents st \<equiv> view (server st)"

lemma GetJSON_frame: "GetJSON R dec k st = (res, st') \<Longrightarrow> contents st' = contents st"
  by (auto simp: GetJSON_def Let_def split: prod.splits reply.splits option.splits dest: get_frame)

lemma GetJSON_frame_snd [simp]: "contents (snd (GetJSON R dec k st)) = contents st"
  by (cases "GetJSON R dec k st") (auto dest: GetJSON_frame)

lemma GetJSON_hit:
  "GetJSON R dec k st = (Inr v, st') \<Longrightarrow> \<exists>j. contents st k = Some (Some j) \<and> dec j = Some v"
  by (auto simp: GetJSON_def Let_def bind_eq_Some_conv
      split: prod.splits reply.splits option.splits dest!: get_bytes)

lemma GetJSON_miss: "GetJSON R dec k st = (Inl ErrMiss, st') \<Longrightarrow> contents st k = None"
  by (auto simp: GetJSON_def Let_def split: prod.splits reply.splits option.splits dest: get_nil)

lemma SetJSON_ok:
  "SetJSON R enc k v ttl st = (Inr u, st') \<Longrightarrow>
     \<exists>j. enc v = Some j \<and> contents st' = (contents st)(k \<mapsto> Some j)"
  by (auto simp: SetJSON_def Let_def split: prod.splits option.splits if_splits dest: set_ok)

lemma SetJSON_other:
  "SetJSON R enc k v ttl st = (res, st') \<Longrightarrow> k' \<noteq> k \<Longrightarrow> contents st' k' = contents st k'"
  by (auto simp: SetJSON_def Let_def split: prod.splits option.splits if_splits
      dest: set_ok set_failed)

lemma SetJSON_other_snd [simp]:
  "k' \<noteq> k \<Longrightarrow> contents (snd (SetJSON R enc k v ttl st)) k' = contents st k'"
  by (cases "SetJSON R enc k v ttl st") (auto dest: SetJSON_other)

lemma SetJSON_at:
  "SetJSON R enc k v ttl st = (res, st') \<Longrightarrow>
     contents st' k = contents st k \<or> (\<exists>j. enc v = Some j \<and> contents st' k = Some (Some j))"
  by (auto simp: SetJSON_def Let_def split: prod.splits option.splits if_splits
      dest: set_ok set_failed)

lemma Delete_ok: "Delete R k st = (Inr u, st') \<Longrightarrow> contents st' = (contents st)(k := None)"
  by (auto simp: Delete_def Let_def split: prod.splits if_splits dest: del_ok)

lemma Delete_other: "Delete R k st = (res, st') \<Longrightarrow> k' \<noteq> k \<Longrightarrow> contents st' k' = contents st k'"
  by (auto simp: Delete_def Let_def split: prod.splits if_splits dest: del_ok del_failed)

lemma GetDelJSON_hit:
  "GetDelJSON R dec k st = (Inr v, st') \<Longrightarrow>
     contents st' = (contents st)(k := None) \<and> (\<exists>j. contents st k = Some (Some j) \<and> dec j = Some v)"
  by (auto simp: GetDelJSON_def Let_def bind_eq_Some_conv
      split: prod.splits reply.splits option.splits dest!: getdel_bytes)

lemma GetDelJSON_other: "GetDelJSON R dec k st = (res, st') \<Longrightarrow> k' \<noteq> k \<Longrightarrow> contents st' k' = contents st k'"
  by (auto simp: GetDelJSON_def Let_def split: prod.splits reply.splits option.splits
      dest: getdel_bytes getdel_nil getdel_failed)

lemma GetDelJSON_at: "GetDelJSON R dec k st = (res, st') \<Longrightarrow> contents st' k = contents st k \<or> contents st' k = None"
  by (auto simp: GetDelJSON_def Let_def split: prod.splits reply.splits option.splits
      dest: getdel_bytes getdel_nil getdel_failed)

lemma Delete_at: "Delete R k st = (res, st') \<Longrightarrow> contents st' k = contents st k \<or> contents st' k = None"
  by (auto simp: Delete_def Let_def split: prod.splits if_splits dest: del_ok del_failed)

lemma GetJSON_stored: "GetJSON R dec k st = (Inr v, st') \<Longrightarrow> stored view dec k st = Some v"
  by (auto simp: stored_def dest: GetJSON_hit)

lemma GetJSON_keeps [simp]: "stored view dec k (snd (GetJSON R dec' k' st)) = stored view dec k st"
  by (simp add: stored_def)

lemma SetJSON_keeps [simp]:
  "k \<noteq> k' \<Longrightarrow> stored view dec k (snd (SetJSON R enc k' v ttl st)) = stored view dec k st"
  by (simp add: stored_def)

lemma SetJSON_untouched:
  "SetJSON R enc k' v ttl st = (res, st') \<Longrightarrow> k \<noteq> k' \<Longrightarrow>
     stored view dec k st' = stored view dec k st"
  using SetJSON_keeps [of k k' dec enc v ttl st] by simp

lemma GetJSON_untouched:
  "GetJSON R dec' k' st = (res, st') \<Longrightarrow> stored view dec k st' = stored view dec k st"
  using GetJSON_keeps [of dec k dec' k' st] by simp

lemma SetJSON_stored_or:
  "SetJSON R enc k v ttl st = (res, st') \<Longrightarrow>
     stored view dec k st' = stored view dec k st \<or> (\<exists>j. enc v = Some j \<and> stored view dec k st' = dec j)"
  by (auto simp: stored_def dest: SetJSON_at)

lemma GetDelJSON_miss:
  "GetDelJSON R dec k st = (Inl ErrMiss, st') \<Longrightarrow> contents st k = None \<and> contents st' = contents st"
  by (auto simp: GetDelJSON_def Let_def split: prod.splits reply.splits option.splits dest: getdel_nil)

end

section \<open>A server that answers\<close>

text \<open>
  While the server is up every call succeeds; the state predicate \<open>up\<close> is kept by the calls.
\<close>

locale live_redis = redis_service R view for R :: "'r redis" and view +
  fixes up :: "'r \<Rightarrow> bool"
  assumes up_get: "up r \<Longrightarrow> r_get R k r = (rep, r') \<Longrightarrow> rep \<noteq> RedisErr \<and> up r'"
    and up_getdel: "up r \<Longrightarrow> r_getdel R k r = (rep, r') \<Longrightarrow> rep \<noteq> RedisErr \<and> up r'"
    and up_set: "up r \<Longrightarrow> r_set R k j ttl r = (ok, r') \<Longrightarrow> ok \<and> up r'"
    and up_del: "up r \<Longrightarrow> r_del R k r = (ok, r') \<Longrightarrow> ok \<and> up r'"
    and up_ping: "up r \<Longrightarrow> r_ping R r = (ok, r') \<Longrightarrow> ok \<and> up r'"
begin

lemma GetJSON_live:
  assumes up: "up (server st)" and get: "GetJSON R dec k st = (res, st')"
  shows "up (server st')"
    and "stored view dec k st = Some v \<Longrightarrow> res = Inr v"
    and "stored view dec k st = None \<Longrightarrow> \<exists>err. res = Inl err"
proof -
  obtain rep r' where r: "r_get R k (server st) = (rep, r')" by fastforce
  note ok = up_get [OF up r]
  show "up (server st')"
    using ok get r by (auto simp: GetJSON_def Let_def split: reply.splits option.splits)
  show "res = Inr v" if "stored view dec k st = Some v"
    using ok get r that get_bytes [of k "server st" _ r'] get_nil [of k "server st" r']
    by (cases rep) (auto simp: GetJSON_def Let_def stored_def split: option.splits)
  show "\<exists>err. res = Inl err" if "stored view dec k st = None"
    using ok get r that get_bytes [of k "server st" _ r'] get_nil [of k "server st" r']
    by (cases rep) (auto simp: GetJSON_def Let_def stored_def split: option.splits)
qed

lemma GetJSON_live_miss:
  assumes up: "up (server st)" and get: "GetJSON R dec k st = (res, st')" and "contents st k = None"
  shows "res = Inl ErrMiss"
proof -
  obtain rep r' where r: "r_get R k (server st) = (rep, r')" by fastforce
  from up_get [OF up r] get r get_bytes [of k "server st" _ r'] assms(3) show ?thesis
    by (cases rep) (auto simp: GetJSON_def Let_def)
qed

lemma SetJSON_live:
  assumes up: "up (server st)" and set: "SetJSON R enc k v ttl st = (res, st')" and enc: "enc v = Some j"
  shows "up (server st')" and "res = Inr ()" and "contents st' = (contents st)(k \<mapsto> Some j)"
proof -
  obtain ok r' where r: "r_set R k j ttl (server st) = (ok, r')" by fastforce
  note up_set [OF up r]
  with set enc r set_ok [of k j ttl "server st" r']
  show "up (server st')" "res = Inr ()" "contents st' = (contents st)(k \<mapsto> Some j)"
    by (auto simp: SetJSON_def Let_def)
qed

lemma Delete_live:
  assumes up: "up (server st)" and del: "Delete R k st = (res, st')"
  shows "up (server st')" and "res = Inr ()" and "contents st' = (contents st)(k := None)"
proof -
  obtain ok r' where r: "r_del R k (server st) = (ok, r')" by fastforce
  note up_del [OF up r]
  with del r del_ok [of k "server st" r']
  show "up (server st')" "res = Inr ()" "contents st' = (contents st)(k := None)"
    by (auto simp: Delete_def Let_def)
qed

lemma SetJSON_up:
  assumes up: "up (server st)" and set: "SetJSON R enc k v ttl st = (res, st')"
  shows "up (server st')"
proof (cases "enc v")
  case None
  with assms show ?thesis by (auto simp: SetJSON_def)
next
  case (Some j)
  then show ?thesis by (rule SetJSON_live(1) [OF assms])
qed

end

end
