(* ===== verification/MemRedis.thy ===== *)
theory MemRedis
  imports Cache
begin

text \<open>
  A server that satisfies the contract of \<open>Cache\<close>: a table with expiry instants, a clock, and a
  switch that makes every call fail. Between two calls the clock may move, which is how entries
  expire. It instantiates the parameter \<open>R\<close> in the examples of the other theories.
\<close>

record mem =
  mem_now :: int
  mem_data :: "string \<Rightarrow> (payload \<times> int option) option"
  mem_up :: bool

definition mem_view :: "mem \<Rightarrow> string \<Rightarrow> payload option" where
  "mem_view m k =
     (case mem_data m k of
        None \<Rightarrow> None
      | Some (p, expiry) \<Rightarrow>
          (case expiry of None \<Rightarrow> Some p | Some e \<Rightarrow> if mem_now m < e then Some p else None))"

definition mem_reply :: "payload option \<Rightarrow> reply" where
  "mem_reply p = (case p of None \<Rightarrow> RedisNil | Some p \<Rightarrow> Bytes p)"

definition mem_store :: "mem \<Rightarrow> string \<Rightarrow> json \<Rightarrow> duration \<Rightarrow> mem" where
  "mem_store m k j ttl =
     m\<lparr>mem_data := (mem_data m)(k \<mapsto> (Some j, if ttl \<le> 0 then None else Some (mem_now m + ttl)))\<rparr>"

definition mem_remove :: "mem \<Rightarrow> string \<Rightarrow> mem" where
  "mem_remove m k = m\<lparr>mem_data := (mem_data m)(k := None)\<rparr>"

definition mem_redis :: "mem redis" where
  "mem_redis =
     \<lparr>r_get = (\<lambda>k m. if mem_up m then (mem_reply (mem_view m k), m) else (RedisErr, m)),
      r_getdel = (\<lambda>k m.
        if mem_up m
        then (mem_reply (mem_view m k), if mem_view m k = None then m else mem_remove m k)
        else (RedisErr, m)),
      r_set = (\<lambda>k j ttl m. if mem_up m then (True, mem_store m k j ttl) else (False, m)),
      r_del = (\<lambda>k m. if mem_up m then (True, mem_remove m k) else (False, m)),
      r_ping = (\<lambda>m. (mem_up m, m))\<rparr>"

definition mem_tick :: "int \<Rightarrow> mem \<Rightarrow> mem" where
  "mem_tick d m = m\<lparr>mem_now := mem_now m + d\<rparr>"

definition mem_empty :: mem where
  "mem_empty = \<lparr>mem_now = 0, mem_data = Map.empty, mem_up = True\<rparr>"

definition store_of :: "'r \<Rightarrow> 'r store" where
  "store_of r = \<lparr>server = r, ops = (\<lambda>_. 0), inserts = 0\<rparr>"

lemma mem_redis_simps [simp]:
  "r_get mem_redis k m = (if mem_up m then (mem_reply (mem_view m k), m) else (RedisErr, m))"
  "r_getdel mem_redis k m =
     (if mem_up m
      then (mem_reply (mem_view m k), if mem_view m k = None then m else mem_remove m k)
      else (RedisErr, m))"
  "r_set mem_redis k j ttl m = (if mem_up m then (True, mem_store m k j ttl) else (False, m))"
  "r_del mem_redis k m = (if mem_up m then (True, mem_remove m k) else (False, m))"
  "r_ping mem_redis m = (mem_up m, m)"
  by (simp_all add: mem_redis_def)

lemma mem_view_store [simp]: "mem_view (mem_store m k j ttl) = (mem_view m)(k \<mapsto> Some j)"
  by (auto simp: mem_view_def mem_store_def fun_eq_iff split: option.split)

lemma mem_view_remove [simp]: "mem_view (mem_remove m k) = (mem_view m)(k := None)"
  by (auto simp: mem_view_def mem_remove_def fun_eq_iff split: option.split)

lemma mem_up_simps [simp]: "mem_up (mem_store m k j ttl) = mem_up m" "mem_up (mem_remove m k) = mem_up m"
  by (simp_all add: mem_store_def mem_remove_def)

lemma mem_reply_iff [simp]:
  "mem_reply p = Bytes q \<longleftrightarrow> p = Some q" "mem_reply p = RedisNil \<longleftrightarrow> p = None" "mem_reply p \<noteq> RedisErr"
  by (auto simp: mem_reply_def split: option.splits)

interpretation mem: redis_service mem_redis mem_view
  by unfold_locales (auto split: if_splits)

interpretation mem_live: live_redis mem_redis mem_view mem_up
  by unfold_locales (auto split: if_splits)

lemma mem_view_empty [simp]: "mem_view mem_empty k = None" "mem_up mem_empty"
  by (simp_all add: mem_view_def mem_empty_def)

lemma server_store_of [simp]: "server (store_of r) = r"
  by (simp add: store_of_def)

text \<open>An entry written with a positive time to live is gone once that time has passed.\<close>

lemma mem_expires:
  "0 < ttl \<Longrightarrow> ttl \<le> d \<Longrightarrow> mem_view (mem_tick d (mem_store m k j ttl)) k = None"
  by (simp add: mem_view_def mem_tick_def mem_store_def)

lemma mem_alive:
  "0 < ttl \<Longrightarrow> d < ttl \<Longrightarrow> mem_view (mem_tick d (mem_store m k j ttl)) k = Some (Some j)"
  by (simp add: mem_view_def mem_tick_def mem_store_def)

end
