(* ===== verification/Expiry.thy ===== *)
theory Expiry
  imports MemRedis
begin

text \<open>
  Time to live. The contract of \<open>Cache\<close> says what one call returns and stores; here it is extended
  by the server's clock and the deadline of every entry, so that the lifetimes the program passes to
  \<open>SetJSON\<close> have consequences: an entry written with a time to live is served before its deadline
  and never from then on. The clock of the server and the clock of the program are taken to be one.
\<close>

section \<open>Deadlines\<close>

text \<open>go-redis sends no expiry for a time to live of 0, and whole milliseconds otherwise.\<close>

definition due :: "duration \<Rightarrow> time \<Rightarrow> time option" where
  "due ttl t = (if ttl = 0 then None else Some (t + ttl))"

definition millis_ns :: int where
  "millis_ns = 1000000"

locale expiring_redis = redis_service R view for R :: "'r redis" and view +
  fixes clock :: "'r \<Rightarrow> time" and expires :: "'r \<Rightarrow> string \<Rightarrow> time option"
  assumes get_time: "r_get R k r = (rep, r') \<Longrightarrow> clock r' = clock r \<and> expires r' = expires r"
    and ping_time: "r_ping R r = (ok, r') \<Longrightarrow> clock r' = clock r \<and> expires r' = expires r"
    and set_time: "r_set R k j ttl r = (ok, r') \<Longrightarrow> clock r' = clock r \<and> (k' \<noteq> k \<longrightarrow> expires r' k' = expires r k')"
    and getdel_time: "r_getdel R k r = (rep, r') \<Longrightarrow> clock r' = clock r \<and> (k' \<noteq> k \<longrightarrow> expires r' k' = expires r k')"
    and del_time: "r_del R k r = (ok, r') \<Longrightarrow> clock r' = clock r \<and> (k' \<noteq> k \<longrightarrow> expires r' k' = expires r k')"
    and set_entry: "r_set R k j ttl r = (ok, r') \<Longrightarrow> 0 \<le> ttl \<Longrightarrow> millis_ns dvd ttl \<Longrightarrow>
      (view r' k = Some (Some j) \<and> expires r' k = due ttl (clock r)) \<or>
      (\<not> ok \<and> view r' k = view r k \<and> expires r' k = expires r k)"

locale timed_redis = live_redis R view up + expiring_redis R view clock expires
  for R :: "'r redis" and view up clock expires

text \<open>The entries of \<open>K\<close> are left as they are, at one moment.\<close>

definition leaves ::
  "('r \<Rightarrow> string \<Rightarrow> payload option) \<Rightarrow> ('r \<Rightarrow> time) \<Rightarrow> ('r \<Rightarrow> string \<Rightarrow> time option) \<Rightarrow> string set \<Rightarrow> 'r \<Rightarrow> 'r \<Rightarrow> bool"
where
  "leaves view clock expires K r r' \<longleftrightarrow>
     clock r' = clock r \<and> (\<forall>k \<in> K. view r' k = view r k \<and> expires r' k = expires r k)"

text \<open>
  Time passes, and whatever happens to other entries, those of \<open>K\<close> are only subject to their
  deadlines: one that is due is gone, one that is not is still there.
\<close>

definition lapse ::
  "('r \<Rightarrow> string \<Rightarrow> payload option) \<Rightarrow> ('r \<Rightarrow> time) \<Rightarrow> ('r \<Rightarrow> string \<Rightarrow> time option) \<Rightarrow> string set \<Rightarrow> 'r \<Rightarrow> 'r \<Rightarrow> bool"
where
  "lapse view clock expires K r r' \<longleftrightarrow> clock r \<le> clock r' \<and>
     (\<forall>k \<in> K. if (\<exists>d. expires r k = Some d \<and> d \<le> clock r') then view r' k = None
        else view r' k = view r k \<and> expires r' k = expires r k)"

lemma leaves_refl [simp]: "leaves view clock expires K r r"
  by (simp add: leaves_def)

lemma leaves_trans:
  "leaves view clock expires K r r' \<Longrightarrow> leaves view clock expires K r' r'' \<Longrightarrow> leaves view clock expires K r r''"
  by (simp add: leaves_def)

lemma leaves_mono: "leaves view clock expires K r r' \<Longrightarrow> L \<subseteq> K \<Longrightarrow> leaves view clock expires L r r'"
  by (auto simp: leaves_def)

lemma lapse_gone: "lapse view clock expires K r r' \<Longrightarrow> k \<in> K \<Longrightarrow> view r k = None \<Longrightarrow> view r' k = None"
  by (cases "\<exists>d. expires r k = Some d \<and> d \<le> clock r'") (auto simp: lapse_def)

text \<open>An entry with a deadline: there until it is due, then gone.\<close>

definition alive_until ::
  "('r \<Rightarrow> string \<Rightarrow> payload option) \<Rightarrow> ('r \<Rightarrow> time) \<Rightarrow> ('r \<Rightarrow> string \<Rightarrow> time option) \<Rightarrow> string \<Rightarrow> payload \<Rightarrow> time \<Rightarrow> 'r \<Rightarrow> bool"
where
  "alive_until view clock expires k p d r \<longleftrightarrow>
     (if clock r < d then view r k = Some p \<and> expires r k = Some d else view r k = None)"

text \<open>A gone entry may keep a deadline from before, which has passed.\<close>

lemma alive_until_lapse:
  "alive_until view clock expires k p d r \<Longrightarrow> lapse view clock expires K r r' \<Longrightarrow> k \<in> K \<Longrightarrow>
     alive_until view clock expires k p d r'"
  unfolding alive_until_def lapse_def by (cases "clock r < d") (auto split: if_splits)

lemma alive_until_leaves:
  "alive_until view clock expires k p d r \<Longrightarrow> leaves view clock expires K r r' \<Longrightarrow> k \<in> K \<Longrightarrow>
     alive_until view clock expires k p d r'"
  by (auto simp: alive_until_def leaves_def)

section \<open>The operations of the store\<close>

context expiring_redis
begin

abbreviation leave :: "string set \<Rightarrow> 'r store \<Rightarrow> 'r store \<Rightarrow> bool" where
  "leave K st st' \<equiv> leaves view clock expires K (server st) (server st')"

lemma GetJSON_leaves: "GetJSON R dec k st = (res, st') \<Longrightarrow> leave K st st'"
  by (auto simp: GetJSON_def Let_def leaves_def split: prod.splits reply.splits option.splits
      dest: get_frame get_time)

lemma SetJSON_leaves: "SetJSON R enc k v ttl st = (res, st') \<Longrightarrow> k \<notin> K \<Longrightarrow> leave K st st'"
proof (cases "enc v")
  case (Some j)
  assume s: "SetJSON R enc k v ttl st = (res, st')" and k: "k \<notin> K"
  have other: "\<forall>k' \<in> K. k' \<noteq> k" using k by blast
  obtain ok r' where r: "r_set R k j ttl (server st) = (ok, r')" by fastforce
  then have st': "server st' = r'" using s Some by (auto simp: SetJSON_def Let_def split: if_splits)
  have "view r' k' = view (server st) k'" if "k' \<noteq> k" for k'
    using SetJSON_other [OF s that] st' by simp
  with set_time [OF r] other st' show ?thesis by (simp add: leaves_def)
qed (auto simp: SetJSON_def)

lemma Delete_leaves: "Delete R k st = (res, st') \<Longrightarrow> k \<notin> K \<Longrightarrow> leave K st st'"
proof -
  assume d: "Delete R k st = (res, st')" and k: "k \<notin> K"
  have other: "\<forall>k' \<in> K. k' \<noteq> k" using k by blast
  obtain ok r' where r: "r_del R k (server st) = (ok, r')" by fastforce
  then have st': "server st' = r'" using d by (auto simp: Delete_def Let_def split: if_splits)
  have "view r' k' = view (server st) k'" if "k' \<noteq> k" for k'
    using Delete_other [OF d that] st' by simp
  with del_time [OF r] other st' show ?thesis by (simp add: leaves_def)
qed

lemma GetDelJSON_leaves: "GetDelJSON R dec k st = (res, st') \<Longrightarrow> k \<notin> K \<Longrightarrow> leave K st st'"
proof -
  assume g: "GetDelJSON R dec k st = (res, st')" and k: "k \<notin> K"
  have other: "\<forall>k' \<in> K. k' \<noteq> k" using k by blast
  obtain rep r' where r: "r_getdel R k (server st) = (rep, r')" by fastforce
  then have st': "server st' = r'" using g by (auto simp: GetDelJSON_def Let_def split: reply.splits option.splits)
  have "view r' k' = view (server st) k'" if "k' \<noteq> k" for k'
    using GetDelJSON_other [OF g that] st' by simp
  with getdel_time [OF r] other st' show ?thesis by (simp add: leaves_def)
qed

text \<open>What a write does to its own entry; on an error it may or may not have been applied.\<close>

lemma SetJSON_entry:
  assumes "SetJSON R enc k v ttl st = (res, st')" and "0 \<le> ttl" and "millis_ns dvd ttl"
  shows "(\<exists>j. enc v = Some j \<and> contents st' k = Some (Some j) \<and> expires (server st') k = due ttl (clock (server st))) \<or>
    (res \<noteq> Inr () \<and> leave {k} st st')"
proof (cases "enc v")
  case (Some j)
  obtain ok r' where r: "r_set R k j ttl (server st) = (ok, r')" by fastforce
  with set_entry [OF r assms(2,3)] set_time [OF r] assms(1) Some show ?thesis
    by (auto simp: SetJSON_def Let_def leaves_def split: if_splits)
qed (use assms(1) in \<open>auto simp: SetJSON_def\<close>)

lemma SetJSON_alive:
  assumes "SetJSON R enc k v ttl st = (Inr u, st')" and "0 < ttl" and "millis_ns dvd ttl"
  shows "\<exists>j. enc v = Some j \<and> alive_until view clock expires k (Some j) (clock (server st) + ttl) (server st')"
proof -
  have "clock (server st') = clock (server st)"
    using SetJSON_leaves [OF assms(1), of "{}"] by (simp add: leaves_def)
  with SetJSON_entry [OF assms(1)] assms(2,3) show ?thesis
    by (auto simp: alive_until_def due_def)
qed

end

section \<open>The server in memory\<close>

definition mem_expires :: "mem \<Rightarrow> string \<Rightarrow> time option" where
  "mem_expires m k = Option.bind (mem_data m k) snd"

lemma mem_expires_simps [simp]:
  "mem_expires (mem_store m k j ttl) = (mem_expires m)(k := if ttl \<le> 0 then None else Some (mem_now m + ttl))"
  "k' \<noteq> k \<Longrightarrow> mem_expires (mem_remove m k) k' = mem_expires m k'"
  "mem_now (mem_store m k j ttl) = mem_now m" "mem_now (mem_remove m k) = mem_now m"
  by (auto simp: mem_expires_def mem_store_def mem_remove_def fun_eq_iff)

interpretation mem_timed: timed_redis mem_redis mem_view mem_up mem_now mem_expires
  by unfold_locales (auto simp: due_def millis_ns_def split: if_splits)

lemma mem_lapse: "0 \<le> d \<Longrightarrow> lapse mem_view mem_now mem_expires K m (mem_tick d m)"
  by (auto simp: lapse_def mem_view_def mem_expires_def mem_tick_def split: option.splits)

end
