(* ===== verification/Codec.thy ===== *)
theory Codec
  imports MemRedis
begin

text \<open>
  The contract between a JSON codec and the store: a value that was written reads back as itself.
  Every struct the program caches interprets the locale in its own theory.
\<close>

text \<open>A codec is what the store needs of a type: what is encoded decodes to itself.\<close>

locale codec =
  fixes enc :: "'v \<Rightarrow> json option" and dec :: "json \<Rightarrow> 'v option" and ok :: "'v \<Rightarrow> bool"
  assumes roundtrip: "ok v \<Longrightarrow> enc v = Some j \<Longrightarrow> dec j = Some v"
begin

lemma enc_inj:
  assumes "ok v" "ok w" "enc v = Some j" "enc w = Some j"
  shows "v = w"
  using roundtrip [OF assms(1,3)] roundtrip [OF assms(2,4)] by simp

lemma list_roundtrip:
  assumes "\<forall>v \<in> set (elems s). ok v" and "enc_slice enc s = Some j"
  shows "dec_slice dec (Some j) = Some s"
  using assms by (auto intro: dec_slice_enc_slice roundtrip)

end

lemma read_nested:
  assumes "\<exists>kvs. fld_opt n (enc v) = Some kvs \<and> field n all = field n kvs" and "codec enc dec ok" and "ok v"
  shows "dec_nested zero dec n all = Some v"
  using assms by (auto simp: fld_opt_def field_Cons dec_nested_def codec.roundtrip)

lemma read_ptr:
  assumes "\<exists>kvs. (case p of None \<Rightarrow> Some [] | Some v \<Rightarrow> fld_opt n (enc v)) = Some kvs \<and> field n all = field n kvs"
    and "codec enc dec (\<lambda>_. True)" and "\<And>v. enc v \<noteq> Some JNull"
  shows "dec_ptr dec n all = Some p"
  using assms by (auto simp: fld_opt_def field_Cons dec_ptr_def codec.roundtrip split: option.splits)

text \<open>A successful write through a codec is what the next read returns.\<close>

context redis_service
begin

lemma SetJSON_stored:
  assumes "codec enc dec ok" and "ok v" and "SetJSON R enc k v ttl st = (Inr u, st')"
  shows "stored view dec k st' = Some v"
  using SetJSON_ok [OF assms(3)] codec.roundtrip [OF assms(1,2)] by (auto simp: stored_def)

lemma SetJSON_stored_cases:
  assumes "codec enc dec ok" and "ok v" and "SetJSON R enc k v ttl st = (res, st')"
  shows "stored view dec k st' = stored view dec k st \<or> stored view dec k st' = Some v"
  using SetJSON_stored_or [OF assms(3), of dec] codec.roundtrip [OF assms(1,2)] by auto

end

end
