(* ===== verification/InfiniteFlight.thy ===== *)
theory InfiniteFlight
  imports Json
begin

text \<open>
  \<open>internal/infiniteflight\<close>: the upstream data types, building the client, its three methods and the
  normalisation of session names. The generated HTTP client is not under \<open>src/\<close>: building it is an
  argument of \<open>NewClient\<close>, and what it returns is the argument of each method: a transport error, or
  a parsed response with a body for status 200, a default body, and the status code.
\<close>

section \<open>Types\<close>

record session =
  s_id :: string
  s_name :: string
  s_world_type :: gint
  s_type :: gint
  s_min_grade :: gint
  s_user_count :: gint
  s_min_app :: string
  s_max_app :: "string option"
  s_max_users :: gint
  s_normalized :: string
  s_timestamp :: time

record upstream_flight =
  u_username :: "string option"
  u_callsign :: string
  u_latitude :: float64
  u_longitude :: float64
  u_altitude :: float64
  u_speed :: float64
  u_vertical_speed :: float64
  u_track :: float64
  u_heading :: float64
  u_last_report :: string
  u_flight_id :: string
  u_user_id :: string
  u_aircraft_id :: string
  u_livery_id :: string
  u_organization :: "string option"
  u_pilot_state :: gint
  u_connected :: bool

record livery =
  l_id :: string
  l_aircraft_id :: string
  l_aircraft_name :: string
  l_livery_name :: string

section \<open>Responses of the generated client\<close>

record 'a api_body =
  error_code :: gint
  api_result :: "'a list"

record 'a api_response =
  json200 :: "'a api_body option"
  json_default :: "gint option"
  status_code :: gint

record api_session =
  as_id :: string
  as_name :: string
  as_world_type :: gint
  as_type :: gint
  as_min_grade :: gint
  as_user_count :: gint
  as_min_app :: string
  as_max_app :: "string option"
  as_max_users :: gint

record api_flight =
  af_username :: "string option"
  af_callsign :: string
  af_latitude :: float64
  af_longitude :: float64
  af_altitude :: float64
  af_speed :: float64
  af_vertical_speed :: float64
  af_track :: float64
  af_heading :: "float64 option"
  af_last_report :: string
  af_flight_id :: string
  af_user_id :: string
  af_aircraft_id :: string
  af_livery_id :: string
  af_organization :: "string option"
  af_pilot_state :: gint
  af_connected :: bool

section \<open>Building the client\<close>

text \<open>A request on its way to upstream, and the editor that \<open>newClient\<close> gives the generated client.\<close>

record api_request =
  ar_url :: string
  ar_headers :: "string \<rightharpoonup> string"

type_synonym request_editor = "api_request \<Rightarrow> go_error + api_request"

definition authorize :: "string \<Rightarrow> request_editor" where
  "authorize apiKey req = Inr (req\<lparr>ar_headers := (ar_headers req)(''Authorization'' \<mapsto> ''Bearer '' @ apiKey)\<rparr>)"

definition newClient ::
  "(string \<Rightarrow> 'h \<Rightarrow> request_editor \<Rightarrow> go_error + 'c) \<Rightarrow> string \<Rightarrow> string \<Rightarrow> 'h \<Rightarrow> go_error + 'c"
where
  "newClient generate baseURL apiKey httpClient =
     (case generate baseURL httpClient (authorize apiKey) of
        Inl err \<Rightarrow> Inl (Wrapf ''create Infinite Flight client'' err)
      | Inr generated \<Rightarrow> Inr generated)"

text \<open>The HTTP client of \<open>net/http\<close> is its timeout.\<close>

definition NewClient ::
  "(string \<Rightarrow> int \<Rightarrow> request_editor \<Rightarrow> go_error + 'c) \<Rightarrow> string \<Rightarrow> string \<Rightarrow> int \<Rightarrow> go_error + 'c"
where
  "NewClient generate baseURL apiKey timeout = newClient generate baseURL apiKey timeout"

text \<open>
  what the generated client is given: every header it sends stays as it was except the
  authorization, which is exactly the bearer key, whatever the request carried before.
\<close>

theorem NewClient_authorizes:
  assumes "NewClient (\<lambda>url timeout edit. Inr (url, timeout, edit)) baseURL apiKey timeout = Inr (url, t, edit)"
  shows "url = baseURL \<and> t = timeout \<and> (\<exists>req'. edit req = Inr req' \<and> ar_url req' = ar_url req \<and>
    ar_headers req' = (ar_headers req)(''Authorization'' \<mapsto> ''Bearer '' @ apiKey))"
  using assms by (auto simp: NewClient_def newClient_def authorize_def)

theorem NewClient_authorizes_witness:
  "\<exists>req'. authorize ''k'' \<lparr>ar_url = ''/sessions'', ar_headers = [''Authorization'' \<mapsto> ''x'']\<rparr> = Inr req' \<and>
    ar_headers req' ''Authorization'' = Some ''Bearer k''"
  using NewClient_authorizes [of "''u''" "''k''" 0 "''u''" 0 "authorize ''k''"
      "\<lparr>ar_url = ''/sessions'', ar_headers = [''Authorization'' \<mapsto> ''x'']\<rparr>"]
  by (auto simp: NewClient_def newClient_def)

section \<open>Client methods\<close>

text \<open>The checks the three methods share, with the operation named in their messages.\<close>

definition api_items :: "string \<Rightarrow> go_error + 'a api_response \<Rightarrow> go_error + 'a list" where
  "api_items op res =
     (case res of
        Inl err \<Rightarrow> Inl (Wrapf op err)
      | Inr response \<Rightarrow>
          (case json200 response of
             None \<Rightarrow>
               (case json_default response of
                  Some code \<Rightarrow>
                    Inl (Errorf (op @ '': HTTP '' @ show_int (sint (status_code response)) @
                      '', errorCode '' @ show_int (sint code)))
                | None \<Rightarrow> Inl (Errorf (op @ '': unexpected HTTP '' @ show_int (sint (status_code response)))))
           | Some body \<Rightarrow>
               if error_code body \<noteq> 0
               then Inl (Errorf (op @ '': errorCode '' @ show_int (sint (error_code body))))
               else Inr (api_result body)))"

definition session_of_api :: "api_session \<Rightarrow> session" where
  "session_of_api item =
     \<lparr>s_id = as_id item, s_name = as_name item, s_world_type = as_world_type item,
      s_type = as_type item, s_min_grade = as_min_grade item, s_user_count = as_user_count item,
      s_min_app = as_min_app item, s_max_app = as_max_app item, s_max_users = as_max_users item,
      s_normalized = '''', s_timestamp = zero_time\<rparr>"

definition flight_of_api :: "api_flight \<Rightarrow> upstream_flight" where
  "flight_of_api item =
     \<lparr>u_username = af_username item, u_callsign = af_callsign item, u_latitude = af_latitude item,
      u_longitude = af_longitude item, u_altitude = af_altitude item, u_speed = af_speed item,
      u_vertical_speed = af_vertical_speed item, u_track = af_track item,
      u_heading = (case af_heading item of None \<Rightarrow> Fin False 0 | Some h \<Rightarrow> h),
      u_last_report = af_last_report item, u_flight_id = af_flight_id item,
      u_user_id = af_user_id item, u_aircraft_id = af_aircraft_id item,
      u_livery_id = af_livery_id item, u_organization = af_organization item,
      u_pilot_state = af_pilot_state item, u_connected = af_connected item\<rparr>"

definition GetSessions :: "go_error + api_session api_response \<Rightarrow> go_error + session list" where
  "GetSessions res =
     (case api_items ''get Infinite Flight sessions'' res of
        Inl err \<Rightarrow> Inl err | Inr items \<Rightarrow> Inr (map session_of_api items))"

definition GetSessionFlights :: "go_error + api_flight api_response \<Rightarrow> go_error + upstream_flight list" where
  "GetSessionFlights res =
     (case api_items ''get Infinite Flight session flights'' res of
        Inl err \<Rightarrow> Inl err | Inr items \<Rightarrow> Inr (map flight_of_api items))"

text \<open>The generated livery item has the four fields of \<open>Livery\<close>.\<close>

definition GetAircraftLiveries :: "go_error + livery api_response \<Rightarrow> go_error + livery list" where
  "GetAircraftLiveries res =
     (case api_items ''get Infinite Flight aircraft liveries'' res of
        Inl err \<Rightarrow> Inl err
      | Inr items \<Rightarrow>
          Inr (map (\<lambda>item. \<lparr>l_id = l_id item, l_aircraft_id = l_aircraft_id item,
            l_aircraft_name = l_aircraft_name item, l_livery_name = l_livery_name item\<rparr>) items))"

text \<open>
  a client method yields data exactly when the transport succeeded, the response carried a
  status 200 body, and that body reported error code 0; every other outcome is an error, and no
  item is dropped or reordered.
\<close>

theorem GetSessionFlights_ok_iff:
  "GetSessionFlights res = Inr flights \<longleftrightarrow>
     (\<exists>r body. res = Inr r \<and> json200 r = Some body \<and> error_code body = 0 \<and>
        flights = map flight_of_api (api_result body))"
  by (auto simp: GetSessionFlights_def api_items_def split: sum.splits option.splits)

section \<open>Session names\<close>

definition NormalizeSessionName :: "(string \<Rightarrow> string) \<Rightarrow> string \<Rightarrow> string" where
  "NormalizeSessionName uni name =
     (let normalized = trim_space name;
          normalized = to_lower uni normalized;
          normalized = spaces_to_underscores normalized
      in normalized)"

definition norm_char :: "char \<Rightarrow> char" where
  "norm_char c = (if ascii_lower c = CHR '' '' then CHR ''_'' else ascii_lower c)"

lemma NormalizeSessionName_ascii:
  "is_ascii name \<Longrightarrow> NormalizeSessionName uni name = map norm_char (trim_space name)"
  by (simp add: NormalizeSessionName_def to_lower_def spaces_to_underscores_def norm_char_def)

lemma char_eq_of_char: "c = d \<longleftrightarrow> (of_char c :: nat) = of_char d"
  by (metis char_of_char)

lemma ascii_lower_space: "ascii_lower c = CHR '' '' \<longleftrightarrow> c = CHR '' ''"
  by (auto simp: char_eq_of_char of_char_ascii_lower)

lemma of_char_norm_char:
  "(of_char (norm_char c) :: nat) =
     (if c = CHR '' '' then 95
      else if 65 \<le> (of_char c :: nat) \<and> (of_char c :: nat) \<le> 90 then of_char c + 32 else of_char c)"
  by (simp add: norm_char_def ascii_lower_space of_char_ascii_lower)

lemma norm_char_idem: "norm_char (norm_char c) = norm_char c"
  by (simp add: char_eq_of_char of_char_norm_char)

lemma is_space_iff: "is_space c \<longleftrightarrow> (of_char c :: nat) \<in> {9, 10, 11, 12, 13, 32}"
  by (simp add: is_space_def ascii_spaces_def char_eq_of_char)

lemma is_space_norm_char: "\<not> is_space c \<Longrightarrow> \<not> is_space (norm_char c)"
  by (auto simp: is_space_iff of_char_norm_char split: if_splits)

lemma is_ascii_map_norm: "is_ascii s \<Longrightarrow> is_ascii (map norm_char s)"
  by (auto simp: is_ascii_def list_all_iff of_char_norm_char)

text \<open>
  for a name of ASCII characters the normalised form is stable (normalising it again changes
  nothing), so a normalised name used as a server identifier in a request is the same key.
\<close>

theorem NormalizeSessionName_idem:
  assumes "is_ascii name"
  shows "NormalizeSessionName uni (NormalizeSessionName uni name) = NormalizeSessionName uni name"
proof -
  let ?t = "trim_space name" and ?n = "map norm_char (trim_space name)"
  have a: "is_ascii ?n" using assms by (simp add: is_ascii_map_norm)
  have "?n \<noteq> [] \<Longrightarrow> \<not> is_space (hd ?n) \<and> \<not> is_space (last ?n)"
    using trim_space_ends [OF assms] by (simp add: hd_map last_map is_space_norm_char)
  then have "trim_space ?n = ?n" by (rule trim_space_ascii_id [OF a])
  then show ?thesis
    using assms a by (simp add: NormalizeSessionName_ascii norm_char_idem)
qed

theorem NormalizeSessionName_idem_witness:
  "NormalizeSessionName id '' Expert Server '' = ''expert_server'' \<and>
   NormalizeSessionName id (NormalizeSessionName id '' Expert Server '') = NormalizeSessionName id '' Expert Server ''"
proof -
  have "is_ascii '' Expert Server ''" by code_simp
  from NormalizeSessionName_idem [OF this, of id]
  have "NormalizeSessionName id (NormalizeSessionName id '' Expert Server '') =
    NormalizeSessionName id '' Expert Server ''" .
  moreover have "NormalizeSessionName id '' Expert Server '' = ''expert_server''" by code_simp
  ultimately show ?thesis by simp
qed

end
