(* ===== verification/GameSessions.thy ===== *)
theory GameSessions
  imports InfiniteFlight Codec
begin

text \<open>
  \<open>internal/game/sessions\<close>, \<open>internal/jobs/sessions\<close>: the snapshot of active sessions with its
  history, the JSON form of both, and the job that refreshes them.
\<close>

section \<open>Codecs\<close>

definition session_json :: "session \<Rightarrow> json option" where
  "session_json s =
     jobj [enc_str ''id'' (s_id s), enc_str ''name'' (s_name s),
       enc_int ''worldType'' (s_world_type s), enc_int ''type'' (s_type s),
       enc_int ''minimumGradeLevel'' (s_min_grade s), enc_int ''userCount'' (s_user_count s),
       enc_str ''minimumAppVersion'' (s_min_app s), enc_strptr ''maximumAppVersion'' (s_max_app s),
       enc_int ''maxUsers'' (s_max_users s), enc_str ''normalizedName'' (s_normalized s),
       enc_time ''timestamp'' (s_timestamp s)]"

definition zero_session :: session where
  "zero_session =
     \<lparr>s_id = '''', s_name = '''', s_world_type = 0, s_type = 0, s_min_grade = 0, s_user_count = 0,
      s_min_app = '''', s_max_app = None, s_max_users = 0, s_normalized = '''', s_timestamp = zero_time\<rparr>"

definition session_of_json :: "json \<Rightarrow> session option" where
  "session_of_json = dec_struct zero_session (\<lambda>kvs. do {
     id' \<leftarrow> dec_str ''id'' kvs;
     name \<leftarrow> dec_str ''name'' kvs;
     world \<leftarrow> dec_int ''worldType'' kvs;
     ty \<leftarrow> dec_int ''type'' kvs;
     grade \<leftarrow> dec_int ''minimumGradeLevel'' kvs;
     users \<leftarrow> dec_int ''userCount'' kvs;
     min_app \<leftarrow> dec_str ''minimumAppVersion'' kvs;
     max_app \<leftarrow> dec_strptr ''maximumAppVersion'' kvs;
     max_users \<leftarrow> dec_int ''maxUsers'' kvs;
     normalized \<leftarrow> dec_str ''normalizedName'' kvs;
     timestamp \<leftarrow> dec_time ''timestamp'' kvs;
     Some \<lparr>s_id = id', s_name = name, s_world_type = world, s_type = ty, s_min_grade = grade,
       s_user_count = users, s_min_app = min_app, s_max_app = max_app, s_max_users = max_users,
       s_normalized = normalized, s_timestamp = timestamp\<rparr>
   })"

lemma session_roundtrip: "session_json s = Some j \<Longrightarrow> session_of_json j = Some s"
  by (cases s)
     (auto simp: session_json_def session_of_json_def jobj_Some_iff enc_defs those_Cons_Some_iff dec_defs
       field_Cons sint_of_in_int64 unmarshal_marshal_time split: option.splits)

interpretation session_codec: codec session_json session_of_json "\<lambda>_. True"
  by unfold_locales (rule session_roundtrip)

section \<open>Snapshots\<close>

datatype session_snapshot =
  Snapshot (snap_result: "session slice") (snap_cached: time) (snap_history: "session_snapshot slice")

definition drop_history :: "session_snapshot \<Rightarrow> session_snapshot" where
  "drop_history s = Snapshot (snap_result s) (snap_cached s) None"

lemma drop_history_simps [simp]:
  "snap_result (drop_history s) = snap_result s" "snap_cached (drop_history s) = snap_cached s"
  "snap_history (drop_history s) = None"
  by (simp_all add: drop_history_def)

fun snapshot_json :: "session_snapshot \<Rightarrow> json option" where
  "snapshot_json (Snapshot result cached history) =
     jobj [fld_opt ''result'' (enc_slice session_json result), enc_time ''lastCached'' cached,
       (case history of
          None \<Rightarrow> Some []
        | Some hs \<Rightarrow> fld_omit ''history'' (hs = []) (enc_list snapshot_json hs))]"

definition zero_snapshot :: session_snapshot where
  "zero_snapshot = Snapshot None zero_time None"

function snapshot_of_json :: "json \<Rightarrow> session_snapshot option" where
  "snapshot_of_json j =
     (case j of
        JNull \<Rightarrow> Some zero_snapshot
      | JObj kvs \<Rightarrow> do {
          result \<leftarrow> dec_slice session_of_json (field ''result'' kvs);
          cached \<leftarrow> dec_time ''lastCached'' kvs;
          history \<leftarrow> dec_slice snapshot_of_json (field ''history'' kvs);
          Some (Snapshot result cached history)
        }
      | _ \<Rightarrow> None)"
  by pat_completeness auto
termination
  by (relation "measure size") (auto dest: size_field_element)

declare snapshot_of_json.simps [simp del]

text \<open>A history that is present is not empty (an empty one is encoded as absent).\<close>

fun snapshot_ok :: "session_snapshot \<Rightarrow> bool" where
  "snapshot_ok (Snapshot result cached history) =
     (case history of None \<Rightarrow> True | Some hs \<Rightarrow> hs \<noteq> [] \<and> (\<forall>h \<in> set hs. snapshot_ok h))"

lemma snapshot_roundtrip:
  "snapshot_ok s \<Longrightarrow> snapshot_json s = Some j \<Longrightarrow> snapshot_of_json j = Some s"
proof (induction s arbitrary: j rule: snapshot_json.induct)
  case (1 result cached history)
  from 1(3) obtain r c h where r: "enc_slice session_json result = Some r"
    and c: "marshal_time cached = Some c"
    and h: "(case history of None \<Rightarrow> Some []
        | Some hs \<Rightarrow> fld_omit ''history'' (hs = []) (enc_list snapshot_json hs)) = Some h"
    and j: "j = JObj ([(''result'', r), (''lastCached'', JStr c)] @ h)"
    by (auto simp: jobj_Some_iff those_Cons_Some_iff fld_opt_def enc_time_def simp del: those.simps)
  have r': "dec_slice session_of_json (Some r) = Some result"
    using session_codec.list_roundtrip r by simp
  show ?case
  proof (cases history)
    case None
    with h have "h = []" by simp
    then show ?thesis
      by (subst snapshot_of_json.simps)
         (simp add: j None field_Cons r' dec_time_def unmarshal_marshal_time [OF c] dec_slice_def [of _ None])
  next
    case (Some hs)
    with h 1(2) obtain hj where hj: "enc_list snapshot_json hs = Some hj" and h': "h = [(''history'', hj)]"
      by (auto simp: enc_defs split: if_splits)
    have "dec_slice snapshot_of_json (Some hj) = Some (Some (map (\<lambda>x. x) hs))"
      by (rule dec_slice_enc_list [OF hj]) (use 1(1) [OF Some] 1(2) Some in auto)
    then show ?thesis
      by (subst snapshot_of_json.simps)
         (simp add: j Some h' field_Cons r' dec_time_def unmarshal_marshal_time [OF c])
  qed
qed

interpretation snapshot_codec: codec snapshot_json snapshot_of_json snapshot_ok
  by unfold_locales (rule snapshot_roundtrip)

definition names_json :: "string slice \<Rightarrow> json option" where
  "names_json = enc_slice (\<lambda>s. Some (JStr s))"

definition names_of_json :: "json \<Rightarrow> string slice option" where
  "names_of_json j =
     dec_slice (\<lambda>v. case v of JNull \<Rightarrow> Some [] | JStr s \<Rightarrow> Some s | _ \<Rightarrow> None) (Some j)"

interpretation names_codec: codec names_json names_of_json "\<lambda>_. True"
  by unfold_locales (auto simp: names_json_def names_of_json_def intro: dec_slice_enc_slice)

end
