(* ===== verification/SessionsJob.thy ===== *)
theory SessionsJob
  imports GameSessions
begin

text \<open>
  \<open>internal/jobs/sessions\<close>: one run of the job that refreshes the active sessions. The state is
  the store; the upstream answer and the clock are arguments.
\<close>

definition sessions_CacheTTL :: duration where
  "sessions_CacheTTL = 24 * 3600 * sec_ns"

definition stamp_session :: "(string \<Rightarrow> string) \<Rightarrow> time \<Rightarrow> session \<Rightarrow> session" where
  "stamp_session uni refreshedAt session =
     session\<lparr>s_timestamp := refreshedAt, s_normalized := NormalizeSessionName uni (s_name session)\<rparr>"

definition session_identity :: "session \<Rightarrow> string" where
  "session_identity session =
     (if s_id session = '''' then ''name:'' @ s_normalized session else s_id session)"

definition prepareCurrentSessions :: "(string \<Rightarrow> string) \<Rightarrow> session list \<Rightarrow> time \<Rightarrow> session list" where
  "prepareCurrentSessions uni upstream refreshedAt =
     fst (fold (\<lambda>session.
       let session = stamp_session uni refreshedAt session
       in place (session_identity session) session) upstream ([], Map.empty))"

definition next_snapshot_history :: "(go_error + session_snapshot) \<Rightarrow> session_snapshot slice" where
  "next_snapshot_history existing =
     (case existing of
        Inl err \<Rightarrow> None
      | Inr snapshot \<Rightarrow>
          if is_zero_time (snap_cached snapshot) then None
          else Some (keep_last 50
                 (map drop_history (elems (snap_history snapshot)) @ [drop_history snapshot])))"

definition sessions_Run ::
  "'r redis \<Rightarrow> (string \<Rightarrow> string) \<Rightarrow> (go_error + session list) \<Rightarrow> time \<Rightarrow> 'r store \<Rightarrow>
     (go_error + unit) \<times> 'r store"
where
  "sessions_Run R uni fetched now st =
     (case fetched of
        Inl err \<Rightarrow> (Inl (Wrapf ''refresh sessions'' err), st)
      | Inr upstream \<Rightarrow>
          let (existing, st) = GetJSON R snapshot_of_json KeyActiveSessions st;
              refreshedAt = now;
              sessions = prepareCurrentSessions uni upstream refreshedAt;
              snapshot = Snapshot (Some sessions) refreshedAt (next_snapshot_history existing);
              (res, st) = SetJSON R snapshot_json KeyActiveSessions snapshot sessions_CacheTTL st
          in case res of
               Inl err \<Rightarrow> (Inl (Wrapf ''cache sessions'' err), st)
             | Inr _ \<Rightarrow>
                 let (res, st) = SetJSON R names_json KeySessionNames
                       (Some (map s_normalized sessions)) 0 st
                 in case res of
                      Inl err \<Rightarrow> (Inl (Wrapf ''cache session names'' err), st)
                    | Inr _ \<Rightarrow> (Inr (), st))"

section \<open>The current sessions\<close>

lemma prepareCurrentSessions_place_all:
  "prepareCurrentSessions uni upstream now =
     fst (place_all session_identity (map (stamp_session uni now) upstream))"
  unfolding prepareCurrentSessions_def Let_def place_all_map ..

text \<open>
  C30: the refreshed list holds one entry per session identity (its id, or its normalised name when
  the id is empty), in the order of first appearance, each with the last value upstream sent,
  stamped with the refresh time and the normalised name.
\<close>

theorem prepareCurrentSessions_last_per_key:
  "prepareCurrentSessions uni upstream now =
     last_per_key session_identity (map (stamp_session uni now) upstream)"
  unfolding prepareCurrentSessions_place_all place_all_last_per_key ..

lemma distinct_prepared: "distinct (map session_identity (prepareCurrentSessions uni upstream now))"
  unfolding prepareCurrentSessions_place_all place_all_last_per_key by simp

lemma prepared_stamped:
  assumes "s \<in> set (prepareCurrentSessions uni upstream now)"
  shows "s_timestamp s = now" "s_normalized s = NormalizeSessionName uni (s_name s)"
proof -
  from assms have "s \<in> stamp_session uni now ` set upstream"
    using set_last_per_key [of session_identity "map (stamp_session uni now) upstream"]
    unfolding prepareCurrentSessions_place_all place_all_last_per_key by auto
  then show "s_timestamp s = now" "s_normalized s = NormalizeSessionName uni (s_name s)"
    by (auto simp: stamp_session_def)
qed

section \<open>The history\<close>

text \<open>The snapshot invariant: distinct identities, at most 50 flat entries of history.\<close>

definition flat_history :: "session_snapshot \<Rightarrow> bool" where
  "flat_history s \<longleftrightarrow>
     length (elems (snap_history s)) \<le> 50 \<and> (\<forall>h \<in> set (elems (snap_history s)). snap_history h = None)"

definition snapshot_inv :: "session_snapshot \<Rightarrow> bool" where
  "snapshot_inv s \<longleftrightarrow> distinct (map session_identity (elems (snap_result s))) \<and> flat_history s"

lemma next_history_flat:
  "length (elems (next_snapshot_history e)) \<le> 50"
  "h \<in> set (elems (next_snapshot_history e)) \<Longrightarrow> snap_history h = None"
  by (auto simp: next_snapshot_history_def split: sum.splits if_splits
      dest!: subsetD [OF set_keep_last])

lemma next_history_nonempty: "next_snapshot_history e \<noteq> Some []"
  by (auto simp: next_snapshot_history_def keep_last_def split: sum.splits)

lemma snapshot_ok_next:
  "snapshot_ok (Snapshot r c (next_snapshot_history e))"
proof -
  have "snapshot_ok h" if "snap_history h = None" for h
    using that by (cases h) simp
  then show ?thesis
    using next_history_nonempty [of e] next_history_flat(2) [of _ e]
    by (cases "next_snapshot_history e") auto
qed

text \<open>A flat history grows by the replaced snapshot, the oldest entry making room for it.\<close>

lemma next_history_of_inv:
  assumes "flat_history s" and "\<not> is_zero_time (snap_cached s)"
  shows "next_snapshot_history (Inr s) =
    Some (keep_last 50 (elems (snap_history s) @ [drop_history s]))"
proof -
  have "drop_history h = h" if "snap_history h = None" for h
    using that by (cases h) (simp add: drop_history_def)
  then have "map drop_history (elems (snap_history s)) = elems (snap_history s)"
    using assms(1) by (intro map_idI) (simp add: flat_history_def)
  with assms(2) show ?thesis by (simp add: next_snapshot_history_def)
qed

section \<open>One run\<close>

definition run_snapshot ::
  "(string \<Rightarrow> string) \<Rightarrow> session list \<Rightarrow> time \<Rightarrow> (go_error + session_snapshot) \<Rightarrow> session_snapshot"
where
  "run_snapshot uni upstream now existing =
     Snapshot (Some (prepareCurrentSessions uni upstream now)) now (next_snapshot_history existing)"

lemma snapshot_inv_run: "snapshot_inv (run_snapshot uni upstream now existing)"
  using next_history_flat(1) [of existing] next_history_flat(2) [of _ existing]
  by (simp add: snapshot_inv_def run_snapshot_def flat_history_def distinct_prepared)

definition runs_snapshot ::
  "(string \<Rightarrow> string) \<Rightarrow> session_snapshot \<Rightarrow> (session list \<times> time) list \<Rightarrow> session_snapshot"
where
  "runs_snapshot uni s rs = foldl (\<lambda>s (upstream, now). run_snapshot uni upstream now (Inr s)) s rs"

context redis_service
begin

lemma sessions_Run_snapshot:
  assumes "sessions_Run R uni (Inr upstream) now st = (Inr u, st')"
  defines "existing \<equiv> fst (GetJSON R snapshot_of_json KeyActiveSessions st)"
  shows "stored view snapshot_of_json KeyActiveSessions st' = Some (run_snapshot uni upstream now existing)"
    and "stored view names_of_json KeySessionNames st' =
      Some (Some (map s_normalized (prepareCurrentSessions uni upstream now)))"
proof -
  let ?snap = "run_snapshot uni upstream now existing"
  let ?names = "Some (map s_normalized (prepareCurrentSessions uni upstream now))"
  let ?st1 = "snd (GetJSON R snapshot_of_json KeyActiveSessions st)"
  obtain u2 st2 where 2: "SetJSON R snapshot_json KeyActiveSessions ?snap sessions_CacheTTL ?st1 = (Inr u2, st2)"
    and 3: "SetJSON R names_json KeySessionNames ?names 0 st2 = (Inr u, st')"
    using assms by (auto simp: sessions_Run_def run_snapshot_def Let_def split: prod.splits sum.splits)
  have "stored view snapshot_of_json KeyActiveSessions st2 = Some ?snap"
    by (rule SetJSON_stored [OF snapshot_codec.codec_axioms _ 2])
       (simp add: run_snapshot_def snapshot_ok_next del: snapshot_ok.simps)
  moreover have "stored view snapshot_of_json KeyActiveSessions st' = stored view snapshot_of_json KeyActiveSessions st2"
    using SetJSON_keeps [of KeyActiveSessions KeySessionNames snapshot_of_json names_json ?names 0 st2] 3
    by simp
  ultimately show "stored view snapshot_of_json KeyActiveSessions st' = Some ?snap" by simp
  show "stored view names_of_json KeySessionNames st' = Some ?names"
    by (rule SetJSON_stored [OF names_codec.codec_axioms _ 3]) simp
qed

lemma sessions_Run_inv:
  assumes run: "sessions_Run R uni fetched now st = (res, st')"
    and inv: "\<And>s. stored view snapshot_of_json KeyActiveSessions st = Some s \<Longrightarrow> snapshot_inv s"
    and s: "stored view snapshot_of_json KeyActiveSessions st' = Some s"
  shows "snapshot_inv s"
proof (cases fetched)
  case (Inl err)
  with assms show ?thesis by (simp add: sessions_Run_def)
next
  case (Inr upstream)
  let ?stored = "\<lambda>st. stored view snapshot_of_json KeyActiveSessions st"
  obtain existing st1 where 1: "GetJSON R snapshot_of_json KeyActiveSessions st = (existing, st1)"
    by fastforce
  let ?snap = "run_snapshot uni upstream now existing"
  obtain res2 st2 where 2: "SetJSON R snapshot_json KeyActiveSessions ?snap sessions_CacheTTL st1 = (res2, st2)"
    by fastforce
  have "?stored st' = ?stored st2"
    using run 1 2
    by (auto simp: sessions_Run_def Inr Let_def run_snapshot_def split: prod.splits sum.splits
        dest!: SetJSON_untouched [where k = KeyActiveSessions and dec = snapshot_of_json])
  moreover have "?stored st2 = ?stored st1 \<or> ?stored st2 = Some ?snap"
    by (rule SetJSON_stored_cases [OF snapshot_codec.codec_axioms _ 2])
       (simp add: run_snapshot_def snapshot_ok_next del: snapshot_ok.simps)
  moreover have "?stored st1 = ?stored st"
    using 1 by (rule GetJSON_untouched)
  ultimately show ?thesis using s inv snapshot_inv_run by auto
qed

lemma sessions_Run_frame:
  assumes "sessions_Run R uni fetched now st = (res, st')"
    and "k \<noteq> KeyActiveSessions" and "k \<noteq> KeySessionNames"
  shows "contents st' k = contents st k"
  using assms
  by (auto simp: sessions_Run_def Let_def split: sum.splits prod.splits
      dest!: SetJSON_other [of _ _ _ _ _ _ _ k] GetJSON_frame)

end

section \<open>Success\<close>

text \<open>Times that JSON can carry: the only thing about a snapshot that can fail to encode.\<close>

definition timely :: "session_snapshot \<Rightarrow> bool" where
  "timely s \<longleftrightarrow>
     year_in_range (snap_cached s) \<and> (\<forall>x \<in> set (elems (snap_result s)). year_in_range (s_timestamp x))"

definition all_timely :: "session_snapshot \<Rightarrow> bool" where
  "all_timely s \<longleftrightarrow> timely s \<and> (\<forall>h \<in> set (elems (snap_history s)). timely h)"

lemma session_encodes: "year_in_range (s_timestamp s) \<Longrightarrow> \<exists>j. session_json s = Some j"
  by (auto simp: session_json_def jobj_def enc_defs marshal_time_def split: option.split)

lemma those_total: "(\<And>x. x \<in> set xs \<Longrightarrow> \<exists>j. enc x = Some j) \<Longrightarrow> \<exists>js. those (map enc xs) = Some js"
  using those_map_Some [of xs enc "\<lambda>x. the (enc x)"] by fastforce

lemma slice_encodes: "(\<And>x. x \<in> set (elems s) \<Longrightarrow> \<exists>j. enc x = Some j) \<Longrightarrow> \<exists>j. enc_slice enc s = Some j"
  using those_total [of "elems s" enc] by (cases s) (auto simp: enc_slice_def enc_list_def)

lemma timely_encodes:
  assumes "timely s" and "\<And>hs. snap_history s = Some hs \<Longrightarrow> \<exists>j. enc_list snapshot_json hs = Some j"
  shows "\<exists>j. snapshot_json s = Some j"
proof -
  obtain rj where "enc_slice session_json (snap_result s) = Some rj"
    using slice_encodes [of "snap_result s" session_json] assms(1) session_encodes by (auto simp: timely_def)
  moreover obtain t where "marshal_time (snap_cached s) = Some t"
    using assms(1) by (simp add: timely_def marshal_time_def)
  ultimately show ?thesis
    using assms(2) by (cases s) (auto simp: jobj_def enc_defs split: option.split)
qed

lemma flat_timely_encodes: "timely s \<Longrightarrow> snap_history s = None \<Longrightarrow> \<exists>j. snapshot_json s = Some j"
  by (rule timely_encodes) simp_all

lemma run_snapshot_timely:
  assumes "year_in_range now" and "\<And>s. existing = Inr s \<Longrightarrow> all_timely s"
  shows "all_timely (run_snapshot uni upstream now existing)"
proof -
  have "timely h" if "h \<in> set (elems (next_snapshot_history existing))" for h
    using that assms(2)
    by (auto simp: next_snapshot_history_def all_timely_def timely_def split: sum.splits if_splits
        dest!: subsetD [OF set_keep_last])
  with assms(1) show ?thesis
    by (auto simp: run_snapshot_def all_timely_def timely_def prepared_stamped)
qed

lemma run_snapshot_encodes:
  assumes "year_in_range now" and "\<And>s. existing = Inr s \<Longrightarrow> all_timely s"
  shows "\<exists>j. snapshot_json (run_snapshot uni upstream now existing) = Some j"
proof (rule timely_encodes)
  let ?r = "run_snapshot uni upstream now existing"
  have t: "all_timely ?r" by (rule run_snapshot_timely [OF assms])
  then show "timely ?r" by (simp add: all_timely_def)
  fix hs assume hs: "snap_history ?r = Some hs"
  have "\<exists>j. snapshot_json h = Some j" if "h \<in> set hs" for h
  proof (rule flat_timely_encodes)
    show "timely h" using t that hs by (simp add: all_timely_def)
    show "snap_history h = None"
      using next_history_flat(2) [of h existing] that hs by (simp add: run_snapshot_def)
  qed
  then show "\<exists>j. enc_list snapshot_json hs = Some j"
    using those_total [of hs snapshot_json] by (auto simp: enc_list_def)
qed

lemma names_encode: "\<exists>j. names_json s = Some j"
  unfolding names_json_def by (rule slice_encodes) simp

context live_redis
begin

lemma sessions_Run_live:
  assumes up: "up (server st)" and now: "year_in_range now"
    and old: "\<And>s. stored view snapshot_of_json KeyActiveSessions st = Some s \<Longrightarrow> all_timely s"
    and run: "sessions_Run R uni (Inr upstream) now st = (res, st')"
  shows "res = Inr ()" and "up (server st')"
    and "\<exists>s. stored view snapshot_of_json KeyActiveSessions st' = Some s \<and> all_timely s"
proof -
  obtain existing st1 where 1: "GetJSON R snapshot_of_json KeyActiveSessions st = (existing, st1)" by fastforce
  let ?snap = "run_snapshot uni upstream now existing"
  let ?names = "Some (map s_normalized (prepareCurrentSessions uni upstream now))"
  obtain r2 st2 where 2: "SetJSON R snapshot_json KeyActiveSessions ?snap sessions_CacheTTL st1 = (r2, st2)" by fastforce
  obtain r3 st3 where 3: "SetJSON R names_json KeySessionNames ?names 0 st2 = (r3, st3)" by fastforce
  have timely: "all_timely s" if "existing = Inr s" for s
    using old GetJSON_stored [of snapshot_of_json KeyActiveSessions st s st1] 1 that by simp
  obtain j where j: "snapshot_json ?snap = Some j" using run_snapshot_encodes [OF now timely] by blast
  obtain nj where nj: "names_json ?names = Some nj" using names_encode by blast
  note up1 = GetJSON_live(1) [OF up 1]
  note ok2 = SetJSON_live [OF up1 2 j]
  note ok3 = SetJSON_live [OF ok2(1) 3 nj]
  have eqs: "res = Inr () \<and> st' = st3"
    using run 1 2 3 ok2(2) ok3(2) by (simp add: sessions_Run_def run_snapshot_def Let_def)
  then show "res = Inr ()" "up (server st')" using ok3(1) by simp_all
  have "stored view snapshot_of_json KeyActiveSessions st' = Some ?snap"
    using sessions_Run_snapshot(1) [of uni upstream now st "()" st'] run eqs 1 by simp
  moreover have "all_timely ?snap" by (rule run_snapshot_timely [OF now timely])
  ultimately show "\<exists>s. stored view snapshot_of_json KeyActiveSessions st' = Some s \<and> all_timely s" by blast
qed

end

section \<open>Many runs\<close>

text \<open>The snapshots that a sequence of runs replaces, oldest first.\<close>

fun replaced :: "(string \<Rightarrow> string) \<Rightarrow> session_snapshot \<Rightarrow> (session list \<times> time) list \<Rightarrow> session_snapshot list" where
  "replaced uni s [] = []"
| "replaced uni s ((upstream, now) # rs) =
     drop_history s # replaced uni (run_snapshot uni upstream now (Inr s)) rs"

lemma runs_history:
  assumes "flat_history s" and "\<not> is_zero_time (snap_cached s)" and "\<forall>(upstream, now) \<in> set rs. \<not> is_zero_time now"
  shows "elems (snap_history (runs_snapshot uni s rs)) = keep_last 50 (elems (snap_history s) @ replaced uni s rs)"
  using assms
proof (induction rs arbitrary: s)
  case Nil
  then show ?case by (simp add: runs_snapshot_def flat_history_def)
next
  case (Cons r rs)
  obtain upstream now where r: "r = (upstream, now)" by fastforce
  let ?s = "run_snapshot uni upstream now (Inr s)"
  have flat: "flat_history ?s" using snapshot_inv_run by (simp add: snapshot_inv_def)
  have "elems (snap_history ?s) = keep_last 50 (elems (snap_history s) @ [drop_history s])"
    using next_history_of_inv [OF Cons.prems(1,2)] by (simp add: run_snapshot_def)
  moreover have "\<not> is_zero_time (snap_cached ?s)" using Cons.prems(3) r by (simp add: run_snapshot_def)
  ultimately show ?case
    using Cons.IH [OF flat] Cons.prems(3) r
    by (simp add: runs_snapshot_def keep_last_append)
qed

section \<open>Properties\<close>

lemma stored_empty [simp]: "stored mem_view dec k (store_of mem_empty) = None"
  by (simp add: stored_def)

lemma epoch_in_range [simp]: "year_in_range 0"
  by code_simp

lemma zero_time_value: "zero_time = - 62135596800000000000"
  by code_simp

definition ex_session :: session where
  "ex_session =
     \<lparr>s_id = ''s1'', s_name = '' Expert Server '', s_world_type = 3, s_type = 1, s_min_grade = 3,
      s_user_count = 42, s_min_app = ''24.1'', s_max_app = None, s_max_users = 1000,
      s_normalized = '''', s_timestamp = zero_time\<rparr>"

text \<open>A run on an empty store, for the examples.\<close>

definition ex_run :: "(go_error + unit) \<times> mem store" where
  "ex_run = sessions_Run mem_redis id (Inr [ex_session]) 0 (store_of mem_empty)"

lemma ex_run_ok: "ex_run = (Inr (), snd ex_run)"
proof -
  obtain res st' where r: "sessions_Run mem_redis id (Inr [ex_session]) 0 (store_of mem_empty) = (res, st')"
    by fastforce
  have "res = Inr ()" by (rule mem_live.sessions_Run_live(1) [OF _ _ _ r]) simp_all
  with r show ?thesis by (simp add: ex_run_def)
qed

text \<open>
  C25: a run that returns without an error has replaced both entries: the snapshot holds the fresh
  sessions and the history window of what the run read (no history when nothing could be read),
  and the list of names is that of the same sessions.
\<close>

theorem sessions_Run_success:
  assumes "redis_service R view" and "sessions_Run R uni (Inr upstream) now st = (Inr u, st')"
  shows "stored view snapshot_of_json KeyActiveSessions st' =
      Some (Snapshot (Some (last_per_key session_identity (map (stamp_session uni now) upstream))) now
        (next_snapshot_history (fst (GetJSON R snapshot_of_json KeyActiveSessions st)))) \<and>
    stored view names_of_json KeySessionNames st' =
      Some (Some (map s_normalized (last_per_key session_identity (map (stamp_session uni now) upstream))))"
  using redis_service.sessions_Run_snapshot [OF assms]
  by (simp add: run_snapshot_def prepareCurrentSessions_place_all place_all_last_per_key)

theorem sessions_Run_success_witness:
  "stored mem_view names_of_json KeySessionNames (snd ex_run) = Some (Some [''expert_server''])"
proof -
  have "sessions_Run mem_redis id (Inr [ex_session]) 0 (store_of mem_empty) = (Inr (), snd ex_run)"
    using ex_run_ok by (simp add: ex_run_def)
  from sessions_Run_success [OF mem.redis_service_axioms this]
  have "stored mem_view names_of_json KeySessionNames (snd ex_run) =
      Some (Some (map s_normalized (last_per_key session_identity [stamp_session id 0 ex_session])))"
    by simp
  moreover have "map s_normalized (last_per_key session_identity [stamp_session id 0 ex_session]) = [''expert_server'']"
    by code_simp
  ultimately show ?thesis by simp
qed

text \<open>
  whatever upstream and the server answer, a run keeps the invariant of the stored snapshot:
  no identity twice, at most 50 entries of history, none of which embeds a history.
\<close>

theorem sessions_Run_invariant:
  assumes "redis_service R view" and "sessions_Run R uni fetched now st = (res, st')"
    and "\<forall>s. stored view snapshot_of_json KeyActiveSessions st = Some s \<longrightarrow> snapshot_inv s"
  shows "\<forall>s. stored view snapshot_of_json KeyActiveSessions st' = Some s \<longrightarrow> snapshot_inv s"
  using redis_service.sessions_Run_inv [OF assms(1,2)] assms(3) by blast

theorem sessions_Run_invariant_witness:
  "\<exists>s. stored mem_view snapshot_of_json KeyActiveSessions (snd ex_run) = Some s \<and> snapshot_inv s"
proof -
  have run: "sessions_Run mem_redis id (Inr [ex_session]) 0 (store_of mem_empty) = (Inr (), snd ex_run)"
    using ex_run_ok by (simp add: ex_run_def)
  obtain s where "stored mem_view snapshot_of_json KeyActiveSessions (snd ex_run) = Some s"
    using mem.sessions_Run_snapshot(1) [OF run] by blast
  then show ?thesis
    using sessions_Run_invariant [OF mem.redis_service_axioms run] by simp
qed

text \<open>
  C31: over any number of runs that read their predecessor's snapshot, the history is the window of
  the last 50 snapshots that were replaced, oldest first, each without a history of its own.
\<close>

theorem sessions_history_window:
  assumes "flat_history s" and "\<not> is_zero_time (snap_cached s)"
    and "\<forall>(upstream, now) \<in> set rs. \<not> is_zero_time now"
  shows "elems (snap_history (runs_snapshot uni s rs)) =
    keep_last 50 (elems (snap_history s) @ replaced uni s rs)"
  using assms by (rule runs_history)

theorem sessions_history_window_witness:
  "elems (snap_history (runs_snapshot id (Snapshot (Some []) 0 None) [([ex_session], 1), ([], 2)])) =
     [Snapshot (Some []) 0 None, Snapshot (Some (prepareCurrentSessions id [ex_session] 1)) 1 None]"
proof -
  let ?s = "Snapshot (Some []) 0 None" and ?rs = "[([ex_session], 1), ([], 2)] :: (session list \<times> time) list"
  have "flat_history ?s" "\<not> is_zero_time (snap_cached ?s)" "\<forall>(upstream, now) \<in> set ?rs. \<not> is_zero_time now"
    by (simp_all add: flat_history_def is_zero_time_def zero_time_value)
  from sessions_history_window [OF this, of id] show ?thesis
    by (simp add: run_snapshot_def drop_history_def)
qed

text \<open>
  when the server is up, upstream answers and the clock and the stored times have four digit
  years, the run succeeds, and it leaves a snapshot from which the next run succeeds again.
\<close>

theorem sessions_Run_succeeds:
  assumes "live_redis R view up" and "up (server st)" and "year_in_range now"
    and "\<forall>s. stored view snapshot_of_json KeyActiveSessions st = Some s \<longrightarrow> all_timely s"
  shows "\<exists>st'. sessions_Run R uni (Inr upstream) now st = (Inr (), st') \<and> up (server st') \<and>
    (\<exists>s. stored view snapshot_of_json KeyActiveSessions st' = Some s \<and> all_timely s)"
proof -
  obtain res st' where r: "sessions_Run R uni (Inr upstream) now st = (res, st')" by fastforce
  from live_redis.sessions_Run_live [OF assms(1-3) _ r] assms(4) r show ?thesis by blast
qed

theorem sessions_Run_succeeds_witness:
  "\<exists>st'. sessions_Run mem_redis id (Inr [ex_session]) 0 (store_of mem_empty) = (Inr (), st') \<and> mem_up (server st')"
  using sessions_Run_succeeds [OF mem_live.live_redis_axioms, of "store_of mem_empty" 0 id "[ex_session]"]
  by auto

end
