(* ===== verification/LiveriesJob.thy ===== *)
theory LiveriesJob
  imports InfiniteFlight Codec
begin

text \<open>
  \<open>internal/game/liveries\<close> and \<open>internal/jobs/liveries\<close>: the cached form of a livery and the job
  that writes one entry per livery.
\<close>

record game_livery =
  gl_id :: string
  gl_aircraft_id :: string
  gl_aircraft_name :: string
  gl_livery_name :: string

definition zero_livery :: game_livery where
  "zero_livery = \<lparr>gl_id = '''', gl_aircraft_id = '''', gl_aircraft_name = '''', gl_livery_name = ''''\<rparr>"

definition livery_json :: "game_livery \<Rightarrow> json option" where
  "livery_json l =
     jobj [enc_str ''id'' (gl_id l), enc_str ''aircraftId'' (gl_aircraft_id l),
       enc_str ''aircraftName'' (gl_aircraft_name l), enc_str ''liveryName'' (gl_livery_name l)]"

definition livery_of_json :: "json \<Rightarrow> game_livery option" where
  "livery_of_json = dec_struct zero_livery (\<lambda>kvs. do {
     id' \<leftarrow> dec_str ''id'' kvs;
     aircraft \<leftarrow> dec_str ''aircraftId'' kvs;
     aircraft_name \<leftarrow> dec_str ''aircraftName'' kvs;
     livery_name \<leftarrow> dec_str ''liveryName'' kvs;
     Some \<lparr>gl_id = id', gl_aircraft_id = aircraft, gl_aircraft_name = aircraft_name,
       gl_livery_name = livery_name\<rparr>
   })"

lemma livery_json_total: "\<exists>j. livery_json l = Some j"
  by (simp add: livery_json_def jobj_def enc_defs)

interpretation livery_codec: codec livery_json livery_of_json "\<lambda>_. True"
proof
  fix v j
  assume "livery_json v = Some j"
  then show "livery_of_json j = Some v"
    by (cases v) (auto simp: livery_json_def livery_of_json_def jobj_Some_iff enc_defs dec_defs field_Cons)
qed

definition liveries_CacheTTL :: duration where
  "liveries_CacheTTL = 24 * 3600 * sec_ns"

definition game_livery_of :: "livery \<Rightarrow> game_livery" where
  "game_livery_of item =
     \<lparr>gl_id = l_id item, gl_aircraft_id = l_aircraft_id item, gl_aircraft_name = l_aircraft_name item,
      gl_livery_name = l_livery_name item\<rparr>"

fun cache_liveries :: "'r redis \<Rightarrow> livery list \<Rightarrow> 'r store \<Rightarrow> (go_error + unit) \<times> 'r store" where
  "cache_liveries R [] st = (Inr (), st)"
| "cache_liveries R (item # items) st =
     (let livery = game_livery_of item;
          (res, st) = SetJSON R livery_json (KeyLivery (gl_id livery)) livery liveries_CacheTTL st
      in case res of
           Inl err \<Rightarrow> (Inl (Wrapf (''cache livery '' @ gl_id livery) err), st)
         | Inr _ \<Rightarrow> cache_liveries R items st)"

definition liveries_Run ::
  "'r redis \<Rightarrow> (go_error + livery list) \<Rightarrow> 'r store \<Rightarrow> (go_error + unit) \<times> 'r store"
where
  "liveries_Run R fetched st =
     (case fetched of
        Inl err \<Rightarrow> (Inl (Wrapf ''refresh liveries'' err), st)
      | Inr upstream \<Rightarrow> cache_liveries R upstream st)"

context redis_service
begin

lemma cache_liveries_frame:
  "cache_liveries R items st = (res, st') \<Longrightarrow> \<forall>item \<in> set items. k \<noteq> KeyLivery (l_id item) \<Longrightarrow>
     contents st' k = contents st k"
proof (induction items arbitrary: st)
  case (Cons item items)
  let ?l = "game_livery_of item"
  obtain r1 st1 where 1: "SetJSON R livery_json (KeyLivery (gl_id ?l)) ?l liveries_CacheTTL st = (r1, st1)"
    by fastforce
  have k: "k \<noteq> KeyLivery (gl_id ?l)"
    using Cons.prems(2) by (simp add: game_livery_of_def)
  show ?case
  proof (cases r1)
    case (Inl err)
    with Cons.prems 1 k show ?thesis by (auto dest: SetJSON_other)
  next
    case (Inr u)
    with Cons.prems 1 k Cons.IH [of st1] show ?thesis by (auto dest: SetJSON_other)
  qed
qed simp

lemma cache_liveries_ok:
  "cache_liveries R items st = (Inr u, st') \<Longrightarrow>
     stored view livery_of_json (KeyLivery i) st' =
       (case last_with l_id i items of
          None \<Rightarrow> stored view livery_of_json (KeyLivery i) st
        | Some item \<Rightarrow> Some (game_livery_of item))"
proof (induction items arbitrary: st)
  case (Cons item items)
  let ?l = "game_livery_of item"
  obtain u1 st1 where 1: "SetJSON R livery_json (KeyLivery (gl_id ?l)) ?l liveries_CacheTTL st = (Inr u1, st1)"
    and 2: "cache_liveries R items st1 = (Inr u, st')"
    using Cons.prems by (auto simp: Let_def split: prod.splits sum.splits)
  have "stored view livery_of_json (KeyLivery (l_id item)) st1 = Some ?l"
    using SetJSON_stored [OF livery_codec.codec_axioms _ 1] by (simp add: game_livery_of_def)
  moreover have "stored view livery_of_json (KeyLivery i) st1 = stored view livery_of_json (KeyLivery i) st"
    if "i \<noteq> l_id item"
    using SetJSON_untouched [OF 1, of "KeyLivery i" livery_of_json] that by (simp add: game_livery_of_def)
  ultimately show ?case
    using Cons.IH [OF 2] by (auto simp: last_with_Cons split: option.splits)
qed simp

text \<open>Without an error from the store, the job succeeds.\<close>

lemma cache_liveries_error:
  "cache_liveries R items st = (Inl e, st') \<Longrightarrow>
     \<exists>item \<in> set items. e = Wrapf (''cache livery '' @ l_id item) (Wrapf ''set cache key'' ErrBackend)"
proof (induction items arbitrary: st)
  case (Cons item items)
  let ?l = "game_livery_of item"
  obtain r1 st1 where 1: "SetJSON R livery_json (KeyLivery (gl_id ?l)) ?l liveries_CacheTTL st = (r1, st1)"
    by fastforce
  show ?case
  proof (cases r1)
    case (Inl err)
    obtain j where j: "livery_json ?l = Some j" using livery_json_total by blast
    have "err = Wrapf ''set cache key'' ErrBackend"
      using 1 Inl j by (auto simp: SetJSON_def Let_def split: prod.splits if_splits)
    with Cons.prems 1 Inl show ?thesis by (simp add: game_livery_of_def)
  next
    case (Inr u)
    with Cons.prems 1 Cons.IH [of st1] show ?thesis by auto
  qed
qed simp

end

section \<open>Properties\<close>

context live_redis
begin

lemma cache_liveries_live:
  "up (server st) \<Longrightarrow> cache_liveries R items st = (res, st') \<Longrightarrow> res = Inr () \<and> up (server st')"
proof (induction items arbitrary: st)
  case (Cons item items)
  let ?l = "game_livery_of item"
  obtain r1 st1 where 1: "SetJSON R livery_json (KeyLivery (gl_id ?l)) ?l liveries_CacheTTL st = (r1, st1)"
    by fastforce
  obtain j where j: "livery_json ?l = Some j" using livery_json_total by blast
  note ok = SetJSON_live [OF Cons.prems(1) 1 j]
  with Cons.prems(2) 1 have "cache_liveries R items st1 = (res, st')" by simp
  with Cons.IH ok(1) show ?case by simp
qed simp

end

definition ex_livery :: livery where
  "ex_livery =
     \<lparr>l_id = ''l1'', l_aircraft_id = ''a1'', l_aircraft_name = ''B738'', l_livery_name = ''Generic''\<rparr>"

text \<open>
  C40: a run of the liveries job that returns without an error has written, for every livery id
  upstream listed, the last item with that id, and nothing else.
\<close>

theorem liveries_Run_success:
  assumes "redis_service R view" and "liveries_Run R (Inr upstream) st = (Inr u, st')"
  shows "stored view livery_of_json (KeyLivery i) st' =
      (case last_with l_id i upstream of
         None \<Rightarrow> stored view livery_of_json (KeyLivery i) st
       | Some item \<Rightarrow> Some (game_livery_of item)) \<and>
    ((\<forall>i. k \<noteq> KeyLivery i) \<longrightarrow> view (server st') k = view (server st) k)"
  using redis_service.cache_liveries_ok [OF assms(1)] redis_service.cache_liveries_frame [OF assms(1)]
    assms(2) by (simp add: liveries_Run_def)

theorem liveries_Run_success_witness:
  "stored mem_view livery_of_json (KeyLivery ''l1'')
     (snd (liveries_Run mem_redis (Inr [ex_livery]) (store_of mem_empty))) = Some (game_livery_of ex_livery)"
proof -
  obtain res st' where r: "liveries_Run mem_redis (Inr [ex_livery]) (store_of mem_empty) = (res, st')"
    by fastforce
  then have "res = Inr ()"
    using mem_live.cache_liveries_live [of "store_of mem_empty" "[ex_livery]" res st']
    by (simp add: liveries_Run_def)
  with r liveries_Run_success [OF mem.redis_service_axioms, of "[ex_livery]" "store_of mem_empty" "()" st' "''l1''"]
  show ?thesis by (simp add: last_with_def ex_livery_def)
qed

end
