(* ===== verification/GameFlights.thy ===== *)
theory GameFlights
  imports InfiniteFlight LiveriesJob
begin

text \<open>
  \<open>internal/game/flights\<close>, the cache contract: the constants, the structs of \<open>cache.go\<close> and their
  JSON form. A flight carries a (legacy) nested history, so it is a recursive datatype around the
  record of its other fields.
\<close>

section \<open>Constants\<close>

definition GameActiveFlightTTL :: duration where
  "GameActiveFlightTTL = 3 * 24 * 3600 * sec_ns"

definition MaxHistory :: nat where
  "MaxHistory = 25"

definition DefaultPageLength :: gint where
  "DefaultPageLength = 50"

definition DefaultPageNumber :: gint where
  "DefaultPageNumber = 1"

section \<open>Structs\<close>

record path_sync =
  fpl_sync_required :: bool

record normalized =
  n_speed :: string
  n_vertical_speed :: string
  n_pilot_state :: string
  n_is_connected :: string

record flight_data =
  f_flight_id :: string
  f_user_id :: string
  f_aircraft_id :: string
  f_livery_id :: string
  f_username :: "string option"
  f_organization :: "string option"
  f_callsign :: string
  f_latitude :: float64
  f_longitude :: float64
  f_altitude :: gint
  f_speed :: gint
  f_vertical_speed :: float64
  f_track :: float64
  f_heading :: float64
  f_last_report :: time
  f_pilot_state :: gint
  f_connected :: bool
  f_aircraft_name :: string
  f_livery_name :: string
  f_session_id :: string
  f_normalized_name :: string
  f_normalized :: normalized
  f_path_sync :: "path_sync option"

datatype flight = Flight (fdata: flight_data) (fhistory: "flight slice")

record flights_snapshot =
  fs_result :: "flight slice"
  fs_cached :: time

record history_snapshot =
  hs_result :: "flight slice"

abbreviation flight_id :: "flight \<Rightarrow> string" where
  "flight_id f \<equiv> f_flight_id (fdata f)"

section \<open>JSON\<close>

definition path_sync_json :: "path_sync \<Rightarrow> json option" where
  "path_sync_json p = jobj [enc_bool ''fplSyncRequired'' (fpl_sync_required p)]"

definition path_sync_of_json :: "json \<Rightarrow> path_sync option" where
  "path_sync_of_json = dec_struct \<lparr>fpl_sync_required = False\<rparr> (\<lambda>kvs. do {
     b \<leftarrow> dec_bool ''fplSyncRequired'' kvs;
     Some \<lparr>fpl_sync_required = b\<rparr>
   })"

definition normalized_json :: "normalized \<Rightarrow> json option" where
  "normalized_json n =
     jobj [enc_str ''speed'' (n_speed n), enc_str ''verticalSpeed'' (n_vertical_speed n),
       enc_str ''pilotState'' (n_pilot_state n), enc_str ''isConnected'' (n_is_connected n)]"

definition zero_normalized :: normalized where
  "zero_normalized =
     \<lparr>n_speed = '''', n_vertical_speed = '''', n_pilot_state = '''', n_is_connected = ''''\<rparr>"

definition normalized_of_json :: "json \<Rightarrow> normalized option" where
  "normalized_of_json = dec_struct zero_normalized (\<lambda>kvs. do {
     speed \<leftarrow> dec_str ''speed'' kvs;
     vertical \<leftarrow> dec_str ''verticalSpeed'' kvs;
     pilot \<leftarrow> dec_str ''pilotState'' kvs;
     connected \<leftarrow> dec_str ''isConnected'' kvs;
     Some \<lparr>n_speed = speed, n_vertical_speed = vertical, n_pilot_state = pilot, n_is_connected = connected\<rparr>
   })"

interpretation path_sync_codec: codec path_sync_json path_sync_of_json "\<lambda>_. True"
  by unfold_locales
     (auto simp: path_sync_json_def path_sync_of_json_def jobj_Some_iff enc_defs dec_defs field_Cons)

interpretation normalized_codec: codec normalized_json normalized_of_json "\<lambda>_. True"
  by unfold_locales
     (auto simp: normalized_json_def normalized_of_json_def jobj_Some_iff enc_defs dec_defs field_Cons)

definition flight_fields :: "flight_data \<Rightarrow> fields list" where
  "flight_fields d =
     [enc_str ''flightId'' (f_flight_id d), enc_str ''userId'' (f_user_id d),
      enc_str ''aircraftId'' (f_aircraft_id d), enc_str ''liveryId'' (f_livery_id d),
      enc_strptr ''username'' (f_username d), enc_strptr ''virtualOrganization'' (f_organization d),
      enc_str ''callsign'' (f_callsign d), enc_float ''latitude'' (f_latitude d),
      enc_float ''longitude'' (f_longitude d), enc_int ''altitude'' (f_altitude d),
      enc_int ''speed'' (f_speed d), enc_float ''verticalSpeed'' (f_vertical_speed d),
      enc_float ''track'' (f_track d), enc_float ''heading'' (f_heading d),
      enc_time ''lastReport'' (f_last_report d), enc_int ''pilotState'' (f_pilot_state d),
      enc_bool ''isConnected'' (f_connected d), enc_str_omit ''aircraftName'' (f_aircraft_name d),
      enc_str_omit ''liveryName'' (f_livery_name d), enc_str ''sessionId'' (f_session_id d),
      enc_str ''normalizedName'' (f_normalized_name d),
      fld_opt ''normalized'' (normalized_json (f_normalized d)),
      (case f_path_sync d of None \<Rightarrow> Some [] | Some p \<Rightarrow> fld_opt ''pathSync'' (path_sync_json p))]"

definition flight_data_of_fields :: "(string \<times> json) list \<Rightarrow> flight_data option" where
  "flight_data_of_fields kvs = do {
     flight_id \<leftarrow> dec_str ''flightId'' kvs;
     user \<leftarrow> dec_str ''userId'' kvs;
     aircraft \<leftarrow> dec_str ''aircraftId'' kvs;
     livery \<leftarrow> dec_str ''liveryId'' kvs;
     username \<leftarrow> dec_strptr ''username'' kvs;
     organization \<leftarrow> dec_strptr ''virtualOrganization'' kvs;
     callsign \<leftarrow> dec_str ''callsign'' kvs;
     latitude \<leftarrow> dec_float ''latitude'' kvs;
     longitude \<leftarrow> dec_float ''longitude'' kvs;
     altitude \<leftarrow> dec_int ''altitude'' kvs;
     speed \<leftarrow> dec_int ''speed'' kvs;
     vertical \<leftarrow> dec_float ''verticalSpeed'' kvs;
     track \<leftarrow> dec_float ''track'' kvs;
     heading \<leftarrow> dec_float ''heading'' kvs;
     last_report \<leftarrow> dec_time ''lastReport'' kvs;
     pilot_state \<leftarrow> dec_int ''pilotState'' kvs;
     connected \<leftarrow> dec_bool ''isConnected'' kvs;
     aircraft_name \<leftarrow> dec_str ''aircraftName'' kvs;
     livery_name \<leftarrow> dec_str ''liveryName'' kvs;
     session_id \<leftarrow> dec_str ''sessionId'' kvs;
     normalized_name \<leftarrow> dec_str ''normalizedName'' kvs;
     normalized \<leftarrow> dec_nested zero_normalized normalized_of_json ''normalized'' kvs;
     path_sync \<leftarrow> dec_ptr path_sync_of_json ''pathSync'' kvs;
     Some \<lparr>f_flight_id = flight_id, f_user_id = user, f_aircraft_id = aircraft, f_livery_id = livery,
       f_username = username, f_organization = organization, f_callsign = callsign,
       f_latitude = latitude, f_longitude = longitude, f_altitude = altitude, f_speed = speed,
       f_vertical_speed = vertical, f_track = track, f_heading = heading, f_last_report = last_report,
       f_pilot_state = pilot_state, f_connected = connected, f_aircraft_name = aircraft_name,
       f_livery_name = livery_name, f_session_id = session_id, f_normalized_name = normalized_name,
       f_normalized = normalized, f_path_sync = path_sync\<rparr>
   }"

definition flight_field_names :: "string list" where
  "flight_field_names = [''flightId'', ''userId'', ''aircraftId'', ''liveryId'', ''username'',
     ''virtualOrganization'', ''callsign'', ''latitude'', ''longitude'', ''altitude'', ''speed'',
     ''verticalSpeed'', ''track'', ''heading'', ''lastReport'', ''pilotState'', ''isConnected'',
     ''aircraftName'', ''liveryName'', ''sessionId'', ''normalizedName'', ''normalized'', ''pathSync'']"

lemma flight_field_names: "distinct flight_field_names" "''history'' \<notin> set flight_field_names"
  by (simp_all add: flight_field_names_def)

lemma flight_fields_named: "list_all2 named flight_field_names (flight_fields d)"
  by (simp add: flight_field_names_def flight_fields_def split: option.split)

lemma path_sync_not_null: "path_sync_json p \<noteq> Some JNull"
  by (auto simp: path_sync_json_def jobj_Some_iff)

lemma flight_data_roundtrip:
  assumes d: "those (flight_fields d) = Some kvss"
    and rest: "\<And>n. n \<noteq> ''history'' \<Longrightarrow> field n rest = None"
  shows "flight_data_of_fields (concat kvss @ rest) = Some d"
proof -
  let ?all = "concat kvss @ rest"
  have at: "\<exists>kvs. f = Some kvs \<and> field n ?all = field n kvs"
    if "(n, f) \<in> set (zip flight_field_names (flight_fields d))" for n f
  proof -
    from that have "n \<in> set flight_field_names" by (rule set_zip_leftD)
    with flight_field_names(2) have "n \<noteq> ''history''" by blast
    then have "field n ?all = field n (concat kvss)" using rest by (simp add: field_append)
    with field_of_named [OF d flight_fields_named flight_field_names(1) that] show ?thesis by simp
  qed
  note at' = at [unfolded flight_field_names_def flight_fields_def, simplified]
  have strs: "dec_str ''flightId'' ?all = Some (f_flight_id d)" "dec_str ''userId'' ?all = Some (f_user_id d)"
    "dec_str ''aircraftId'' ?all = Some (f_aircraft_id d)" "dec_str ''liveryId'' ?all = Some (f_livery_id d)"
    "dec_str ''callsign'' ?all = Some (f_callsign d)"
    "dec_str ''sessionId'' ?all = Some (f_session_id d)" "dec_str ''normalizedName'' ?all = Some (f_normalized_name d)"
    by (rule read_enc(1), rule at', simp)+
  have omits: "dec_str ''aircraftName'' ?all = Some (f_aircraft_name d)" "dec_str ''liveryName'' ?all = Some (f_livery_name d)"
    by (rule read_enc(2), rule at', simp)+
  have others: "dec_strptr ''username'' ?all = Some (f_username d)"
    "dec_strptr ''virtualOrganization'' ?all = Some (f_organization d)"
    "dec_float ''latitude'' ?all = Some (f_latitude d)" "dec_float ''longitude'' ?all = Some (f_longitude d)"
    "dec_int ''altitude'' ?all = Some (f_altitude d)" "dec_int ''speed'' ?all = Some (f_speed d)"
    "dec_float ''verticalSpeed'' ?all = Some (f_vertical_speed d)" "dec_float ''track'' ?all = Some (f_track d)"
    "dec_float ''heading'' ?all = Some (f_heading d)" "dec_time ''lastReport'' ?all = Some (f_last_report d)"
    "dec_int ''pilotState'' ?all = Some (f_pilot_state d)" "dec_bool ''isConnected'' ?all = Some (f_connected d)"
    by (rule read_enc, rule at', simp)+
  have nested: "dec_nested zero_normalized normalized_of_json ''normalized'' ?all = Some (f_normalized d)"
    by (rule read_nested [OF _ normalized_codec.codec_axioms], rule at', simp_all)
  have ptr: "dec_ptr path_sync_of_json ''pathSync'' ?all = Some (f_path_sync d)"
    by (rule read_ptr [OF _ path_sync_codec.codec_axioms], rule at', simp_all add: path_sync_not_null)
  show ?thesis
    unfolding flight_data_of_fields_def by (simp add: strs omits others nested ptr)
qed

fun flight_json :: "flight \<Rightarrow> json option" where
  "flight_json (Flight d history) =
     jobj (flight_fields d @
       [case history of
          None \<Rightarrow> Some []
        | Some hs \<Rightarrow> fld_omit ''history'' (hs = []) (enc_list flight_json hs)])"

definition zero_flight_data :: flight_data where
  "zero_flight_data =
     \<lparr>f_flight_id = '''', f_user_id = '''', f_aircraft_id = '''', f_livery_id = '''', f_username = None,
      f_organization = None, f_callsign = '''', f_latitude = Fin False 0, f_longitude = Fin False 0,
      f_altitude = 0, f_speed = 0, f_vertical_speed = Fin False 0, f_track = Fin False 0,
      f_heading = Fin False 0, f_last_report = zero_time, f_pilot_state = 0, f_connected = False,
      f_aircraft_name = '''', f_livery_name = '''', f_session_id = '''', f_normalized_name = '''',
      f_normalized = zero_normalized, f_path_sync = None\<rparr>"

definition zero_flight :: flight where
  "zero_flight = Flight zero_flight_data None"

function flight_of_json :: "json \<Rightarrow> flight option" where
  "flight_of_json j =
     (case j of
        JNull \<Rightarrow> Some zero_flight
      | JObj kvs \<Rightarrow> do {
          d \<leftarrow> flight_data_of_fields kvs;
          history \<leftarrow> dec_slice flight_of_json (field ''history'' kvs);
          Some (Flight d history)
        }
      | _ \<Rightarrow> None)"
  by pat_completeness auto
termination
  by (relation "measure size") (auto dest: size_field_element)

declare flight_of_json.simps [simp del]

fun flight_ok :: "flight \<Rightarrow> bool" where
  "flight_ok (Flight d history) =
     (case history of None \<Rightarrow> True | Some hs \<Rightarrow> hs \<noteq> [] \<and> (\<forall>h \<in> set hs. flight_ok h))"

lemma those_append_Some_iff:
  "those (xs @ ys) = Some zs \<longleftrightarrow> (\<exists>us vs. those xs = Some us \<and> those ys = Some vs \<and> zs = us @ vs)"
  by (induction xs arbitrary: zs) (auto simp: those_Cons_Some_iff simp del: those.simps(2))

lemma flight_roundtrip: "flight_ok f \<Longrightarrow> flight_json f = Some j \<Longrightarrow> flight_of_json j = Some f"
proof (induction f arbitrary: j rule: flight_json.induct)
  case (1 d history)
  from 1(3) obtain kvss h where d: "those (flight_fields d) = Some kvss"
    and h: "(case history of None \<Rightarrow> Some []
        | Some hs \<Rightarrow> fld_omit ''history'' (hs = []) (enc_list flight_json hs)) = Some h"
    and j: "j = JObj (concat kvss @ h)"
    by (auto simp: jobj_Some_iff those_append_Some_iff those_Cons_Some_iff simp del: those.simps)
  have no_history: "field ''history'' (concat kvss) = None"
    by (rule field_no_name [OF d flight_fields_named flight_field_names(2)])
  have named: "named ''history'' (Some h)"
    using h by (auto simp: named_def fld_omit_def fld_opt_def split: option.splits if_splits)
  then have "field n h = None" if "n \<noteq> ''history''" for n
    using that by (auto simp: named_def field_Cons)
  then have d': "flight_data_of_fields (concat kvss @ h) = Some d"
    by (rule flight_data_roundtrip [OF d])
  have "dec_slice flight_of_json (field ''history'' h) = Some history"
  proof (cases history)
    case None
    with h show ?thesis by (auto simp: dec_slice_def)
  next
    case (Some hs)
    with h 1(2) obtain hj where hj: "enc_list flight_json hs = Some hj" and h': "h = [(''history'', hj)]"
      by (auto simp: enc_defs split: if_splits)
    have "dec_slice flight_of_json (Some hj) = Some (Some (map (\<lambda>x. x) hs))"
      by (rule dec_slice_enc_list [OF hj]) (use 1(1) [OF Some] 1(2) Some in auto)
    with Some h' show ?thesis by (simp add: field_Cons)
  qed
  moreover have "field ''history'' (concat kvss @ h) = field ''history'' h"
    by (simp add: field_append no_history split: option.split)
  ultimately show ?case
    by (subst flight_of_json.simps) (simp add: j d')
qed

interpretation flight_codec: codec flight_json flight_of_json flight_ok
  by unfold_locales (rule flight_roundtrip)

section \<open>Snapshots\<close>

definition flights_snapshot_json :: "flights_snapshot \<Rightarrow> json option" where
  "flights_snapshot_json s =
     jobj [fld_opt ''result'' (enc_slice flight_json (fs_result s)), enc_time ''lastCached'' (fs_cached s)]"

definition flights_snapshot_of_json :: "json \<Rightarrow> flights_snapshot option" where
  "flights_snapshot_of_json = dec_struct \<lparr>fs_result = None, fs_cached = zero_time\<rparr> (\<lambda>kvs. do {
     result \<leftarrow> dec_slice flight_of_json (field ''result'' kvs);
     cached \<leftarrow> dec_time ''lastCached'' kvs;
     Some \<lparr>fs_result = result, fs_cached = cached\<rparr>
   })"

definition history_json :: "history_snapshot \<Rightarrow> json option" where
  "history_json s = jobj [fld_opt ''result'' (enc_slice flight_json (hs_result s))]"

definition history_of_json :: "json \<Rightarrow> history_snapshot option" where
  "history_of_json = dec_struct \<lparr>hs_result = None\<rparr> (\<lambda>kvs. do {
     result \<leftarrow> dec_slice flight_of_json (field ''result'' kvs);
     Some \<lparr>hs_result = result\<rparr>
   })"

definition flights_ok :: "flight slice \<Rightarrow> bool" where
  "flights_ok fs \<longleftrightarrow> (\<forall>f \<in> set (elems fs). flight_ok f)"

interpretation flights_snapshot_codec:
  codec flights_snapshot_json flights_snapshot_of_json "\<lambda>s. flights_ok (fs_result s)"
proof
  fix v j
  assume "flights_ok (fs_result v)" and "flights_snapshot_json v = Some j"
  then show "flights_snapshot_of_json j = Some v"
    by (cases v) (auto simp: flights_snapshot_json_def flights_snapshot_of_json_def jobj_Some_iff
      those_Cons_Some_iff fld_opt_def enc_time_def field_Cons dec_time_def unmarshal_marshal_time
      flights_ok_def flight_codec.list_roundtrip
      simp del: those.simps)
qed

interpretation history_codec: codec history_json history_of_json "\<lambda>s. flights_ok (hs_result s)"
proof
  fix v j
  assume "flights_ok (hs_result v)" and "history_json v = Some j"
  then show "history_of_json j = Some v"
    by (cases v) (auto simp: history_json_def history_of_json_def jobj_Some_iff
      those_Cons_Some_iff fld_opt_def field_Cons flights_ok_def flight_codec.list_roundtrip
      simp del: those.simps)
qed

end
