(* ===== verification/Flights.thy ===== *)
theory Flights
  imports GameFlights GameSessions
begin

text \<open>
  \<open>internal/game/flights\<close>, the operations: filtering (\<open>filter.go\<close>), pilot states
  (\<open>pilotstate.go\<close>), pagination (\<open>paginate.go\<close>) and the mapper (\<open>mapper.go\<close>).
\<close>

section \<open>Filters\<close>

definition Username :: "flight \<Rightarrow> string" where
  "Username f = (case f_username (fdata f) of None \<Rightarrow> '''' | Some u \<Rightarrow> u)"

definition ContainsFold :: "(string \<Rightarrow> string) \<Rightarrow> string \<Rightarrow> string \<Rightarrow> bool" where
  "ContainsFold uni value query =
     (let query = trim_space query
      in if query = '''' then True else contains (to_lower uni value) (to_lower uni query))"

section \<open>Pilot states\<close>

definition pilotStateNames :: "string list" where
  "pilotStateNames = [''active'', ''away_in_flight'', ''away_parked'', ''in_background'']"

definition PilotStateNames :: "string list" where
  "PilotStateNames = pilotStateNames"

definition NameForPilotState :: "gint \<Rightarrow> string" where
  "NameForPilotState code =
     (if code = 0 then ''active''
      else if code = 1 then ''away_in_flight''
      else if code = 2 then ''away_parked''
      else if code = 3 then ''in_background''
      else ''active'')"

definition ParsePilotStateName :: "string \<Rightarrow> string \<times> bool" where
  "ParsePilotStateName name =
     (if name = ''active'' \<or> name = ''away_in_flight'' \<or> name = ''away_parked'' \<or> name = ''in_background''
      then (name, True) else ('''', False))"

section \<open>Pagination\<close>

text \<open>
  \<open>None\<close> is the run-time panic of \<open>make\<close> or of the slice expression when the end of the page is
  before its start. The two products and sums are those of a 64-bit \<open>int\<close>.
\<close>

definition Paginate :: "'a slice \<Rightarrow> gint \<Rightarrow> gint \<Rightarrow> 'a list option" where
  "Paginate items pageNumber pageLength =
     (case items of
        None \<Rightarrow> Some []
      | Some xs \<Rightarrow>
          (let start = (pageNumber - 1) * pageLength
           in if sint start < 0 \<or> int (length xs) \<le> sint start then Some []
              else
                let end' = start + pageLength;
                    end' = (if int (length xs) < sint end' then of_nat (length xs) else end')
                in if sint end' < sint start then None
                   else Some (take (nat (sint end' - sint start)) (drop (nat (sint start)) xs))))"

section \<open>Mapping an upstream flight\<close>

definition parseLastReport :: "string \<Rightarrow> time \<Rightarrow> time" where
  "parseLastReport raw fallback = (case parse_layout raw of None \<Rightarrow> fallback | Some t \<Rightarrow> t)"

definition MapFlight ::
  "(float64 \<Rightarrow> gint) \<Rightarrow> upstream_flight \<Rightarrow> session \<Rightarrow> game_livery option \<Rightarrow> flight option \<Rightarrow> time \<Rightarrow> flight"
where
  "MapFlight oob upstream session livery existing fallbackReport =
     (let speed = to_int oob (math_round (u_speed upstream));
          verticalSpeed = round_to 10 (u_vertical_speed upstream);
          connected = (if u_connected upstream then ''connected'' else ''disconnected'');
          (aircraftName, liveryName) =
            (case livery of None \<Rightarrow> ('''', '''') | Some l \<Rightarrow> (gl_aircraft_name l, gl_livery_name l));
          (aircraftName, liveryName) =
            (case existing of
               None \<Rightarrow> (aircraftName, liveryName)
             | Some e \<Rightarrow>
                 (if aircraftName = '''' then f_aircraft_name (fdata e) else aircraftName,
                  if liveryName = '''' then f_livery_name (fdata e) else liveryName))
      in Flight
           \<lparr>f_flight_id = u_flight_id upstream,
            f_user_id = u_user_id upstream,
            f_aircraft_id = u_aircraft_id upstream,
            f_livery_id = u_livery_id upstream,
            f_username = u_username upstream,
            f_organization = u_organization upstream,
            f_callsign = u_callsign upstream,
            f_latitude = round_to 10000 (u_latitude upstream),
            f_longitude = round_to 10000 (u_longitude upstream),
            f_altitude = to_int oob (math_round (u_altitude upstream)),
            f_speed = speed,
            f_vertical_speed = verticalSpeed,
            f_track = round_to 10 (u_track upstream),
            f_heading = round_to 10 (u_heading upstream),
            f_last_report = parseLastReport (u_last_report upstream) fallbackReport,
            f_pilot_state = u_pilot_state upstream,
            f_connected = u_connected upstream,
            f_aircraft_name = aircraftName,
            f_livery_name = liveryName,
            f_session_id = s_id session,
            f_normalized_name = s_normalized session,
            f_normalized =
              \<lparr>n_speed = show_int (sint speed) @ '' kts'',
               n_vertical_speed = format_f1 verticalSpeed @ '' ft/min'',
               n_pilot_state = NameForPilotState (u_pilot_state upstream),
               n_is_connected = connected\<rparr>,
            f_path_sync = Some \<lparr>fpl_sync_required = False\<rparr>\<rparr>
           None)"

section \<open>Merging with the previous snapshot\<close>

definition mergeNames :: "flight \<Rightarrow> flight \<Rightarrow> flight" where
  "mergeNames current prior =
     Flight ((fdata current)
       \<lparr>f_aircraft_name :=
          (if f_aircraft_name (fdata current) = '''' then f_aircraft_name (fdata prior)
           else f_aircraft_name (fdata current)),
        f_livery_name :=
          (if f_livery_name (fdata current) = '''' then f_livery_name (fdata prior)
           else f_livery_name (fdata current))\<rparr>)
       (fhistory current)"

definition index_flights :: "flight list \<Rightarrow> (string \<rightharpoonup> flight)" where
  "index_flights existing = fold (\<lambda>f m. m(flight_id f \<mapsto> f)) existing Map.empty"

definition UpsertFlights :: "flight list \<Rightarrow> flight list \<Rightarrow> flight list" where
  "UpsertFlights existing mapped =
     (let index = index_flights existing
      in fst (fold (\<lambda>current.
           let current =
                 (case index (flight_id current) of
                    Some prior \<Rightarrow> mergeNames current prior | None \<Rightarrow> current);
               current = Flight (fdata current) None
           in place (flight_id current) current) mapped ([], Map.empty)))"

definition archived :: "flight \<Rightarrow> flight" where
  "archived prior = Flight ((fdata prior)\<lparr>f_path_sync := None\<rparr>) None"

definition NextHistory :: "flight list \<Rightarrow> flight \<Rightarrow> flight list" where
  "NextHistory existing prior = keep_last MaxHistory (existing @ [archived prior])"

section \<open>Pages\<close>

lemma Paginate_nat:
  assumes start: "(pageNumber - 1) * of_nat l = (of_nat s :: gint)"
    and e: "s + l < 2 ^ 63" and xs: "length xs < 2 ^ 63"
  shows "Paginate (Some xs) pageNumber (of_nat l) = Some (take l (drop s xs))"
proof -
  have "s < 2 ^ 63" using e by linarith
  note sints = sint_of_nat [OF this] sint_of_nat [OF e] sint_of_nat [OF xs]
  have end': "of_nat s + of_nat l = (of_nat (s + l) :: gint)" by simp
  have "nat (int (s + l) - int s) = l" "nat (int (length xs) - int s) = length xs - s"
    by linarith+
  then show ?thesis
    using sints by (auto simp: Paginate_def Let_def start end' simp del: of_nat_add)
qed

lemma Paginate_page:
  assumes "1 \<le> n" and n: "n * l < 2 ^ 63" and xs: "length xs < 2 ^ 63"
  shows "Paginate (Some xs) (of_nat n) (of_nat l) = Some (take l (drop ((n - 1) * l) xs))"
proof (rule Paginate_nat [OF _ _ xs])
  have "of_nat n - 1 = (of_nat (n - 1) :: gint)" using \<open>1 \<le> n\<close> by simp
  then show "(of_nat n - 1) * of_nat l = (of_nat ((n - 1) * l) :: gint)" by simp
  show "(n - 1) * l + l < 2 ^ 63" using \<open>1 \<le> n\<close> n by (cases n) (simp_all add: add.commute)
qed

lemma concat_pages: "concat (map (\<lambda>i. take l (drop (i * l) xs)) [0..<k]) = take (k * l) xs"
  by (induction k) (simp_all add: take_add [symmetric] add.commute)

lemma pages_cover:
  assumes "length xs \<le> k * l" and "k * l < 2 ^ 63"
  shows "concat (map (\<lambda>i. the (Paginate (Some xs) (of_nat (Suc i)) (of_nat l))) [0..<k]) = xs"
proof -
  have "the (Paginate (Some xs) (of_nat (Suc i)) (of_nat l)) = take l (drop (i * l) xs)" if "i < k" for i
  proof -
    have "Suc i * l \<le> k * l" using that by (intro mult_le_mono1) simp
    with assms have "Suc i * l < 2 ^ 63" by linarith
    moreover have "length xs < 2 ^ 63" using assms by linarith
    ultimately show ?thesis using Paginate_page [of "Suc i" l xs] by simp
  qed
  then have "map (\<lambda>i. the (Paginate (Some xs) (of_nat (Suc i)) (of_nat l))) [0..<k]
      = map (\<lambda>i. take l (drop (i * l) xs)) [0..<k]"
    by (intro map_cong) auto
  then show ?thesis using assms by (simp only: concat_pages) simp
qed

text \<open>The value of a 64-bit \<open>int\<close> that wraps around.\<close>

definition wrapped :: "int \<Rightarrow> int" where
  "wrapped k = (k + 2 ^ 63) mod 2 ^ 64 - 2 ^ 63"

lemma sint_wrapped: "sint (word_of_int k :: gint) = wrapped k"
proof -
  have "sint (word_of_int k :: gint) = signed_take_bit 63 k" by transfer simp
  then show ?thesis by (simp add: wrapped_def signed_take_bit_eq_take_bit_shift take_bit_eq_mod)
qed

lemma wrapped_small: "- (2 ^ 63) \<le> k \<Longrightarrow> k < 2 ^ 63 \<Longrightarrow> wrapped k = k"
  unfolding wrapped_def by (subst mod_pos_pos_trivial) simp_all

lemma wrapped_past: "2 ^ 63 \<le> k \<Longrightarrow> k < 2 ^ 64 \<Longrightarrow> wrapped k = k - 2 ^ 64"
proof -
  assume k: "2 ^ 63 \<le> k" "k < 2 ^ 64"
  have "(k + 2 ^ 63) mod 2 ^ 64 = (k + 2 ^ 63 - 2 ^ 64) mod 2 ^ 64" by (rule minus_mod_self2 [symmetric])
  also have "\<dots> = k + 2 ^ 63 - 2 ^ 64" by (rule mod_pos_pos_trivial) (use k in simp_all)
  finally show ?thesis by (simp add: wrapped_def)
qed

text \<open>Every positive page number and length, whether or not the product fits.\<close>

lemma Paginate_every_page:
  assumes "1 \<le> sint pageNumber" and "1 \<le> sint pageLength" and xs: "length xs < 2 ^ 63"
  shows "Paginate (Some xs) pageNumber pageLength =
    (let start = wrapped ((sint pageNumber - 1) * sint pageLength) in
     if start < 0 \<or> int (length xs) \<le> start then Some []
     else if start + sint pageLength < 2 ^ 63 then Some (take (nat (sint pageLength)) (drop (nat start) xs))
     else None)"
proof -
  define l where "l = sint pageLength"
  define s where "s = wrapped ((sint pageNumber - 1) * l)"
  have "word_of_int ((sint pageNumber - 1) * l) = (pageNumber - 1) * pageLength" by (simp add: l_def)
  then have start: "sint ((pageNumber - 1) * pageLength) = s" by (metis s_def sint_wrapped)
  have "word_of_int (s + l) = (pageNumber - 1) * pageLength + pageLength"
    by (simp add: l_def start [symmetric])
  then have "sint ((pageNumber - 1) * pageLength + pageLength) = wrapped (s + l)" by (metis sint_wrapped)
  moreover have l: "1 \<le> l" "l < 2 ^ 63" using assms(2) sint_lt [of pageLength] by (simp_all add: l_def)
  moreover have "s < 2 ^ 63" using sint_lt [of "(pageNumber - 1) * pageLength"] start by simp
  moreover have "sint (of_nat (length xs) :: gint) = int (length xs)" by (rule sint_of_nat [OF xs])
  ultimately show ?thesis
    using start wrapped_small [of "s + l"] wrapped_past [of "s + l"]
    by (auto simp: Paginate_def Let_def l_def [symmetric] s_def [symmetric] not_less)
qed

section \<open>Filters\<close>

lemma ParsePilotStateName_iff:
  "ParsePilotStateName n = (n, True) \<and> n \<in> set PilotStateNames \<or>
   ParsePilotStateName n = ('''', False) \<and> n \<notin> set PilotStateNames"
  by (auto simp: ParsePilotStateName_def PilotStateNames_def pilotStateNames_def)

lemma NameForPilotState_known: "NameForPilotState c \<in> set PilotStateNames"
  by (simp add: NameForPilotState_def PilotStateNames_def pilotStateNames_def)

lemma ContainsFold_blank: "trim_space q = [] \<Longrightarrow> ContainsFold uni v q"
  by (simp add: ContainsFold_def)

lemma ContainsFold_trim [simp]: "ContainsFold uni v (trim_space q) = ContainsFold uni v q"
  by (simp add: ContainsFold_def)

lemma ContainsFold_ascii:
  assumes "is_ascii v" and "is_ascii q"
  shows "ContainsFold uni v q \<longleftrightarrow>
    (\<exists>a b. map ascii_lower v = a @ map ascii_lower (trim_space q) @ b)"
  using assms by (auto simp: ContainsFold_def Let_def to_lower_def contains_iff)

section \<open>Mapped values\<close>

text \<open>The signed value of a finite number.\<close>

definition signed_value :: "bool \<Rightarrow> rat \<Rightarrow> rat" where
  "signed_value s m = (if s then - m else m)"

lemma to_int_round:
  assumes "0 \<le> m" and "m \<le> 2 ^ 40"
  shows "\<bar>of_int (sint (to_int oob (math_round (Fin s m)))) - signed_value s m\<bar> \<le> 1 / 2"
proof -
  define k where "k = \<lfloor>m + 1 / 2\<rfloor>"
  have k: "\<bar>of_int k - m\<bar> \<le> (1 / 2 :: rat)" using round_half_error [of m] by (simp add: k_def)
  with assms have "of_int k \<le> (2 :: rat) ^ 40 + 1" by linarith
  then have "of_int k \<le> (of_int (2 ^ 40 + 1) :: rat)" by simp
  then have "k \<le> 2 ^ 40 + 1" by (simp only: of_int_le_iff)
  moreover have "0 \<le> k" using assms by (simp add: k_def)
  ultimately have "in_int64 k" "in_int64 (- k)" by (simp_all add: in_int64_def)
  then have "sint (to_int oob (math_round (Fin s m))) = (if s then - k else k)"
    by (simp add: Let_def sint_of_in_int64 flip: k_def of_int_minus)
  with k show ?thesis by (auto simp: signed_value_def abs_if split: if_splits)
qed

lemma MapFlight_simps:
  "flight_id (MapFlight oob u s l e now) = u_flight_id u"
  "f_session_id (fdata (MapFlight oob u s l e now)) = s_id s"
  "f_normalized_name (fdata (MapFlight oob u s l e now)) = s_normalized s"
  "f_latitude (fdata (MapFlight oob u s l e now)) = round_to 10000 (u_latitude u)"
  "f_longitude (fdata (MapFlight oob u s l e now)) = round_to 10000 (u_longitude u)"
  "f_altitude (fdata (MapFlight oob u s l e now)) = to_int oob (math_round (u_altitude u))"
  "f_speed (fdata (MapFlight oob u s l e now)) = to_int oob (math_round (u_speed u))"
  "f_vertical_speed (fdata (MapFlight oob u s l e now)) = round_to 10 (u_vertical_speed u)"
  "f_track (fdata (MapFlight oob u s l e now)) = round_to 10 (u_track u)"
  "f_heading (fdata (MapFlight oob u s l e now)) = round_to 10 (u_heading u)"
  "f_last_report (fdata (MapFlight oob u s l e now)) = parseLastReport (u_last_report u) now"
  "n_speed (f_normalized (fdata (MapFlight oob u s l e now))) =
     show_int (sint (to_int oob (math_round (u_speed u)))) @ '' kts''"
  "n_vertical_speed (f_normalized (fdata (MapFlight oob u s l e now))) =
     format_f1 (round_to 10 (u_vertical_speed u)) @ '' ft/min''"
  "n_pilot_state (f_normalized (fdata (MapFlight oob u s l e now))) = NameForPilotState (u_pilot_state u)"
  "fhistory (MapFlight oob u s l e now) = None"
  by (simp_all add: MapFlight_def Let_def split: prod.splits)

definition first_name :: "string list \<Rightarrow> string" where
  "first_name names = (case filter (\<lambda>n. n \<noteq> '''') names of [] \<Rightarrow> '''' | n # _ \<Rightarrow> n)"

definition opt_name :: "('a \<Rightarrow> string) \<Rightarrow> 'a option \<Rightarrow> string" where
  "opt_name name x = (case x of None \<Rightarrow> '''' | Some y \<Rightarrow> name y)"

lemma MapFlight_names:
  "f_aircraft_name (fdata (MapFlight oob u s l e now)) =
     first_name [opt_name gl_aircraft_name l, opt_name (f_aircraft_name \<circ> fdata) e]"
  "f_livery_name (fdata (MapFlight oob u s l e now)) =
     first_name [opt_name gl_livery_name l, opt_name (f_livery_name \<circ> fdata) e]"
  by (cases l; cases e; simp add: MapFlight_def first_name_def opt_name_def Let_def)+

lemma MapFlight_vertical:
  assumes "u_vertical_speed u = Fin s m" and "0 \<le> m" and "m \<le> 2 ^ 40"
  obtains k where "0 \<le> k" "\<bar>of_int k - m * 10\<bar> \<le> 1 / 2 + (m * 10 + 1) / 2 ^ 53"
    "n_vertical_speed (f_normalized (fdata (MapFlight oob u ses l e now))) =
       (if s then ''-'' else '''') @ show_nat (nat k div 10) @ ''.'' @ show_nat (nat k mod 10) @ '' ft/min''"
proof -
  obtain k v where v: "round_to 10 (Fin s m) = Fin s v" "0 \<le> k"
    "\<bar>of_int k - m * 10\<bar> \<le> 1 / 2 + (m * 10 + 1) / 2 ^ 53" "half_even (v * 10) = k"
    by (rule round_to_tenths [OF assms(2,3)])
  then show ?thesis by (intro that [of k]) (simp_all add: MapFlight_simps assms(1) Let_def)
qed

lemma MapFlight_negative_zero:
  assumes "u_vertical_speed u = Fin True m" and "0 \<le> m" and "m \<le> 1 / 25"
  shows "n_vertical_speed (f_normalized (fdata (MapFlight oob u ses l e now))) = ''-0.0 ft/min''"
proof -
  have "m \<le> 2 ^ 40" using assms(3) by simp
  with assms obtain k where k: "0 \<le> k" "\<bar>of_int k - m * 10\<bar> \<le> 1 / 2 + (m * 10 + 1) / 2 ^ 53"
    and t: "n_vertical_speed (f_normalized (fdata (MapFlight oob u ses l e now))) =
       ''-'' @ show_nat (nat k div 10) @ ''.'' @ show_nat (nat k mod 10) @ '' ft/min''"
    using MapFlight_vertical [of u True m oob ses l e now] by auto
  define x where "x = (m * 10 + 1) / (2 ^ 53 :: rat)"
  have "x < 1 / 25" using assms(3) by (simp add: x_def)
  moreover have "of_int k - m * 10 \<le> 1 / 2 + x" using k(2) by (simp add: x_def)
  ultimately have "of_int k < (of_int 1 :: rat)" using assms(3) by simp
  then have "k < 1" by (simp only: of_int_less_iff)
  with k(1) have "k = 0" by simp
  moreover have "show_nat 0 = ''0''" by code_simp
  ultimately show ?thesis by (simp add: t)
qed

section \<open>Merging\<close>

lemma index_flights_last: "index_flights existing = (\<lambda>i. last_with (\<lambda>f. flight_id f) i existing)"
  by (induction existing rule: rev_induct) (auto simp: index_flights_def)

text \<open>What \<open>UpsertFlights\<close> makes of one mapped flight.\<close>

definition upserted :: "flight list \<Rightarrow> flight \<Rightarrow> flight" where
  "upserted existing f =
     (case last_with (\<lambda>f. flight_id f) (flight_id f) existing of
        None \<Rightarrow> Flight (fdata f) None
      | Some prior \<Rightarrow> Flight (fdata (mergeNames f prior)) None)"

lemma mergeNames_id [simp]: "flight_id (mergeNames f prior) = flight_id f"
  by (simp add: mergeNames_def)

lemma upserted_simps [simp]: "flight_id (upserted existing f) = flight_id f" "fhistory (upserted existing f) = None"
  by (simp_all add: upserted_def split: option.split)

lemma UpsertFlights_last_per_key:
  "UpsertFlights existing mapped = last_per_key (\<lambda>f. flight_id f) (map (upserted existing) mapped)"
proof -
  have step: "Flight (fdata (case last_with (\<lambda>f. flight_id f) (flight_id f) existing of
      Some prior \<Rightarrow> mergeNames f prior | None \<Rightarrow> f)) None = upserted existing f" for f
    by (simp add: upserted_def split: option.split)
  have "UpsertFlights existing mapped =
      fst (fold (\<lambda>f. place (flight_id (upserted existing f)) (upserted existing f)) mapped ([], Map.empty))"
    unfolding UpsertFlights_def index_flights_last Let_def step ..
  then show ?thesis
    by (simp only: place_all_map [of "\<lambda>f. flight_id f" "upserted existing"] place_all_last_per_key)
qed

lemma UpsertFlights_distinct: "distinct (map (\<lambda>f. flight_id f) (UpsertFlights existing mapped))"
  by (simp add: UpsertFlights_last_per_key)

lemma UpsertFlights_no_history: "f \<in> set (UpsertFlights existing mapped) \<Longrightarrow> fhistory f = None"
  using set_last_per_key [of "\<lambda>f. flight_id f" "map (upserted existing) mapped"]
  by (auto simp: UpsertFlights_last_per_key)

lemma UpsertFlights_ids: "(\<lambda>f. flight_id f) ` set (UpsertFlights existing mapped) = (\<lambda>f. flight_id f) ` set mapped"
proof -
  have "set (map (\<lambda>f. flight_id f) (UpsertFlights existing mapped)) = set (map (\<lambda>f. flight_id f) mapped)"
    by (simp only: UpsertFlights_last_per_key map_last_per_key set_first_keys map_map o_def upserted_simps)
  then show ?thesis by simp
qed

section \<open>The history of a flight\<close>

lemma NextHistory_length: "length (NextHistory h prior) \<le> 25"
  by (simp add: NextHistory_def MaxHistory_def)

lemma NextHistory_set: "set (NextHistory h prior) \<subseteq> insert (archived prior) (set h)"
  using set_keep_last [of MaxHistory "h @ [archived prior]"] by (simp add: NextHistory_def)

lemma NextHistory_snoc: "NextHistory h prior = keep_last 24 h @ [archived prior]"
  using keep_last_snoc [of 24 h "archived prior"] by (simp add: NextHistory_def MaxHistory_def)

lemma foldl_NextHistory:
  assumes "length h \<le> 25"
  shows "foldl NextHistory h priors = keep_last 25 (h @ map archived priors)"
proof (induction priors rule: rev_induct)
  case Nil
  then show ?case using assms by simp
next
  case (snoc p priors)
  then show ?case
    by (simp add: NextHistory_def MaxHistory_def keep_last_append del: keep_last_idem)
qed

section \<open>Properties\<close>

definition ex_upstream :: upstream_flight where
  "ex_upstream =
     \<lparr>u_username = Some ''Ana'', u_callsign = ''TAP 1'', u_latitude = Fin False 38, u_longitude = Fin True 9,
      u_altitude = Fin False 35000, u_speed = Fin False 450, u_vertical_speed = Fin True 0,
      u_track = Fin False 90, u_heading = Fin False 90, u_last_report = '''', u_flight_id = ''f1'',
      u_user_id = ''u1'', u_aircraft_id = ''a1'', u_livery_id = ''l1'', u_organization = None,
      u_pilot_state = 0, u_connected = True\<rparr>"

definition ex_mapped :: flight where
  "ex_mapped = MapFlight (\<lambda>_. 0) ex_upstream zero_session None None 0"

text \<open>
  C33: the pages of a list partition it: as long as the last page index times the page length fits
  in an \<open>int\<close>, the pages 1 to \<open>k\<close> put together are the list, nothing repeated or lost.
\<close>

theorem Paginate_partition:
  assumes "length xs \<le> k * l" and "k * l < 2 ^ 63"
  shows "concat (map (\<lambda>i. the (Paginate (Some xs) (of_nat (Suc i)) (of_nat l))) [0..<k]) = xs"
  using assms by (rule pages_cover)

theorem Paginate_partition_witness:
  "concat (map (\<lambda>i. the (Paginate (Some ''abcde'') (of_nat (Suc i)) (of_nat 2))) [0..<3]) = ''abcde''"
  by (rule Paginate_partition) simp_all

text \<open>
  page \<open>n\<close> of length \<open>l\<close> is the \<open>l\<close> items from index \<open>(n - 1) * l\<close>, cut at the end of the
  list, whenever \<open>n * l\<close> fits in an \<open>int\<close>; in particular pagination does not panic there.
\<close>

theorem Paginate_page_contents:
  assumes "1 \<le> n" and "n * l < 2 ^ 63" and "length xs < 2 ^ 63"
  shows "Paginate (Some xs) (of_nat n) (of_nat l) = Some (take l (drop ((n - 1) * l) xs))"
  using assms by (rule Paginate_page)

theorem Paginate_page_contents_witness:
  "Paginate (Some ''abcde'') (of_nat 3) (of_nat 2) = Some ''e''"
  using Paginate_page_contents [of 3 2 "''abcde''"] by simp

text \<open>
  C34: every page, overflow included: for every positive page number and length, the start of the
  page is \<open>(pageNumber - 1) * pageLength\<close> as it wraps around in 64 bits. A start that wrapped to a
  negative number or lies behind the list gives an empty page; a start within the list gives the
  items from there when the end fits in an \<open>int\<close>, even if the start wrapped, so that a page far
  behind the list can return its first items; and it makes \<open>Paginate\<close> panic when the end wraps.
\<close>

theorem Paginate_wraps_around:
  assumes "1 \<le> sint pageNumber" and "1 \<le> sint pageLength" and "length xs < 2 ^ 63"
  shows "let start = ((sint pageNumber - 1) * sint pageLength + 2 ^ 63) mod 2 ^ 64 - 2 ^ 63 in
    Paginate (Some xs) pageNumber pageLength =
      (if start < 0 \<or> int (length xs) \<le> start then Some []
       else if start + sint pageLength < 2 ^ 63 then Some (take (nat (sint pageLength)) (drop (nat start) xs))
       else None)"
  using Paginate_every_page [OF assms] by (simp add: wrapped_def Let_def)

text \<open>
  A panic, an empty page, and a page far behind the list that returns its first items.
\<close>

theorem Paginate_wraps_around_witness:
  "Paginate (Some ''abcd'') 9223372036854775806 9223372036854775807 = None \<and>
   Paginate (Some ''abcd'') 3 4611686018427387904 = Some [] \<and>
   Paginate (Some ''abcd'') 4294967297 4294967296 = Some ''abcd''"
  using Paginate_wraps_around [of 9223372036854775806 9223372036854775807 "''abcd''"]
    Paginate_wraps_around [of 3 4611686018427387904 "''abcd''"]
    Paginate_wraps_around [of 4294967297 4294967296 "''abcd''"] by (simp add: Let_def)

text \<open>
  for ASCII text the filter is a case insensitive search for the trimmed query; a blank query
  accepts every value.
\<close>

theorem ContainsFold_spec:
  assumes "is_ascii v" and "is_ascii q"
  shows "ContainsFold uni v q \<longleftrightarrow>
    (\<exists>a b. map ascii_lower v = a @ map ascii_lower (trim_space q) @ b)"
  using assms by (rule ContainsFold_ascii)

theorem ContainsFold_spec_witness: "ContainsFold id ''TAP 123'' '' tap ''"
proof -
  have "is_ascii ''TAP 123''" "is_ascii '' tap ''" by code_simp+
  note s = ContainsFold_spec [OF this, of id]
  have "map ascii_lower ''TAP 123'' = [] @ map ascii_lower (trim_space '' tap '') @ '' 123''" by code_simp
  with s show ?thesis by blast
qed

text \<open>
  the pilot state names offered as filter options are exactly the accepted ones, and every
  state code is shown under an offered name, so a flight can always be selected by its state.
\<close>

theorem pilot_state_filters:
  "(snd (ParsePilotStateName n) \<longleftrightarrow> n \<in> set PilotStateNames) \<and>
   ParsePilotStateName (NameForPilotState c) = (NameForPilotState c, True)"
  using ParsePilotStateName_iff [of n] ParsePilotStateName_iff [of "NameForPilotState c"]
    NameForPilotState_known [of c] by auto

text \<open>
  the ground speed of an ordinary upstream value is the nearest integer, and the text shown
  for it is that integer in knots.
\<close>

theorem MapFlight_speed_nearest:
  assumes "u_speed u = Fin s m" and "0 \<le> m" and "m \<le> 2 ^ 40"
  shows "\<bar>of_int (sint (f_speed (fdata (MapFlight oob u ses l e now)))) - signed_value s m\<bar> \<le> 1 / 2 \<and>
    n_speed (f_normalized (fdata (MapFlight oob u ses l e now))) =
      show_int (sint (f_speed (fdata (MapFlight oob u ses l e now)))) @ '' kts''"
  using to_int_round [OF assms(2,3)] by (simp add: MapFlight_simps assms(1) del: math_round.simps to_int.simps)

theorem MapFlight_speed_nearest_witness:
  "\<bar>of_int (sint (f_speed (fdata ex_mapped))) - (450 :: rat)\<bar> \<le> 1 / 2"
  using MapFlight_speed_nearest [of ex_upstream False 450 "\<lambda>_. 0" zero_session None None 0]
  by (simp add: ex_mapped_def ex_upstream_def signed_value_def)

text \<open>
  the displayed vertical speed is the sign and a whole number of tenths nearest to the
  upstream value, always with one decimal: rounding to tenths and printing with \<open>%.1f\<close> agree.
\<close>

theorem MapFlight_vertical_speed_text:
  assumes "u_vertical_speed u = Fin s m" and "0 \<le> m" and "m \<le> 2 ^ 40"
  shows "\<exists>k. 0 \<le> k \<and> \<bar>of_int k - m * 10\<bar> \<le> 1 / 2 + (m * 10 + 1) / 2 ^ 53 \<and>
    n_vertical_speed (f_normalized (fdata (MapFlight oob u ses l e now))) =
      (if s then ''-'' else '''') @ show_nat (nat k div 10) @ ''.'' @ show_nat (nat k mod 10) @ '' ft/min''"
  by (rule MapFlight_vertical [OF assms]) blast

theorem MapFlight_vertical_speed_text_witness:
  "\<exists>t. n_vertical_speed (f_normalized (fdata ex_mapped)) = ''-'' @ t @ '' ft/min''"
  using MapFlight_vertical_speed_text [of ex_upstream True 0 "\<lambda>_. 0" zero_session None None 0]
  by (auto simp: ex_mapped_def ex_upstream_def)

text \<open>
  a small negative vertical speed is shown as a negative zero.
\<close>

theorem MapFlight_shows_negative_zero:
  assumes "u_vertical_speed u = Fin True m" and "0 \<le> m" and "m \<le> 1 / 25"
  shows "n_vertical_speed (f_normalized (fdata (MapFlight oob u ses l e now))) = ''-0.0 ft/min''"
  using assms by (rule MapFlight_negative_zero)

theorem MapFlight_shows_negative_zero_witness:
  "n_vertical_speed (f_normalized (fdata (MapFlight (\<lambda>_. 0)
     (ex_upstream\<lparr>u_vertical_speed := Fin True (1 / 32)\<rparr>) zero_session None None 0))) = ''-0.0 ft/min''"
  by (rule MapFlight_shows_negative_zero [where m = "1 / 32"]) simp_all

text \<open>
  a latitude of ordinary magnitude is stored finite, with its sign, at most half of 1/10000 of
  a degree (and the rounding of the two operations) away from the upstream value.
\<close>

theorem MapFlight_latitude:
  assumes "u_latitude u = Fin s m" and "0 \<le> m" and "m \<le> 2 ^ 40"
  shows "\<exists>v. f_latitude (fdata (MapFlight oob u ses l e now)) = Fin s v \<and> 0 \<le> v \<and>
    \<bar>v - m\<bar> \<le> 1 / 20000 + (m + 1) / 2 ^ 51"
proof -
  obtain v where "round_to 10000 (Fin s m) = Fin s v" "0 \<le> v" "\<bar>v - m\<bar> \<le> 1 / (2 * 10000) + (m + 1) / 2 ^ 51"
    by (rule round_to_error [OF assms(2,3), of 10000]) simp_all
  then show ?thesis by (simp add: MapFlight_simps assms(1))
qed

theorem MapFlight_latitude_witness:
  "\<exists>v. f_latitude (fdata ex_mapped) = Fin False v \<and> \<bar>v - 38\<bar> \<le> 1 / 10000"
proof -
  obtain v where v: "f_latitude (fdata ex_mapped) = Fin False v" "\<bar>v - 38\<bar> \<le> 1 / 20000 + (38 + 1) / 2 ^ 51"
    using MapFlight_latitude [of ex_upstream False 38 "\<lambda>_. 0" zero_session None None 0]
    by (auto simp: ex_mapped_def ex_upstream_def)
  then have "\<bar>v - 38\<bar> \<le> 1 / 10000" by simp
  with v show ?thesis by blast
qed

text \<open>
  an aircraft or livery name is that of the cached livery, or, without one, the name the same
  flight had before; it is empty only when both are.
\<close>

theorem MapFlight_name_fallback:
  "f_aircraft_name (fdata (MapFlight oob u s l e now)) =
     first_name [opt_name gl_aircraft_name l, opt_name (f_aircraft_name \<circ> fdata) e] \<and>
   f_livery_name (fdata (MapFlight oob u s l e now)) =
     first_name [opt_name gl_livery_name l, opt_name (f_livery_name \<circ> fdata) e]"
  using MapFlight_names by blast


text \<open>
  C32: folding any number of earlier values of a flight into its history keeps the last 25 of
  them, oldest first, none with a history or a path flag.
\<close>

theorem NextHistory_window:
  assumes "length h \<le> 25"
  shows "foldl NextHistory h priors = keep_last 25 (h @ map archived priors)"
  using assms by (rule foldl_NextHistory)

theorem NextHistory_window_witness:
  "foldl NextHistory [] (replicate 30 ex_mapped) = replicate 25 (archived ex_mapped)"
  using NextHistory_window [of "[]" "replicate 30 ex_mapped"] by (simp add: keep_last_def)

end
