(* ===== verification/FlightsJob.thy ===== *)
theory FlightsJob
  imports Flights SessionsJob
begin

text \<open>
  \<open>internal/jobs/flights\<close>: one run of the job that refreshes the flights of every active session.
  The state is the store and the memo of liveries of the run; upstream's answer per session id,
  the clock and the float conversion are arguments.
\<close>

type_synonym livery_memo = "string \<rightharpoonup> game_livery"

definition lookupLivery ::
  "'r redis \<Rightarrow> string \<Rightarrow> livery_memo \<Rightarrow> 'r store \<Rightarrow> game_livery option \<times> livery_memo \<times> 'r store"
where
  "lookupLivery R liveryID liveries st =
     (if liveryID = '''' then (None, liveries, st)
      else case liveries liveryID of
        Some l \<Rightarrow> (if gl_id l = '''' then None else Some l, liveries, st)
      | None \<Rightarrow>
          (case GetJSON R livery_of_json (KeyLivery liveryID) st of
             (Inl err, st) \<Rightarrow> (None, liveries(liveryID \<mapsto> zero_livery), st)
           | (Inr livery, st) \<Rightarrow> (Some livery, liveries(liveryID \<mapsto> livery), st)))"

fun map_flights ::
  "'r redis \<Rightarrow> (float64 \<Rightarrow> gint) \<Rightarrow> session \<Rightarrow> (string \<rightharpoonup> flight) \<Rightarrow> time \<Rightarrow> upstream_flight list \<Rightarrow>
     livery_memo \<Rightarrow> 'r store \<Rightarrow> flight list \<times> livery_memo \<times> 'r store"
where
  "map_flights R oob session existingByID now [] liveries st = ([], liveries, st)"
| "map_flights R oob session existingByID now (item # items) liveries st =
     (let (livery, liveries, st) = lookupLivery R (u_livery_id item) liveries st;
          f = MapFlight oob item session livery (existingByID (u_flight_id item)) now;
          (fs, liveries, st) = map_flights R oob session existingByID now items liveries st
      in (f # fs, liveries, st))"

definition loadHistory :: "'r redis \<Rightarrow> string \<Rightarrow> flight \<Rightarrow> 'r store \<Rightarrow> flight list \<times> 'r store" where
  "loadHistory R flightID prior st =
     (case GetJSON R history_of_json (KeyFlightHistory flightID) st of
        (Inl err, st) \<Rightarrow> (elems (fhistory prior), st)
      | (Inr snapshot, st) \<Rightarrow> (elems (hs_result snapshot), st))"

definition cacheHistory :: "'r redis \<Rightarrow> (string \<rightharpoonup> flight) \<Rightarrow> flight \<Rightarrow> 'r store \<Rightarrow> 'r store" where
  "cacheHistory R existingByID f st =
     (if flight_id f = '''' then st
      else case existingByID (flight_id f) of
        None \<Rightarrow> st
      | Some prior \<Rightarrow>
          (let (history, st) = loadHistory R (flight_id f) prior st;
               next' = \<lparr>hs_result = Some (NextHistory history prior)\<rparr>
           in snd (SetJSON R history_json (KeyFlightHistory (flight_id f)) next' GameActiveFlightTTL st)))"

definition cacheHistories :: "'r redis \<Rightarrow> (string \<rightharpoonup> flight) \<Rightarrow> flight list \<Rightarrow> 'r store \<Rightarrow> 'r store" where
  "cacheHistories R existingByID current st = fold (cacheHistory R existingByID) current st"

definition refreshSession ::
  "'r redis \<Rightarrow> (float64 \<Rightarrow> gint) \<Rightarrow> (go_error + upstream_flight list) \<Rightarrow> session \<Rightarrow> time \<Rightarrow>
     livery_memo \<Rightarrow> 'r store \<Rightarrow> (go_error + nat) \<times> livery_memo \<times> 'r store"
where
  "refreshSession R oob fetched session now liveries st =
     (case fetched of
        Inl err \<Rightarrow> (Inl (Wrapf ''fetch flights'' err), liveries, st)
      | Inr upstream \<Rightarrow>
          let (res, st) = GetJSON R flights_snapshot_of_json (KeyActiveFlights (s_normalized session)) st;
              existing = (case res of Inl err \<Rightarrow> [] | Inr snapshot \<Rightarrow> elems (fs_result snapshot));
              existingByID = index_flights existing;
              (mapped, liveries, st) = map_flights R oob session existingByID now upstream liveries st;
              snapshot = \<lparr>fs_result = Some (UpsertFlights existing mapped), fs_cached = now\<rparr>;
              st = cacheHistories R existingByID (elems (fs_result snapshot)) st;
              (res, st) = SetJSON R flights_snapshot_json (KeyActiveFlights (s_normalized session))
                snapshot GameActiveFlightTTL st
          in case res of
               Inl err \<Rightarrow> (Inl (Wrapf ''cache flights'' err), liveries, st)
             | Inr _ \<Rightarrow> (Inr (length (elems (fs_result snapshot))), liveries, st))"

fun refresh_sessions ::
  "'r redis \<Rightarrow> (float64 \<Rightarrow> gint) \<Rightarrow> (string \<Rightarrow> go_error + upstream_flight list) \<Rightarrow> time \<Rightarrow>
     session list \<Rightarrow> livery_memo \<Rightarrow> nat \<Rightarrow> 'r store \<Rightarrow> nat \<times> 'r store"
where
  "refresh_sessions R oob fetch now [] liveries counted st = (counted, st)"
| "refresh_sessions R oob fetch now (session # sessions) liveries counted st =
     (if s_id session = '''' \<or> s_normalized session = ''''
      then refresh_sessions R oob fetch now sessions liveries counted st
      else
        let (res, liveries, st) =
              refreshSession R oob (fetch (s_id session)) session now liveries st
        in case res of
             Inl err \<Rightarrow> refresh_sessions R oob fetch now sessions liveries counted st
           | Inr count \<Rightarrow> refresh_sessions R oob fetch now sessions liveries (counted + count) st)"

definition flights_Run ::
  "'r redis \<Rightarrow> (float64 \<Rightarrow> gint) \<Rightarrow> (string \<Rightarrow> go_error + upstream_flight list) \<Rightarrow> time \<Rightarrow> 'r store \<Rightarrow>
     (go_error + unit) \<times> 'r store"
where
  "flights_Run R oob fetch now st =
     (case GetJSON R snapshot_of_json KeyActiveSessions st of
        (Inl err, st) \<Rightarrow> (Inr (), st)
      | (Inr sessionsSnapshot, st) \<Rightarrow>
          if elems (snap_result sessionsSnapshot) = [] then (Inr (), st)
          else
            let (totalFlights, st) =
                  refresh_sessions R oob fetch now (elems (snap_result sessionsSnapshot)) Map.empty 0 st
            in (Inr (), st))"

section \<open>Liveries of one run\<close>

text \<open>While Redis answers, the memo holds what the store holds, or the empty livery where it holds none.\<close>

definition memo_sound ::
  "('r \<Rightarrow> string \<Rightarrow> payload option) \<Rightarrow> livery_memo \<Rightarrow> 'r store \<Rightarrow> bool"
where
  "memo_sound view liveries st \<longleftrightarrow>
     (\<forall>i l. liveries i = Some l \<longrightarrow>
        l = (case stored view livery_of_json (KeyLivery i) st of None \<Rightarrow> zero_livery | Some x \<Rightarrow> x))"

lemma zero_livery_id [simp]: "gl_id zero_livery = []"
  by (simp add: zero_livery_def)

lemma memo_sound_empty [simp]: "memo_sound view Map.empty st"
  by (simp add: memo_sound_def)

lemma memo_sound_upd:
  "memo_sound view m st \<Longrightarrow> l = (case stored view livery_of_json (KeyLivery i) st of None \<Rightarrow> zero_livery | Some x \<Rightarrow> x) \<Longrightarrow>
     memo_sound view (m(i \<mapsto> l)) st"
  by (simp add: memo_sound_def)

lemma lookupLivery_known:
  "i \<in> dom liveries \<Longrightarrow> lookupLivery R i liveries st = (l, liveries', st') \<Longrightarrow> liveries' = liveries \<and> st' = st"
  by (auto simp: lookupLivery_def split: if_splits)

lemma lookupLivery_learns:
  "lookupLivery R i liveries st = (l, liveries', st') \<Longrightarrow> i \<noteq> '''' \<Longrightarrow> i \<in> dom liveries'"
  by (cases "liveries i") (force simp: lookupLivery_def split: prod.splits sum.splits if_splits)+

lemma map_flights_ids:
  "map_flights R oob session existingByID now items liveries st = (fs, liveries', st') \<Longrightarrow>
     map (\<lambda>f. flight_id f) fs = map u_flight_id items"
  by (induction items arbitrary: liveries st fs)
     (auto simp: MapFlight_simps Let_def split: prod.splits)

text \<open>
  Each flight is mapped with its livery as cached, and with none when none is named or cached. Only a
  cached livery without an id of its own may be missing: the empty id also marks a failed read.
\<close>

definition livery_shown ::
  "('r \<Rightarrow> string \<Rightarrow> payload option) \<Rightarrow> 'r store \<Rightarrow> string \<Rightarrow> game_livery option \<Rightarrow> bool"
where
  "livery_shown view st i l \<longleftrightarrow>
     (case (if i = '''' then None else stored view livery_of_json (KeyLivery i) st) of
        None \<Rightarrow> l = None
      | Some livery \<Rightarrow> l = Some livery \<or> (gl_id livery = '''' \<and> l = None))"

definition mapped_with ::
  "('r \<Rightarrow> string \<Rightarrow> payload option) \<Rightarrow> (float64 \<Rightarrow> gint) \<Rightarrow> session \<Rightarrow> (string \<rightharpoonup> flight) \<Rightarrow> time \<Rightarrow> 'r store \<Rightarrow> upstream_flight \<Rightarrow> flight \<Rightarrow> bool"
where
  "mapped_with view oob session existingByID now st item f \<longleftrightarrow>
     (\<exists>l. f = MapFlight oob item session l (existingByID (u_flight_id item)) now \<and>
        livery_shown view st (u_livery_id item) l)"

context redis_service
begin

lemma lookupLivery_frame:
  "lookupLivery R i liveries st = (l, liveries', st') \<Longrightarrow> contents st' = contents st"
  by (auto simp: lookupLivery_def split: option.splits prod.splits sum.splits if_splits dest: GetJSON_frame)

lemma map_flights_frame:
  "map_flights R oob session existingByID now items liveries st = (fs, liveries', st') \<Longrightarrow>
     contents st' = contents st"
  by (induction items arbitrary: liveries st fs)
     (auto simp: Let_def split: prod.splits dest!: lookupLivery_frame)

lemma stored_cong: "contents st' = contents st \<Longrightarrow> stored view dec k st' = stored view dec k st"
  by (simp add: stored_def)

lemma memo_sound_cong: "contents st' = contents st \<Longrightarrow> memo_sound view m st' = memo_sound view m st"
  by (simp add: memo_sound_def stored_def)

end

context live_redis
begin

lemma lookupLivery_up:
  assumes up: "up (server st)" and look: "lookupLivery R i liveries st = (l, liveries', st')"
  shows "up (server st')"
proof -
  obtain got st1 where g: "GetJSON R livery_of_json (KeyLivery i) st = (got, st1)" by fastforce
  have "st' = st \<or> st' = st1"
    using look g by (cases "i = []"; cases "liveries i"; cases got) (simp_all add: lookupLivery_def)
  with up GetJSON_live(1) [OF up g] show ?thesis by auto
qed

lemma lookupLivery_sound:
  assumes up: "up (server st)" and look: "lookupLivery R i liveries st = (l, liveries', st')"
    and sound: "memo_sound view liveries st"
  shows "memo_sound view liveries' st' \<and> livery_shown view st i l"
proof -
  let ?s = "stored view livery_of_json (KeyLivery i) st"
  consider "i = []" | x where "i \<noteq> []" "liveries i = Some x" | "i \<noteq> []" "liveries i = None" by auto
  then show ?thesis
  proof cases
    case 1
    with look sound show ?thesis by (simp add: lookupLivery_def livery_shown_def)
  next
    case 2
    have "x = (case ?s of None \<Rightarrow> zero_livery | Some x \<Rightarrow> x)" using sound 2 by (simp add: memo_sound_def)
    with look sound 2 show ?thesis
      by (auto simp: lookupLivery_def livery_shown_def split: option.splits if_splits)
  next
    case 3
    obtain res st1 where get: "GetJSON R livery_of_json (KeyLivery i) st = (res, st1)" by fastforce
    note live = GetJSON_live(2,3) [OF up get] and same = GetJSON_frame [OF get]
    have stored1: "stored view livery_of_json (KeyLivery i) st1 = ?s" by (rule stored_cong [OF same])
    have sound1: "memo_sound view liveries st1" using sound memo_sound_cong [OF same] by simp
    show ?thesis
    proof (cases ?s)
      case None
      then obtain err where "res = Inl err" using live(2) by blast
      with look 3 get None stored1 sound1 show ?thesis
        by (auto simp: lookupLivery_def livery_shown_def intro!: memo_sound_upd)
    next
      case (Some x)
      then have "res = Inr x" by (rule live(1))
      then have "l = Some x" "liveries' = liveries(i \<mapsto> x)" "st' = st1"
        using look 3 get by (auto simp: lookupLivery_def)
      then show ?thesis
        using 3(1) memo_sound_upd [OF sound1, of x i] by (simp add: livery_shown_def Some stored1)
    qed
  qed
qed

lemma map_flights_spec:
  assumes "up (server st)" and "map_flights R oob session existingByID now items liveries st = (fs, liveries', st')"
    and "memo_sound view liveries st"
  shows "contents st' = contents st \<and> memo_sound view liveries' st' \<and>
    list_all2 (mapped_with view oob session existingByID now st) items fs"
  using assms
proof (induction items arbitrary: liveries st fs)
  case Nil
  then show ?case by simp
next
  case (Cons item items)
  obtain l m1 st1 where 1: "lookupLivery R (u_livery_id item) liveries st = (l, m1, st1)"
    by (cases "lookupLivery R (u_livery_id item) liveries st") auto
  obtain gs where 2: "map_flights R oob session existingByID now items m1 st1 = (gs, liveries', st')"
    and fs: "fs = MapFlight oob item session l (existingByID (u_flight_id item)) now # gs"
    using Cons.prems(2) 1 by (auto simp: Let_def split: prod.splits)
  note sound = lookupLivery_sound [OF Cons.prems(1) 1 Cons.prems(3)]
  have same: "contents st1 = contents st" by (rule lookupLivery_frame [OF 1])
  have "mapped_with view oob session existingByID now st item (hd fs)"
    using sound fs by (auto simp: mapped_with_def)
  moreover have "mapped_with view oob session existingByID now st1 = mapped_with view oob session existingByID now st"
    by (simp add: mapped_with_def livery_shown_def fun_eq_iff stored_def same)
  ultimately show ?case
    using Cons.IH [OF lookupLivery_up [OF Cons.prems(1) 1] 2] sound same fs by simp
qed

end

section \<open>Histories\<close>

text \<open>
  The invariants of what the job stores: a snapshot of a server lists each flight once and embeds
  no history; a history has at most 25 entries, none with a history or a path flag of its own.
\<close>

definition snapshot_flat :: "flights_snapshot \<Rightarrow> bool" where
  "snapshot_flat s \<longleftrightarrow>
     distinct (map (\<lambda>f. flight_id f) (elems (fs_result s))) \<and>
     (\<forall>f \<in> set (elems (fs_result s)). fhistory f = None)"

definition history_flat :: "history_snapshot \<Rightarrow> bool" where
  "history_flat h \<longleftrightarrow>
     length (elems (hs_result h)) \<le> 25 \<and>
     (\<forall>f \<in> set (elems (hs_result h)). fhistory f = None \<and> f_path_sync (fdata f) = None)"

definition flights_inv :: "('r \<Rightarrow> string \<Rightarrow> payload option) \<Rightarrow> 'r store \<Rightarrow> bool" where
  "flights_inv view st \<longleftrightarrow>
     (\<forall>n s. stored view flights_snapshot_of_json (KeyActiveFlights n) st = Some s \<longrightarrow> snapshot_flat s) \<and>
     (\<forall>i h. stored view history_of_json (KeyFlightHistory i) st = Some h \<longrightarrow> history_flat h)"

lemma flight_ok_flat: "fhistory f = None \<Longrightarrow> flight_ok f"
  by (cases f) simp

lemma archived_simps [simp]: "fhistory (archived f) = None" "f_path_sync (fdata (archived f)) = None"
  "flight_id (archived f) = flight_id f"
  by (simp_all add: archived_def)

lemma history_flat_next:
  assumes "\<forall>f \<in> set h. fhistory f = None \<and> f_path_sync (fdata f) = None"
  shows "history_flat \<lparr>hs_result = Some (NextHistory h prior)\<rparr>"
  using assms NextHistory_set [of h prior] NextHistory_length [of h prior]
  by (auto simp: history_flat_def)

lemma history_flat_ok: "history_flat h \<Longrightarrow> flights_ok (hs_result h)"
  by (auto simp: history_flat_def flights_ok_def intro: flight_ok_flat)

lemma snapshot_flat_ok: "snapshot_flat s \<Longrightarrow> flights_ok (fs_result s)"
  by (auto simp: snapshot_flat_def flights_ok_def intro: flight_ok_flat)

lemma snapshot_flat_upsert: "snapshot_flat \<lparr>fs_result = Some (UpsertFlights existing mapped), fs_cached = now\<rparr>"
  by (auto simp: snapshot_flat_def UpsertFlights_distinct UpsertFlights_no_history)

lemma index_flights_mem: "index_flights existing i = Some f \<Longrightarrow> f \<in> set existing \<and> flight_id f = i"
  by (auto simp: index_flights_last dest: last_with_SomeD)

context redis_service
begin

lemma loadHistory_frame: "loadHistory R i prior st = (h, st') \<Longrightarrow> contents st' = contents st"
  by (auto simp: loadHistory_def split: prod.splits sum.splits dest: GetJSON_frame)

lemma loadHistory_cases:
  assumes "loadHistory R i prior st = (h, st')"
  obtains s where "stored view history_of_json (KeyFlightHistory i) st = Some s" "h = elems (hs_result s)"
  | "h = elems (fhistory prior)"
  using assms by (auto simp: loadHistory_def split: prod.splits sum.splits dest: GetJSON_stored)

lemma cacheHistory_frame:
  "k \<noteq> KeyFlightHistory (flight_id f) \<Longrightarrow> contents (cacheHistory R ex f st) k = contents st k"
  by (auto simp: cacheHistory_def Let_def split: option.splits prod.splits dest!: loadHistory_frame)

lemma cacheHistory_inv:
  assumes inv: "flights_inv view st" and flat: "\<And>i p. ex i = Some p \<Longrightarrow> fhistory p = None"
  shows "flights_inv view (cacheHistory R ex f st)"
proof (cases "flight_id f = [] \<or> ex (flight_id f) = None")
  case True
  then have "cacheHistory R ex f st = st" by (auto simp: cacheHistory_def)
  with inv show ?thesis by simp
next
  case False
  then obtain prior where f: "flight_id f \<noteq> []" "ex (flight_id f) = Some prior" by auto
  let ?k = "KeyFlightHistory (flight_id f)"
  obtain h st1 where 1: "loadHistory R (flight_id f) prior st = (h, st1)" by fastforce
  let ?n = "\<lparr>hs_result = Some (NextHistory h prior)\<rparr>"
  obtain res st2 where 2: "SetJSON R history_json ?k ?n GameActiveFlightTTL st1 = (res, st2)" by fastforce
  have st2: "cacheHistory R ex f st = st2" using f 1 2 by (simp add: cacheHistory_def)
  have "\<forall>g \<in> set h. fhistory g = None \<and> f_path_sync (fdata g) = None"
    using 1
  proof (cases rule: loadHistory_cases)
    case (1 s)
    with inv show ?thesis by (auto simp: flights_inv_def history_flat_def)
  next
    case 2
    with flat [OF f(2)] show ?thesis by simp
  qed
  then have n: "history_flat ?n" by (rule history_flat_next)
  have at: "stored view history_of_json ?k st2 = stored view history_of_json ?k st1
      \<or> stored view history_of_json ?k st2 = Some ?n"
    by (rule SetJSON_stored_cases [OF history_codec.codec_axioms history_flat_ok [OF n] 2])
  have other: "stored view history_of_json (KeyFlightHistory i) st2 = stored view history_of_json (KeyFlightHistory i) st1"
    if "i \<noteq> flight_id f" for i
    using that by (intro SetJSON_untouched [OF 2]) simp
  have active: "stored view flights_snapshot_of_json (KeyActiveFlights m) st2 =
      stored view flights_snapshot_of_json (KeyActiveFlights m) st1" for m
    by (rule SetJSON_untouched [OF 2]) simp
  have st1: "stored view dec k st1 = stored view dec k st" for k and dec :: "json \<Rightarrow> 'v option"
    by (rule stored_cong [OF loadHistory_frame [OF 1]])
  have "history_flat s" if "stored view history_of_json (KeyFlightHistory i) st2 = Some s" for i s
    using that at other [of i] inv n by (cases "i = flight_id f") (auto simp: st1 flights_inv_def)
  moreover have "snapshot_flat s" if "stored view flights_snapshot_of_json (KeyActiveFlights m) st2 = Some s" for m s
    using that inv by (auto simp: active st1 flights_inv_def)
  ultimately show ?thesis by (simp add: st2 flights_inv_def)
qed

lemma cacheHistories_inv:
  assumes "flights_inv view st" and "\<And>i p. ex i = Some p \<Longrightarrow> fhistory p = None"
  shows "flights_inv view (cacheHistories R ex fs st)"
  using assms
  by (induction fs arbitrary: st) (simp_all add: cacheHistories_def cacheHistory_inv)

lemma cacheHistories_frame:
  "\<forall>f \<in> set fs. k \<noteq> KeyFlightHistory (flight_id f) \<Longrightarrow> contents (cacheHistories R ex fs st) k = contents st k"
  by (induction fs arbitrary: st) (simp_all add: cacheHistories_def cacheHistory_frame)

end

section \<open>One session\<close>

text \<open>The snapshot a refresh writes, from what it read.\<close>

definition previous_flights :: "(go_error + flights_snapshot) \<Rightarrow> flight list" where
  "previous_flights res = (case res of Inl err \<Rightarrow> [] | Inr snapshot \<Rightarrow> elems (fs_result snapshot))"

definition next_flights :: "flight list \<Rightarrow> flight list \<Rightarrow> time \<Rightarrow> flights_snapshot" where
  "next_flights existing mapped now = \<lparr>fs_result = Some (UpsertFlights existing mapped), fs_cached = now\<rparr>"

lemma next_flights_simps [simp]:
  "fs_result (next_flights existing mapped now) = Some (UpsertFlights existing mapped)"
  "fs_cached (next_flights existing mapped now) = now"
  by (simp_all add: next_flights_def)

lemma refreshSession_steps:
  assumes "refreshSession R oob (Inr upstream) session now liveries st = (res, liveries', st')"
  obtains got st1 mapped st2 set where
    "GetJSON R flights_snapshot_of_json (KeyActiveFlights (s_normalized session)) st = (got, st1)"
    "map_flights R oob session (index_flights (previous_flights got)) now upstream liveries st1 =
       (mapped, liveries', st2)"
    "SetJSON R flights_snapshot_json (KeyActiveFlights (s_normalized session))
       (next_flights (previous_flights got) mapped now) GameActiveFlightTTL
       (cacheHistories R (index_flights (previous_flights got)) (UpsertFlights (previous_flights got) mapped) st2)
       = (set, st')"
    "res = (case set of Inl err \<Rightarrow> Inl (Wrapf ''cache flights'' err)
        | Inr _ \<Rightarrow> Inr (length (UpsertFlights (previous_flights got) mapped)))"
proof -
  obtain got st1 where 1: "GetJSON R flights_snapshot_of_json (KeyActiveFlights (s_normalized session)) st = (got, st1)"
    by fastforce
  let ?e = "previous_flights got"
  obtain mapped m2 st2 where 2: "map_flights R oob session (index_flights ?e) now upstream liveries st1 = (mapped, m2, st2)"
    by (metis prod_cases3)
  obtain set st3 where 3: "SetJSON R flights_snapshot_json (KeyActiveFlights (s_normalized session))
       (next_flights ?e mapped now) GameActiveFlightTTL
       (cacheHistories R (index_flights ?e) (UpsertFlights ?e mapped) st2) = (set, st3)"
    by fastforce
  have "refreshSession R oob (Inr upstream) session now liveries st =
      ((case set of Inl err \<Rightarrow> Inl (Wrapf ''cache flights'' err)
        | Inr _ \<Rightarrow> Inr (length (UpsertFlights ?e mapped))), m2, st3)"
    using 1 2 3
    by (simp add: refreshSession_def Let_def next_flights_def flip: previous_flights_def split: sum.split)
  with assms 1 2 3 show ?thesis by (intro that [of got st1 mapped st2 set]) auto
qed

lemma index_flat:
  assumes "\<And>s. got = Inr s \<Longrightarrow> snapshot_flat s" and "index_flights (previous_flights got) i = Some p"
  shows "fhistory p = None"
  using assms index_flights_mem [OF assms(2)]
  by (cases got) (auto simp: previous_flights_def snapshot_flat_def)

context redis_service
begin

lemma refreshSession_frame:
  assumes r: "refreshSession R oob fetched session now liveries st = (res, liveries', st')"
    and k: "k \<noteq> KeyActiveFlights (s_normalized session)" "\<And>i. k \<noteq> KeyFlightHistory i"
  shows "contents st' k = contents st k"
proof (cases fetched)
  case (Inl err)
  with r show ?thesis by (simp add: refreshSession_def)
next
  case (Inr upstream)
  from r [unfolded Inr] show ?thesis
  proof (cases rule: refreshSession_steps)
    case (1 got st1 mapped st2 set)
    have "contents st2 = contents st1"
      using map_flights_frame [OF 1(2)] .
    with 1 k show ?thesis
      by (auto dest!: SetJSON_other [of _ _ _ _ _ _ _ k] GetJSON_frame simp: cacheHistories_frame)
  qed
qed

lemma refreshSession_failed:
  "refreshSession R oob (Inl err) session now liveries st = (Inl (Wrapf ''fetch flights'' err), liveries, st)"
  by (simp add: refreshSession_def)

lemma refreshSession_inv:
  assumes r: "refreshSession R oob fetched session now liveries st = (res, liveries', st')"
    and inv: "flights_inv view st"
  shows "flights_inv view st'"
proof (cases fetched)
  case (Inl err)
  with r inv show ?thesis by (simp add: refreshSession_def)
next
  case (Inr upstream)
  let ?k = "KeyActiveFlights (s_normalized session)"
  from r [unfolded Inr] show ?thesis
  proof (cases rule: refreshSession_steps)
    case (1 got st1 mapped st2 set)
    let ?e = "previous_flights got"
    let ?st3 = "cacheHistories R (index_flights ?e) (UpsertFlights ?e mapped) st2"
    have same: "contents st2 = contents st"
      using map_flights_frame [OF 1(2)] GetJSON_frame [OF 1(1)] by simp
    then have "flights_inv view st2" using inv by (simp add: flights_inv_def stored_def)
    moreover have "snapshot_flat s" if "got = Inr s" for s
      using inv GetJSON_stored [of flights_snapshot_of_json ?k st s st1] 1(1) that by (auto simp: flights_inv_def)
    then have "fhistory p = None" if "index_flights ?e i = Some p" for i p
      using that by (rule index_flat)
    ultimately have inv3: "flights_inv view ?st3"
      by (rule cacheHistories_inv)
    have flat: "snapshot_flat (next_flights ?e mapped now)"
      by (simp add: next_flights_def snapshot_flat_upsert)
    have at: "stored view flights_snapshot_of_json ?k st' = stored view flights_snapshot_of_json ?k ?st3
        \<or> stored view flights_snapshot_of_json ?k st' = Some (next_flights ?e mapped now)"
      by (rule SetJSON_stored_cases [OF flights_snapshot_codec.codec_axioms snapshot_flat_ok [OF flat] 1(3)])
    have other: "stored view flights_snapshot_of_json (KeyActiveFlights n) st' =
        stored view flights_snapshot_of_json (KeyActiveFlights n) ?st3" if "n \<noteq> s_normalized session" for n
      using that by (intro SetJSON_untouched [OF 1(3)]) simp
    have hist: "stored view history_of_json (KeyFlightHistory i) st' =
        stored view history_of_json (KeyFlightHistory i) ?st3" for i
      by (rule SetJSON_untouched [OF 1(3)]) simp
    have "snapshot_flat s" if "stored view flights_snapshot_of_json (KeyActiveFlights n) st' = Some s" for n s
      using that at other [of n] inv3 flat by (cases "n = s_normalized session") (auto simp: flights_inv_def)
    then show ?thesis using inv3 by (simp add: flights_inv_def hist)
  qed
qed

lemma mapped_with_cong:
  "contents st' = contents st \<Longrightarrow>
     mapped_with view oob session ex now st' = mapped_with view oob session ex now st"
  by (simp add: mapped_with_def livery_shown_def stored_def fun_eq_iff)

end

section \<open>What can be encoded\<close>

text \<open>Ordinary numbers and a report time with a four digit year.\<close>

definition plain :: "float64 \<Rightarrow> bool" where
  "plain x = (case x of Fin s m \<Rightarrow> 0 \<le> m \<and> m \<le> 2 ^ 40 | _ \<Rightarrow> False)"

definition encodable_item :: "upstream_flight \<Rightarrow> time \<Rightarrow> bool" where
  "encodable_item u now \<longleftrightarrow>
     plain (u_latitude u) \<and> plain (u_longitude u) \<and> plain (u_vertical_speed u) \<and>
     plain (u_track u) \<and> plain (u_heading u) \<and>
     year_in_range (parseLastReport (u_last_report u) now)"

definition finite_flight :: "flight_data \<Rightarrow> bool" where
  "finite_flight d \<longleftrightarrow>
     is_finite (f_latitude d) \<and> is_finite (f_longitude d) \<and> is_finite (f_vertical_speed d) \<and>
     is_finite (f_track d) \<and> is_finite (f_heading d) \<and> year_in_range (f_last_report d)"

lemma round_to_plain: "plain x \<Longrightarrow> 1 \<le> c \<Longrightarrow> c \<le> 2 ^ 20 \<Longrightarrow> is_finite (round_to c x)"
proof -
  assume "plain x" and c: "1 \<le> c" "c \<le> 2 ^ 20"
  then obtain s m where x: "x = Fin s m" "0 \<le> m" "m \<le> 2 ^ 40"
    by (auto simp: plain_def split: float64.splits)
  obtain v where "round_to c (Fin s m) = Fin s v" by (rule round_to_error [OF x(2,3) c])
  with x(1) show ?thesis by simp
qed

lemma finite_MapFlight:
  assumes "encodable_item u now"
  shows "finite_flight (fdata (MapFlight oob u s l e now))"
proof -
  have "(10000 :: rat) \<le> 2 ^ 20" "(10 :: rat) \<le> 2 ^ 20" by simp_all
  with assms show ?thesis
    by (simp add: encodable_item_def finite_flight_def MapFlight_simps round_to_plain)
qed

lemma finite_upserted: "finite_flight (fdata f) \<Longrightarrow> finite_flight (fdata (upserted existing f))"
  by (simp add: finite_flight_def upserted_def mergeNames_def split: option.split)

lemma flight_json_flat:
  assumes "finite_flight (fdata f)" and "fhistory f = None"
  shows "\<exists>j. flight_json f = Some j"
proof -
  obtain nj where "normalized_json (f_normalized (fdata f)) = Some nj"
    by (simp add: normalized_json_def jobj_def enc_defs)
  moreover obtain t where "marshal_time (f_last_report (fdata f)) = Some t"
    using assms by (simp add: finite_flight_def marshal_time_def)
  moreover have "\<exists>j. path_sync_json p = Some j" for p
    by (simp add: path_sync_json_def jobj_def enc_defs)
  ultimately show ?thesis
    using assms
    by (cases f) (auto simp: jobj_def flight_fields_def enc_defs finite_flight_def split: option.splits)
qed

lemma enc_list_total: "(\<And>x. x \<in> set xs \<Longrightarrow> \<exists>j. enc x = Some j) \<Longrightarrow> \<exists>j. enc_list enc xs = Some j"
proof -
  assume "\<And>x. x \<in> set xs \<Longrightarrow> \<exists>j. enc x = Some j"
  then have "those (map enc xs) = Some (map (\<lambda>x. the (enc x)) xs)"
    by (intro those_map_Some) fastforce
  then show ?thesis by (simp add: enc_list_def)
qed

lemma flights_snapshot_encodes:
  assumes "year_in_range now" and "\<And>f. f \<in> set fs \<Longrightarrow> finite_flight (fdata f) \<and> fhistory f = None"
  shows "\<exists>j. flights_snapshot_json \<lparr>fs_result = Some fs, fs_cached = now\<rparr> = Some j"
proof -
  obtain j where "enc_list flight_json fs = Some j"
    using enc_list_total [of fs flight_json] assms(2) flight_json_flat by blast
  with assms(1) show ?thesis
    by (simp add: flights_snapshot_json_def jobj_def enc_defs enc_slice_def marshal_time_def)
qed

lemma next_flights_encodes:
  assumes "year_in_range now" and "\<And>f. f \<in> set mapped \<Longrightarrow> finite_flight (fdata f)"
  shows "\<exists>j. flights_snapshot_json (next_flights existing mapped now) = Some j"
  unfolding next_flights_def
proof (rule flights_snapshot_encodes [OF assms(1)])
  fix f assume f: "f \<in> set (UpsertFlights existing mapped)"
  then obtain g where "g \<in> set mapped" "f = upserted existing g"
    using set_last_per_key [of "\<lambda>f. flight_id f" "map (upserted existing) mapped"]
    by (auto simp: UpsertFlights_last_per_key)
  with assms(2) show "finite_flight (fdata f) \<and> fhistory f = None"
    by (simp add: finite_upserted)
qed

section \<open>One run\<close>

text \<open>The sessions whose flights a run writes under a given key.\<close>

definition eligible :: "session \<Rightarrow> bool" where
  "eligible session \<longleftrightarrow> s_id session \<noteq> '''' \<and> s_normalized session \<noteq> ''''"

definition writes_to ::
  "(string \<Rightarrow> go_error + upstream_flight list) \<Rightarrow> session \<Rightarrow> string \<Rightarrow> bool"
where
  "writes_to fetch session k \<longleftrightarrow>
     eligible session \<and> k = KeyActiveFlights (s_normalized session) \<and>
     (\<exists>upstream. fetch (s_id session) = Inr upstream)"

lemma refresh_sessions_Cons:
  "refresh_sessions R oob fetch now (session # sessions) liveries counted st =
     (if eligible session
      then
        let (res, liveries, st) = refreshSession R oob (fetch (s_id session)) session now liveries st
        in refresh_sessions R oob fetch now sessions liveries
             (case res of Inl err \<Rightarrow> counted | Inr count \<Rightarrow> counted + count) st
      else refresh_sessions R oob fetch now sessions liveries counted st)"
  by (auto simp: eligible_def Let_def split: prod.split sum.split)

declare refresh_sessions.simps(2) [simp del]

lemma flights_Run_cases:
  assumes "flights_Run R oob fetch now st = (res, st')"
  obtains err where "GetJSON R snapshot_of_json KeyActiveSessions st = (Inl err, st')"
  | snap st1 counted where "GetJSON R snapshot_of_json KeyActiveSessions st = (Inr snap, st1)"
      "refresh_sessions R oob fetch now (elems (snap_result snap)) Map.empty 0 st1 = (counted, st')"
proof -
  obtain got st1 where g: "GetJSON R snapshot_of_json KeyActiveSessions st = (got, st1)" by fastforce
  show ?thesis
  proof (cases got)
    case (Inl err)
    with g assms show ?thesis by (intro that(1)) (auto simp: flights_Run_def)
  next
    case (Inr snap)
    with g assms show ?thesis
      by (intro that(2) [of snap st1 "fst (refresh_sessions R oob fetch now (elems (snap_result snap)) Map.empty 0 st1)"])
         (auto simp: flights_Run_def split: if_splits prod.splits)
  qed
qed

lemma flights_Run_result: "fst (flights_Run R oob fetch now st) = Inr ()"
  by (simp add: flights_Run_def split: prod.split sum.split)

context redis_service
begin

lemma refresh_sessions_inv:
  "refresh_sessions R oob fetch now sessions liveries counted st = (n, st') \<Longrightarrow> flights_inv view st \<Longrightarrow>
     flights_inv view st'"
proof (induction sessions arbitrary: liveries counted st)
  case (Cons session sessions)
  obtain res m1 st1 where 1: "refreshSession R oob (fetch (s_id session)) session now liveries st = (res, m1, st1)"
    by (metis prod_cases3)
  from Cons.prems 1 refreshSession_inv [OF 1] Cons.IH show ?case
    by (auto simp: refresh_sessions_Cons split: if_splits)
qed simp

lemma refresh_sessions_frame:
  assumes "refresh_sessions R oob fetch now sessions liveries counted st = (n, st')"
    and "\<forall>session \<in> set sessions. \<not> writes_to fetch session k" and "\<And>i. k \<noteq> KeyFlightHistory i"
  shows "contents st' k = contents st k"
  using assms
proof (induction sessions arbitrary: liveries counted st)
  case (Cons session sessions)
  obtain res m1 st1 where 1: "refreshSession R oob (fetch (s_id session)) session now liveries st = (res, m1, st1)"
    by (metis prod_cases3)
  have "contents st1 k = contents st k" if "eligible session"
  proof (cases "fetch (s_id session)")
    case (Inl err)
    with 1 show ?thesis by (simp add: refreshSession_failed)
  next
    case (Inr upstream)
    with that Cons.prems(2) have "k \<noteq> KeyActiveFlights (s_normalized session)"
      by (auto simp: writes_to_def)
    then show ?thesis by (rule refreshSession_frame [OF 1]) (rule Cons.prems(3))
  qed
  with Cons 1 show ?case by (auto simp: refresh_sessions_Cons split: if_splits)
qed simp

lemma flights_Run_inv:
  assumes r: "flights_Run R oob fetch now st = (res, st')" and inv: "flights_inv view st"
  shows "flights_inv view st'"
  using r
proof (cases rule: flights_Run_cases)
  case (1 err)
  with inv show ?thesis by (simp add: flights_inv_def stored_cong [OF GetJSON_frame])
next
  case (2 snap st1 counted)
  have "flights_inv view st1" using inv 2(1) by (simp add: flights_inv_def stored_cong [OF GetJSON_frame])
  with 2(2) show ?thesis by (rule refresh_sessions_inv)
qed

lemma flights_Run_frame:
  assumes r: "flights_Run R oob fetch now st = (res, st')"
    and w: "\<And>snap session. stored view snapshot_of_json KeyActiveSessions st = Some snap \<Longrightarrow>
      session \<in> set (elems (snap_result snap)) \<Longrightarrow> \<not> writes_to fetch session k"
    and h: "\<And>i. k \<noteq> KeyFlightHistory i"
  shows "contents st' k = contents st k"
  using r
proof (cases rule: flights_Run_cases)
  case (1 err)
  then show ?thesis by (auto dest: GetJSON_frame)
next
  case (2 snap st1 counted)
  have "contents st' k = contents st1 k"
    using w GetJSON_stored [OF 2(1)] by (intro refresh_sessions_frame [OF 2(2)] ballI h) blast
  then show ?thesis by (simp add: GetJSON_frame [OF 2(1)])
qed

end

context live_redis
begin

lemma map_flights_up:
  "up (server st) \<Longrightarrow> map_flights R oob session ex now items liveries st = (fs, liveries', st') \<Longrightarrow> up (server st')"
proof (induction items arbitrary: liveries st fs)
  case (Cons item items)
  obtain l m1 st1 where 1: "lookupLivery R (u_livery_id item) liveries st = (l, m1, st1)"
    by (metis prod_cases3)
  have "up (server st1)" by (rule lookupLivery_up [OF Cons.prems(1) 1])
  with Cons.IH [of st1 m1] Cons.prems(2) 1 show ?case
    by (auto simp: Let_def split: prod.splits)
qed simp

lemma cacheHistory_up:
  assumes "up (server st)"
  shows "up (server (cacheHistory R ex f st))"
proof (cases "flight_id f = [] \<or> ex (flight_id f) = None")
  case True
  with assms show ?thesis by (auto simp: cacheHistory_def)
next
  case False
  then obtain prior where f: "flight_id f \<noteq> []" "ex (flight_id f) = Some prior" by auto
  obtain h st1 where 1: "loadHistory R (flight_id f) prior st = (h, st1)" by fastforce
  have "up (server st1)"
    using 1 assms by (auto simp: loadHistory_def split: prod.splits sum.splits dest: GetJSON_live(1))
  then have "up (server (snd (SetJSON R history_json k n GameActiveFlightTTL st1)))" for k n
    by (rule SetJSON_up [OF _ prod.collapse [symmetric]])
  with f 1 show ?thesis by (simp add: cacheHistory_def)
qed

lemma cacheHistories_up: "up (server st) \<Longrightarrow> up (server (cacheHistories R ex fs st))"
  by (induction fs arbitrary: st) (simp_all add: cacheHistories_def cacheHistory_up)

lemma refreshSession_up:
  assumes up: "up (server st)" and r: "refreshSession R oob fetched session now liveries st = (res, liveries', st')"
  shows "up (server st')"
proof (cases fetched)
  case (Inl err)
  with assms show ?thesis by (simp add: refreshSession_def)
next
  case (Inr upstream)
  from r [unfolded Inr] show ?thesis
  proof (cases rule: refreshSession_steps)
    case (1 got st1 mapped st2 set)
    have "up (server st2)"
      using map_flights_up [OF GetJSON_live(1) [OF up 1(1)] 1(2)] .
    then show ?thesis by (intro SetJSON_up [OF cacheHistories_up 1(3)])
  qed
qed

end

section \<open>A run while the server is up\<close>

definition current_flights ::
  "('r \<Rightarrow> string \<Rightarrow> payload option) \<Rightarrow> string \<Rightarrow> 'r store \<Rightarrow> flight list"
where
  "current_flights view n st =
     (case stored view flights_snapshot_of_json (KeyActiveFlights n) st of
        None \<Rightarrow> [] | Some s \<Rightarrow> elems (fs_result s))"

definition current_history ::
  "('r \<Rightarrow> string \<Rightarrow> payload option) \<Rightarrow> flight \<Rightarrow> 'r store \<Rightarrow> flight list"
where
  "current_history view prior st =
     (case stored view history_of_json (KeyFlightHistory (flight_id prior)) st of
        None \<Rightarrow> elems (fhistory prior) | Some h \<Rightarrow> elems (hs_result h))"

text \<open>What a refresh of one session establishes.\<close>

definition refreshed ::
  "('r \<Rightarrow> string \<Rightarrow> payload option) \<Rightarrow> (float64 \<Rightarrow> gint) \<Rightarrow> session \<Rightarrow> time \<Rightarrow> upstream_flight list \<Rightarrow>
     'r store \<Rightarrow> 'r store \<Rightarrow> bool"
where
  "refreshed view oob session now upstream st st' \<longleftrightarrow>
     (let existing = current_flights view (s_normalized session) st in
      \<exists>mapped.
        list_all2 (mapped_with view oob session (index_flights existing) now st) upstream mapped \<and>
        stored view flights_snapshot_of_json (KeyActiveFlights (s_normalized session)) st' =
          Some (next_flights existing mapped now))"

lemma refreshed_before:
  assumes "view (server st1) (KeyActiveFlights (s_normalized session)) =
      view (server st) (KeyActiveFlights (s_normalized session))"
    and "\<And>i. view (server st1) (KeyLivery i) = view (server st) (KeyLivery i)"
  shows "refreshed view oob session now upstream st1 st' = refreshed view oob session now upstream st st'"
proof -
  have "mapped_with view oob session ex now st1 = mapped_with view oob session ex now st" for ex
    using assms(2) by (simp add: mapped_with_def livery_shown_def stored_def fun_eq_iff)
  moreover have "current_flights view (s_normalized session) st1 = current_flights view (s_normalized session) st"
    using assms(1) by (simp add: current_flights_def stored_def)
  ultimately show ?thesis by (simp add: refreshed_def)
qed

lemma mapped_with_finite:
  assumes "list_all2 (mapped_with view oob session ex now st) upstream mapped"
    and "\<forall>item \<in> set upstream. encodable_item item now" and "f \<in> set mapped"
  shows "finite_flight (fdata f)"
proof -
  obtain i where i: "i < length mapped" "f = mapped ! i" using assms(3) by (auto simp: in_set_conv_nth)
  then have "i < length upstream" "mapped_with view oob session ex now st (upstream ! i) f"
    using assms(1) by (auto simp: list_all2_conv_all_nth)
  with assms(2) show ?thesis by (auto simp: mapped_with_def intro!: finite_MapFlight)
qed

context live_redis
begin

lemma previous_flights_live:
  assumes "up (server st)" and "GetJSON R flights_snapshot_of_json (KeyActiveFlights n) st = (got, st')"
  shows "previous_flights got = current_flights view n st"
  using GetJSON_live(2,3) [OF assms]
  by (cases "stored view flights_snapshot_of_json (KeyActiveFlights n) st")
     (auto simp: previous_flights_def current_flights_def)

lemma refreshSession_live:
  assumes up: "up (server st)" and sound: "memo_sound view liveries st"
    and r: "refreshSession R oob (Inr upstream) session now liveries st = (res, liveries', st')"
    and enc: "\<forall>item \<in> set upstream. encodable_item item now" "year_in_range now"
  shows "refreshed view oob session now upstream st st'" and "\<exists>n. res = Inr n"
proof -
  show ok: "\<exists>n. res = Inr n"
    using r
  proof (cases rule: refreshSession_steps)
    case (1 got st1 mapped st2 set)
    have "memo_sound view liveries st1" using sound memo_sound_cong [OF GetJSON_frame [OF 1(1)]] by simp
    with 1(2) have m: "list_all2 (mapped_with view oob session (index_flights (previous_flights got)) now st1) upstream mapped"
      using map_flights_spec [OF GetJSON_live(1) [OF up 1(1)]] by blast
    obtain j where j: "flights_snapshot_json (next_flights (previous_flights got) mapped now) = Some j"
      using next_flights_encodes [OF enc(2)] mapped_with_finite [OF m enc(1)] by blast
    have "up (server st2)" using map_flights_up [OF GetJSON_live(1) [OF up 1(1)] 1(2)] .
    then have "set = Inr ()" by (intro SetJSON_live(2) [OF cacheHistories_up 1(3) j])
    with 1(4) show ?thesis by simp
  qed
  let ?e = "current_flights view (s_normalized session) st"
  from r show "refreshed view oob session now upstream st st'"
  proof (cases rule: refreshSession_steps)
    case (1 got st1 mapped st2 set)
    have same: "contents st1 = contents st" by (rule GetJSON_frame [OF 1(1)])
    have e: "previous_flights got = ?e" by (rule previous_flights_live [OF up 1(1)])
    have "memo_sound view liveries st1" using sound memo_sound_cong [OF same] by simp
    with 1(2) have "list_all2 (mapped_with view oob session (index_flights ?e) now st1) upstream mapped"
      using map_flights_spec [OF GetJSON_live(1) [OF up 1(1)]] e by metis
    then have "list_all2 (mapped_with view oob session (index_flights ?e) now st) upstream mapped"
      by (simp only: mapped_with_cong [OF same])
    moreover obtain u where set: "set = Inr u" using ok 1(4) by (cases set) auto
    have "stored view flights_snapshot_of_json (KeyActiveFlights (s_normalized session)) st' =
        Some (next_flights ?e mapped now)"
      by (rule SetJSON_stored [OF flights_snapshot_codec.codec_axioms _ 1(3) [unfolded set e]])
         (simp add: snapshot_flat_ok [OF snapshot_flat_upsert, simplified])
    ultimately show ?thesis unfolding refreshed_def Let_def by blast
  qed
qed

lemma memo_sound_refresh:
  assumes "memo_sound view liveries st" and up: "up (server st)"
    and "refreshSession R oob fetched session now liveries st = (res, liveries', st')"
  shows "memo_sound view liveries' st'"
proof (cases fetched)
  case (Inl err)
  with assms show ?thesis by (simp add: refreshSession_def)
next
  case (Inr upstream)
  have keys: "contents st' (KeyLivery i) = contents st (KeyLivery i)" for i
    by (rule refreshSession_frame [OF assms(3)]) simp_all
  from assms(3) [unfolded Inr] show ?thesis
  proof (cases rule: refreshSession_steps)
    case (1 got st1 mapped st2 set)
    have same: "contents st1 = contents st" by (rule GetJSON_frame [OF 1(1)])
    have "memo_sound view liveries st1" using assms(1) memo_sound_cong [OF same] by simp
    then have "memo_sound view liveries' st2" "contents st2 = contents st1"
      using map_flights_spec [OF GetJSON_live(1) [OF up 1(1)] 1(2)] by simp_all
    with same keys show ?thesis by (simp add: memo_sound_def stored_def)
  qed
qed

lemma refresh_sessions_live:
  assumes "refresh_sessions R oob fetch now sessions liveries counted st = (n, st')"
    and "up (server st)" and "memo_sound view liveries st"
    and "session \<in> set sessions" and "eligible session"
    and "distinct (map s_normalized sessions)" and "fetch (s_id session) = Inr upstream"
    and enc: "\<forall>item \<in> set upstream. encodable_item item now" "year_in_range now"
  shows "refreshed view oob session now upstream st st'"
  using assms(1-7)
proof (induction sessions arbitrary: liveries counted st)
  case (Cons s sessions)
  let ?k = "KeyActiveFlights (s_normalized session)"
  obtain res m1 st1 where 1: "refreshSession R oob (fetch (s_id s)) s now liveries st = (res, m1, st1)"
    by (metis prod_cases3)
  show ?case
  proof (cases "s = session")
    case True
    obtain c where rest: "refresh_sessions R oob fetch now sessions m1 c st1 = (n, st')"
      using Cons.prems(1,5) 1 True by (auto simp: refresh_sessions_Cons)
    have "contents st' ?k = contents st1 ?k"
      using Cons.prems(6) True
      by (intro refresh_sessions_frame [OF rest]) (auto simp: writes_to_def)
    moreover have "refreshed view oob session now upstream st st1"
      using refreshSession_live(1) [OF Cons.prems(2,3) _ enc] 1 Cons.prems(7) True by simp
    ultimately show ?thesis by (simp add: refreshed_def stored_def)
  next
    case False
    then have mem: "session \<in> set sessions" "s_normalized s \<noteq> s_normalized session"
      "distinct (map s_normalized sessions)"
      using Cons.prems(4,6) by (auto simp: image_iff)
    show ?thesis
    proof (cases "eligible s")
      case True
      obtain c where rest: "refresh_sessions R oob fetch now sessions m1 c st1 = (n, st')"
        using Cons.prems(1) 1 True by (auto simp: refresh_sessions_Cons)
      have "refreshed view oob session now upstream st1 st'"
        by (rule Cons.IH [OF rest refreshSession_up [OF Cons.prems(2) 1] memo_sound_refresh [OF Cons.prems(3,2) 1]
          mem(1) Cons.prems(5) mem(3) Cons.prems(7)])
      moreover have "contents st1 ?k = contents st ?k"
        using mem(2) by (intro refreshSession_frame [OF 1]) auto
      moreover have "contents st1 (KeyLivery i) = contents st (KeyLivery i)" for i
        by (rule refreshSession_frame [OF 1]) simp_all
      ultimately show ?thesis using refreshed_before [of view st1 session st oob now upstream st'] by blast
    next
      case False
      with Cons.prems(1) have "refresh_sessions R oob fetch now sessions liveries counted st = (n, st')"
        by (simp add: refresh_sessions_Cons)
      from Cons.IH [OF this Cons.prems(2,3) mem(1) Cons.prems(5) mem(3) Cons.prems(7)] show ?thesis .
    qed
  qed
qed simp

lemma flights_Run_live:
  assumes r: "flights_Run R oob fetch now st = (res, st')" and up: "up (server st)"
    and snap: "stored view snapshot_of_json KeyActiveSessions st = Some snap"
    and "session \<in> set (elems (snap_result snap))" and "eligible session"
    and "distinct (map s_normalized (elems (snap_result snap)))"
    and "fetch (s_id session) = Inr upstream"
    and enc: "\<forall>item \<in> set upstream. encodable_item item now" "year_in_range now"
  shows "refreshed view oob session now upstream st st'"
  using r
proof (cases rule: flights_Run_cases)
  case (1 err)
  with GetJSON_live(2) [OF up 1 snap] show ?thesis by simp
next
  case (2 snap' st1 counted)
  have same: "contents st1 = contents st" by (rule GetJSON_frame [OF 2(1)])
  have "snap' = snap" using GetJSON_live(2) [OF up 2(1) snap] by simp
  then have "refreshed view oob session now upstream st1 st'"
    using refresh_sessions_live [OF 2(2) GetJSON_live(1) [OF up 2(1)] _ _ _ _ _ enc] assms(4-7) by simp
  then show ?thesis using refreshed_before [of view st1 session st oob now upstream st'] same by simp
qed

end

section \<open>The history after a refresh\<close>

lemma finite_archived: "finite_flight (fdata p) \<Longrightarrow> finite_flight (fdata (archived p))"
  by (simp add: finite_flight_def archived_def)

lemma history_encodes:
  assumes "\<forall>f \<in> set h. finite_flight (fdata f) \<and> fhistory f = None" and "finite_flight (fdata prior)"
  shows "\<exists>j. history_json \<lparr>hs_result = Some (NextHistory h prior)\<rparr> = Some j"
proof -
  have "finite_flight (fdata f) \<and> fhistory f = None" if "f \<in> set (NextHistory h prior)" for f
    using that assms NextHistory_set [of h prior] by (auto simp: finite_archived)
  then obtain j where "enc_list flight_json (NextHistory h prior) = Some j"
    using enc_list_total [of "NextHistory h prior" flight_json] flight_json_flat by blast
  then show ?thesis by (simp add: history_json_def jobj_def enc_defs enc_slice_def)
qed

lemma flat_next_ok:
  assumes "\<forall>f \<in> set h. fhistory f = None"
  shows "flights_ok (Some (NextHistory h prior))"
  using assms NextHistory_set [of h prior] by (auto simp: flights_ok_def intro!: flight_ok_flat)

lemma current_flights_flat:
  assumes "flights_inv view st" and "f \<in> set (current_flights view n st)"
  shows "fhistory f = None"
proof (cases "stored view flights_snapshot_of_json (KeyActiveFlights n) st")
  case None
  with assms(2) show ?thesis by (simp add: current_flights_def)
next
  case (Some s)
  with assms show ?thesis by (simp add: current_flights_def flights_inv_def snapshot_flat_def)
qed

lemma current_history_flat:
  assumes "flights_inv view st" and "fhistory prior = None" and "f \<in> set (current_history view prior st)"
  shows "fhistory f = None"
proof (cases "stored view history_of_json (KeyFlightHistory (flight_id prior)) st")
  case None
  with assms show ?thesis by (simp add: current_history_def)
next
  case (Some h)
  then have "history_flat h" using assms(1) unfolding flights_inv_def by blast
  with Some assms(3) show ?thesis by (simp add: current_history_def history_flat_def)
qed

context live_redis
begin

lemma loadHistory_live:
  assumes up: "up (server st)" and "loadHistory R (flight_id prior) prior st = (h, st')"
  shows "h = current_history view prior st" and "up (server st')"
proof -
  obtain got st1 where g: "GetJSON R history_of_json (KeyFlightHistory (flight_id prior)) st = (got, st1)"
    by fastforce
  show "h = current_history view prior st" "up (server st')"
    using assms(2) g GetJSON_live [OF up g]
    by (cases "stored view history_of_json (KeyFlightHistory (flight_id prior)) st";
        auto simp: loadHistory_def current_history_def split: sum.splits)+
qed

lemma cacheHistory_live:
  assumes up: "up (server st)" and f: "flight_id f = flight_id prior" "flight_id f \<noteq> []"
    and prior: "ex (flight_id f) = Some prior"
    and h: "\<forall>g \<in> set (current_history view prior st). finite_flight (fdata g) \<and> fhistory g = None"
    and fin: "finite_flight (fdata prior)"
  shows "stored view history_of_json (KeyFlightHistory (flight_id f)) (cacheHistory R ex f st) =
    Some \<lparr>hs_result = Some (NextHistory (current_history view prior st) prior)\<rparr>"
proof -
  obtain h' st1 where 1: "loadHistory R (flight_id prior) prior st = (h', st1)" by fastforce
  note h' = loadHistory_live [OF up 1]
  let ?n = "\<lparr>hs_result = Some (NextHistory h' prior)\<rparr>"
  obtain j where j: "history_json ?n = Some j" using history_encodes [OF _ fin] h h' by blast
  obtain res st2 where 2: "SetJSON R history_json (KeyFlightHistory (flight_id f)) ?n GameActiveFlightTTL st1 = (res, st2)"
    by fastforce
  have "cacheHistory R ex f st = st2" using f prior 1 2 by (simp add: cacheHistory_def)
  moreover have "res = Inr ()" by (rule SetJSON_live(2) [OF h'(2) 2 j])
  moreover have "flights_ok (Some (NextHistory h' prior))" using h h'(1) by (intro flat_next_ok) simp
  ultimately show ?thesis
    using SetJSON_stored [OF history_codec.codec_axioms _ 2 [unfolded \<open>res = Inr ()\<close>]] h'(1) by simp
qed

lemma cacheHistories_live:
  assumes "up (server st)" and "distinct (map (\<lambda>f. flight_id f) fs)" and "f \<in> set fs"
    and f: "flight_id f = flight_id prior" "flight_id f \<noteq> []" "ex (flight_id f) = Some prior"
    and h: "\<forall>g \<in> set (current_history view prior st). finite_flight (fdata g) \<and> fhistory g = None"
    and fin: "finite_flight (fdata prior)"
  shows "stored view history_of_json (KeyFlightHistory (flight_id f)) (cacheHistories R ex fs st) =
    Some \<lparr>hs_result = Some (NextHistory (current_history view prior st) prior)\<rparr>"
  using assms(1-3) h
proof (induction fs arbitrary: st)
  case (Cons g fs)
  have fold: "cacheHistories R ex (g # fs) st = cacheHistories R ex fs (cacheHistory R ex g st)"
    by (simp add: cacheHistories_def)
  show ?case
  proof (cases "flight_id g = flight_id f")
    case True
    with Cons.prems(2,3) have "g = f" "\<forall>x \<in> set fs. flight_id x \<noteq> flight_id f"
      by (auto simp: image_iff)
    then have "contents (cacheHistories R ex fs (cacheHistory R ex g st)) (KeyFlightHistory (flight_id f)) =
        contents (cacheHistory R ex g st) (KeyFlightHistory (flight_id f))"
      by (intro cacheHistories_frame) auto
    moreover note cacheHistory_live [where ex = ex, OF Cons.prems(1) f Cons.prems(4) fin]
    ultimately show ?thesis using \<open>g = f\<close> fold by (simp add: stored_def)
  next
    case False
    have same: "contents (cacheHistory R ex g st) (KeyFlightHistory (flight_id f)) = contents st (KeyFlightHistory (flight_id f))"
      using False by (intro cacheHistory_frame) simp
    then have cur: "current_history view prior (cacheHistory R ex g st) = current_history view prior st"
      by (simp add: current_history_def stored_def f(1))
    have "f \<in> set fs" using Cons.prems(3) False by auto
    then show ?thesis
      using Cons.IH [OF cacheHistory_up [OF Cons.prems(1)]] Cons.prems(2,4) by (simp add: fold cur)
  qed
qed simp

lemma refreshSession_history:
  assumes up: "up (server st)" and inv: "flights_inv view st"
    and r: "refreshSession R oob (Inr upstream) session now liveries st = (res, liveries', st')"
    and prior: "index_flights (current_flights view (s_normalized session) st) i = Some prior"
    and i: "i \<in> u_flight_id ` set upstream" "i \<noteq> []"
    and fin: "\<forall>g \<in> set (prior # current_history view prior st). finite_flight (fdata g)"
  shows "stored view history_of_json (KeyFlightHistory i) st' =
    Some \<lparr>hs_result = Some (NextHistory (current_history view prior st) prior)\<rparr>"
  using r
proof (cases rule: refreshSession_steps)
  case (1 got st1 mapped st2 written)
  let ?e = "current_flights view (s_normalized session) st"
  let ?fs = "UpsertFlights ?e mapped"
  have e: "previous_flights got = ?e" by (rule previous_flights_live [OF up 1(1)])
  have same: "contents st2 = contents st"
    using GetJSON_frame [OF 1(1)] map_flights_frame [OF 1(2)] by simp
  then have cur: "current_history view prior st2 = current_history view prior st"
    by (simp add: current_history_def stored_def)
  note pid = index_flights_mem [OF prior]
  have "i \<in> (\<lambda>f. flight_id f) ` set ?fs"
    using i(1) arg_cong [OF map_flights_ids [OF 1(2)], of set] by (simp add: UpsertFlights_ids)
  then obtain f where f: "f \<in> set ?fs" "flight_id f = i" by auto
  have "fhistory prior = None" using current_flights_flat [OF inv] pid by blast
  then have flat: "\<forall>g \<in> set (current_history view prior st). finite_flight (fdata g) \<and> fhistory g = None"
    using fin current_history_flat [OF inv] by simp
  have "up (server st2)" by (rule map_flights_up [OF GetJSON_live(1) [OF up 1(1)] 1(2)])
  then have "stored view history_of_json (KeyFlightHistory i) (cacheHistories R (index_flights ?e) ?fs st2) =
      Some \<lparr>hs_result = Some (NextHistory (current_history view prior st) prior)\<rparr>"
    using cacheHistories_live [of st2 ?fs f prior "index_flights ?e"] f pid i(2) flat fin prior
    by (simp add: UpsertFlights_distinct cur)
  moreover have "stored view history_of_json (KeyFlightHistory i) st' =
      stored view history_of_json (KeyFlightHistory i) (cacheHistories R (index_flights ?e) ?fs st2)"
    by (rule SetJSON_untouched [OF 1(3) [unfolded e]]) simp
  ultimately show ?thesis by simp
qed

end

section \<open>Properties\<close>

definition ex_cached_session :: session where
  "ex_cached_session = stamp_session id 0 ex_session"

lemma ex_prepared: "prepareCurrentSessions id [ex_session] 0 = [ex_cached_session]"
  by code_simp

lemma ex_store:
  "mem_up (server (snd ex_run))"
  "stored mem_view snapshot_of_json KeyActiveSessions (snd ex_run) = Some (Snapshot (Some [ex_cached_session]) 0 None)"
  "stored mem_view flights_snapshot_of_json (KeyActiveFlights n) (snd ex_run) = None"
  "stored mem_view history_of_json (KeyFlightHistory i) (snd ex_run) = None"
proof -
  have run: "sessions_Run mem_redis id (Inr [ex_session]) 0 (store_of mem_empty) = (Inr (), snd ex_run)"
    using ex_run_ok by (simp add: ex_run_def)
  show "mem_up (server (snd ex_run))" by (rule mem_live.sessions_Run_live(2) [OF _ _ _ run]) simp_all
  have miss: "GetJSON mem_redis snapshot_of_json KeyActiveSessions (store_of mem_empty) =
      (Inl ErrMiss, observe ''get'' ''miss'' (store_of mem_empty))"
    by (simp add: GetJSON_def mem_reply_def store_of_def)
  show "stored mem_view snapshot_of_json KeyActiveSessions (snd ex_run) = Some (Snapshot (Some [ex_cached_session]) 0 None)"
    using mem.sessions_Run_snapshot(1) [OF run] by (simp add: miss run_snapshot_def ex_prepared next_snapshot_history_def)
  show "stored mem_view flights_snapshot_of_json (KeyActiveFlights n) (snd ex_run) = None"
    "stored mem_view history_of_json (KeyFlightHistory i) (snd ex_run) = None"
    using mem.sessions_Run_frame [OF run] by (simp_all add: stored_def)
qed

lemma ex_eligible: "eligible ex_cached_session"
  by code_simp

lemma ex_encodable: "encodable_item ex_upstream 0"
proof -
  have "parseLastReport (u_last_report ex_upstream) 0 = 0" by code_simp
  then show ?thesis by (simp add: encodable_item_def plain_def) (simp add: ex_upstream_def)
qed

text \<open>
  C4: while Redis is up, a run of the flights job replaces the snapshot of every eligible session
  whose flights upstream delivered, whether or not the fetches of other sessions fail: the new
  snapshot is stamped with the time of the run and holds the upstream flights mapped one by one,
  each with the livery the cache holds for it, merged by id with the names of the snapshot it
  replaces. Two conditions: no other stored session has the same normalised name, since the later
  one would overwrite the snapshot, and the items can be encoded (ordinary numbers, years of four
  digits), since otherwise nothing is written.
\<close>

theorem flights_Run_refreshes:
  assumes "live_redis R view up" and "up (server st)"
    and "stored view snapshot_of_json KeyActiveSessions st = Some snap"
    and "session \<in> set (elems (snap_result snap))" and "eligible session"
    and "distinct (map s_normalized (elems (snap_result snap)))"
    and "fetch (s_id session) = Inr upstream"
    and "\<forall>item \<in> set upstream. encodable_item item now" and "year_in_range now"
  shows "refreshed view oob session now upstream st (snd (flights_Run R oob fetch now st))"
  by (rule live_redis.flights_Run_live [where fetch = fetch, OF assms(1) prod.collapse [symmetric] assms(2-9)])

theorem flights_Run_refreshes_witness:
  "\<exists>s. stored mem_view flights_snapshot_of_json (KeyActiveFlights (s_normalized ex_cached_session))
      (snd (flights_Run mem_redis (\<lambda>_. 0) (\<lambda>_. Inr [ex_upstream]) 0 (snd ex_run))) = Some s \<and>
    fs_cached s = 0"
proof -
  have "refreshed mem_view (\<lambda>_. 0) ex_cached_session 0 [ex_upstream] (snd ex_run)
      (snd (flights_Run mem_redis (\<lambda>_. 0) (\<lambda>_. Inr [ex_upstream]) 0 (snd ex_run)))"
    using flights_Run_refreshes [OF mem_live.live_redis_axioms ex_store(1,2)] ex_eligible ex_encodable by simp
  then show ?thesis unfolding refreshed_def Let_def by auto
qed

text \<open>
  C24: when a flight of the previous snapshot is still in the air, the refresh appends its previous
  state to the stored history (or to the legacy history embedded in the snapshot, when none is
  stored) and keeps the last 25 entries.
\<close>

theorem refreshSession_appends_history:
  assumes "live_redis R view up" and "up (server st)" and "flights_inv view st"
    and "refreshSession R oob (Inr upstream) session now liveries st = (res, liveries', st')"
    and "index_flights (current_flights view (s_normalized session) st) i = Some prior"
    and "i \<in> u_flight_id ` set upstream" and "i \<noteq> []"
    and "\<forall>g \<in> set (prior # current_history view prior st). finite_flight (fdata g)"
  shows "stored view history_of_json (KeyFlightHistory i) st' =
    Some \<lparr>hs_result = Some (keep_last 24 (current_history view prior st) @ [archived prior])\<rparr>"
  using live_redis.refreshSession_history [OF assms] by (simp add: NextHistory_snoc)

definition ex_snapshot :: flights_snapshot where
  "ex_snapshot = \<lparr>fs_result = Some [ex_mapped], fs_cached = 0\<rparr>"

definition ex_server :: "mem store" where
  "ex_server = store_of (mem_store mem_empty (KeyActiveFlights (s_normalized ex_cached_session))
     (the (flights_snapshot_json ex_snapshot)) 0)"

lemma ex_mapped_facts: "fhistory ex_mapped = None" "flight_id ex_mapped = ''f1''" "finite_flight (fdata ex_mapped)"
  using finite_MapFlight [OF ex_encodable, of "\<lambda>_. 0" zero_session None None]
  by (simp_all add: ex_mapped_def MapFlight_simps) (simp add: ex_upstream_def)

lemma ex_server_stored:
  "stored mem_view flights_snapshot_of_json (KeyActiveFlights n) ex_server =
     (if n = s_normalized ex_cached_session then Some ex_snapshot else None)"
proof -
  obtain j where j: "flights_snapshot_json ex_snapshot = Some j"
    using flights_snapshot_encodes [of 0 "[ex_mapped]"] ex_mapped_facts by (auto simp: ex_snapshot_def)
  have ok: "flights_ok (fs_result ex_snapshot)"
    by (simp add: ex_snapshot_def flights_ok_def flight_ok_flat ex_mapped_facts)
  note dec = flights_snapshot_codec.roundtrip [OF ok j]
  show ?thesis by (simp add: stored_def ex_server_def j dec)
qed

lemma ex_server_facts:
  "mem_up (server ex_server)" "flights_inv mem_view ex_server"
  "current_flights mem_view (s_normalized ex_cached_session) ex_server = [ex_mapped]"
  "current_history mem_view ex_mapped ex_server = []"
proof -
  note active = ex_server_stored
  have hist: "stored mem_view history_of_json (KeyFlightHistory i) ex_server = None" for i
    by (simp add: stored_def ex_server_def)
  show "mem_up (server ex_server)" by (simp add: ex_server_def)
  show "flights_inv mem_view ex_server"
    by (simp add: flights_inv_def active hist snapshot_flat_def ex_snapshot_def ex_mapped_facts)
  show "current_flights mem_view (s_normalized ex_cached_session) ex_server = [ex_mapped]"
    by (simp add: current_flights_def active ex_snapshot_def)
  show "current_history mem_view ex_mapped ex_server = []"
    by (simp add: current_history_def hist ex_mapped_facts)
qed

theorem refreshSession_appends_history_witness:
  "\<exists>st'. (\<exists>res m. refreshSession mem_redis (\<lambda>_. 0) (Inr [ex_upstream]) ex_cached_session 0 Map.empty ex_server = (res, m, st')) \<and>
     stored mem_view history_of_json (KeyFlightHistory ''f1'') st' = Some \<lparr>hs_result = Some [archived ex_mapped]\<rparr>"
proof -
  obtain res m st' where r: "refreshSession mem_redis (\<lambda>_. 0) (Inr [ex_upstream]) ex_cached_session 0 Map.empty ex_server = (res, m, st')"
    by (metis prod_cases3)
  have "stored mem_view history_of_json (KeyFlightHistory ''f1'') st' =
      Some \<lparr>hs_result = Some (keep_last 24 (current_history mem_view ex_mapped ex_server) @ [archived ex_mapped])\<rparr>"
    by (rule refreshSession_appends_history [OF mem_live.live_redis_axioms ex_server_facts(1,2) r])
       (simp_all add: ex_server_facts index_flights_def ex_mapped_facts ex_upstream_def)
  with r show ?thesis by (auto simp: ex_server_facts)
qed

text \<open>
  whatever upstream and the server answer, a run keeps the invariants of everything it
  stores: each server snapshot lists a flight once and embeds no history, and each flight history
  has at most 25 entries without histories or path flags of their own.
\<close>

theorem flights_Run_invariant:
  assumes "redis_service R view" and "flights_inv view st"
  shows "flights_inv view (snd (flights_Run R oob fetch now st))"
  by (rule redis_service.flights_Run_inv [OF assms(1) prod.collapse [symmetric] assms(2)])

theorem flights_Run_invariant_witness:
  "flights_inv mem_view (snd (flights_Run mem_redis (\<lambda>_. 0) (\<lambda>_. Inr [ex_upstream]) 0 (snd ex_run)))"
  by (rule flights_Run_invariant [OF mem.redis_service_axioms]) (simp add: flights_inv_def ex_store)

text \<open>
  C23: failures are isolated: a run leaves alone every entry that is neither a flight history nor
  the snapshot of a server whose flights were fetched; in particular the snapshot of a server whose
  fetch failed stays as it was, and sessions and liveries are never written.
\<close>

theorem flights_Run_isolation:
  assumes "redis_service R view"
    and "\<And>snap session. stored view snapshot_of_json KeyActiveSessions st = Some snap \<Longrightarrow>
      session \<in> set (elems (snap_result snap)) \<Longrightarrow> \<not> writes_to fetch session k"
    and "\<And>i. k \<noteq> KeyFlightHistory i"
  shows "view (server (snd (flights_Run R oob fetch now st))) k = view (server st) k"
  by (rule redis_service.flights_Run_frame [OF assms(1) prod.collapse [symmetric] assms(2,3)])

theorem flights_Run_isolation_witness:
  "mem_view (server (snd (flights_Run mem_redis (\<lambda>_. 0) (\<lambda>_. Inl ErrBackend) 0 (snd ex_run)))) (KeyActiveFlights ''a'') =
   mem_view (server (snd ex_run)) (KeyActiveFlights ''a'')"
  by (rule flights_Run_isolation [OF mem.redis_service_axioms]) (simp_all add: writes_to_def)

text \<open>
  the job never reports a failure to the scheduler: with no cached sessions, with every fetch
  failing and with every write failing it still returns nil.
\<close>

theorem flights_Run_never_fails: "fst (flights_Run R oob fetch now st) = Inr ()"
  by (rule flights_Run_result)

text \<open>
  a run reads each livery from the store at most once: after a lookup, whether it found the
  livery or not, every later lookup of the same id answers from the memo and leaves the store
  untouched. It repeats the answer, except that a livery cached with an empty id of its own is
  returned the first time only.
\<close>

theorem lookupLivery_once:
  assumes "lookupLivery R i liveries st = (l, liveries', st')" and "i \<noteq> ''''" and "liveries i = None"
  shows "lookupLivery R i liveries' st2 =
    ((case l of None \<Rightarrow> None | Some x \<Rightarrow> if gl_id x = '''' then None else Some x), liveries', st2)"
  using assms by (auto simp: lookupLivery_def split: prod.splits sum.splits)

theorem lookupLivery_once_witness:
  "\<exists>m. lookupLivery mem_redis ''l1'' m (snd ex_run) = (None, m, snd ex_run)"
proof -
  have look: "lookupLivery mem_redis ''l1'' Map.empty (store_of mem_empty) =
      (None, [''l1'' \<mapsto> zero_livery], observe ''get'' ''miss'' (store_of mem_empty))"
    by (simp add: lookupLivery_def GetJSON_def mem_reply_def store_of_def)
  show ?thesis
    using lookupLivery_once [OF look, of "snd ex_run"] by auto
qed

end
