(* ===== verification/Encoding.thy ===== *)
theory Encoding
  imports GoStrings
begin

text \<open>
  The byte encodings of the standard library that the tokens use: \<open>encoding/hex\<close> and
  \<open>base64.RawURLEncoding\<close>, with their decoders and round trips. The base64 decoder skips carriage
  returns and line feeds and does not check the unused bits of the last character, as the library.
\<close>

section \<open>Hex\<close>

definition hex_char :: "nat \<Rightarrow> char" where
  "hex_char n = char_of (if n < 10 then n + 48 else n + 87)"

definition hex_val :: "char \<Rightarrow> nat option" where
  "hex_val c =
     (let n = of_char c in
      if 48 \<le> n \<and> n \<le> 57 then Some (n - 48)
      else if 97 \<le> n \<and> n \<le> 102 then Some (n - 87)
      else if 65 \<le> n \<and> n \<le> 70 then Some (n - 55)
      else None)"

fun hex_encode :: "string \<Rightarrow> string" where
  "hex_encode [] = []"
| "hex_encode (c # cs) = hex_char (of_char c div 16) # hex_char (of_char c mod 16) # hex_encode cs"

fun hex_decode :: "string \<Rightarrow> string option" where
  "hex_decode [] = Some []"
| "hex_decode [c] = None"
| "hex_decode (c # d # cs) =
     (case (hex_val c, hex_val d) of
        (Some h, Some l) \<Rightarrow> map_option (\<lambda>r. char_of (16 * h + l) # r) (hex_decode cs)
      | _ \<Rightarrow> None)"

lemma hex_val_char: "n < 16 \<Longrightarrow> hex_val (hex_char n) = Some n"
  by (simp add: hex_val_def hex_char_def Let_def)

lemma of_char_less: "(of_char c :: nat) < 256"
  using of_char_mod_256 [of c, where 'a = nat] mod_less_divisor [of 256 "of_char c :: nat"] by simp

lemma hex_decode_encode [simp]: "hex_decode (hex_encode s) = Some s"
proof (induction s)
  case (Cons c s)
  have "(of_char c :: nat) div 16 < 16"
    by (rule less_mult_imp_div_less) (use of_char_less [of c] in simp)
  moreover have "(of_char c :: nat) mod 16 < 16" by simp
  ultimately show ?case
    using Cons by (simp add: hex_val_char)
qed simp

lemma hex_encode_inj [simp]: "hex_encode s = hex_encode t \<longleftrightarrow> s = t"
  by (metis hex_decode_encode option.inject)

lemma length_hex_encode [simp]: "length (hex_encode s) = 2 * length s"
  by (induction s) simp_all

lemma length_hex_decode: "hex_decode s = Some t \<Longrightarrow> length s = 2 * length t"
  by (induction s arbitrary: t rule: hex_decode.induct) (auto split: option.splits)

section \<open>Base64 for URLs, without padding\<close>

definition b64_char :: "nat \<Rightarrow> char" where
  "b64_char n =
     char_of (if n < 26 then n + 65 else if n < 52 then n + 71 else if n < 62 then n - 4
       else if n = 62 then 45 else 95)"

definition b64_val :: "char \<Rightarrow> nat option" where
  "b64_val c =
     (let n = of_char c in
      if 65 \<le> n \<and> n \<le> 90 then Some (n - 65)
      else if 97 \<le> n \<and> n \<le> 122 then Some (n - 71)
      else if 48 \<le> n \<and> n \<le> 57 then Some (n + 4)
      else if n = 45 then Some 62
      else if n = 95 then Some 63
      else None)"

fun b64_encode :: "string \<Rightarrow> string" where
  "b64_encode [] = []"
| "b64_encode [a] =
     (let a = of_char a in [b64_char (a div 4), b64_char (a mod 4 * 16)])"
| "b64_encode [a, b] =
     (let a = of_char a; b = of_char b
      in [b64_char (a div 4), b64_char (a mod 4 * 16 + b div 16), b64_char (b mod 16 * 4)])"
| "b64_encode (a # b # c # cs) =
     (let a = of_char a; b = of_char b; c = of_char c
      in b64_char (a div 4) # b64_char (a mod 4 * 16 + b div 16) #
         b64_char (b mod 16 * 4 + c div 64) # b64_char (c mod 64) # b64_encode cs)"

fun b64_quanta :: "string \<Rightarrow> string option" where
  "b64_quanta [] = Some []"
| "b64_quanta [w] = None"
| "b64_quanta [w, x] =
     (case (b64_val w, b64_val x) of
        (Some w, Some x) \<Rightarrow> Some [char_of (w * 4 + x div 16)]
      | _ \<Rightarrow> None)"
| "b64_quanta [w, x, y] =
     (case (b64_val w, b64_val x, b64_val y) of
        (Some w, Some x, Some y) \<Rightarrow> Some [char_of (w * 4 + x div 16), char_of (x mod 16 * 16 + y div 4)]
      | _ \<Rightarrow> None)"
| "b64_quanta (w # x # y # z # cs) =
     (case (b64_val w, b64_val x, b64_val y, b64_val z) of
        (Some w, Some x, Some y, Some z) \<Rightarrow>
          map_option (\<lambda>r. char_of (w * 4 + x div 16) # char_of (x mod 16 * 16 + y div 4) #
            char_of (y mod 4 * 64 + z) # r) (b64_quanta cs)
      | _ \<Rightarrow> None)"

definition b64_decode :: "string \<Rightarrow> string option" where
  "b64_decode s = b64_quanta (filter (\<lambda>c. c \<noteq> CHR 0x0A \<and> c \<noteq> CHR 0x0D) s)"

lemma of_char_b64_char:
  "n < 64 \<Longrightarrow> (of_char (b64_char n) :: nat) =
     (if n < 26 then n + 65 else if n < 52 then n + 71 else if n < 62 then n - 4
      else if n = 62 then 45 else 95)"
  by (simp add: b64_char_def)

lemma b64_val_char: "n < 64 \<Longrightarrow> b64_val (b64_char n) = Some n"
  by (simp add: b64_val_def of_char_b64_char Let_def) linarith

lemma b64_char_visible: "n < 64 \<Longrightarrow> b64_char n \<noteq> CHR 0x0A \<and> b64_char n \<noteq> CHR 0x0D"
  using of_char_b64_char [of n] by (auto split: if_splits)

text \<open>The arithmetic of one quantum, on bytes.\<close>

lemma quantum_join:
  fixes h l :: nat
  shows "h < 4 \<Longrightarrow> l < 16 \<Longrightarrow> h * 16 + l < 64" "h < 16 \<Longrightarrow> l < 4 \<Longrightarrow> h * 4 + l < 64"
  by linarith+

lemma byte_div:
  "(of_char a :: nat) div 4 < 64" "(of_char a :: nat) div 16 < 16" "(of_char a :: nat) div 64 < 4"
  by (rule less_mult_imp_div_less, use of_char_less [of a] in simp)+

lemma byte_bounds:
  "(of_char a :: nat) div 4 < 64" "(of_char a :: nat) mod 4 * 16 < 64" "(of_char a :: nat) mod 16 * 4 < 64"
  "(of_char a :: nat) mod 4 * 16 + of_char b div 16 < 64"
  "(of_char a :: nat) mod 16 * 4 + of_char b div 64 < 64" "(of_char a :: nat) mod 64 < 64"
proof -
  have m: "(of_char a :: nat) mod 4 < 4" "(of_char a :: nat) mod 16 < 16" by simp_all
  show "(of_char a :: nat) div 4 < 64" "(of_char a :: nat) mod 64 < 64" by (simp_all add: byte_div)
  show "(of_char a :: nat) mod 4 * 16 < 64" using quantum_join(1) [OF m(1), of 0] by simp
  show "(of_char a :: nat) mod 16 * 4 < 64" using quantum_join(2) [OF m(2), of 0] by simp
  show "(of_char a :: nat) mod 4 * 16 + of_char b div 16 < 64" by (rule quantum_join(1) [OF m(1) byte_div(2)])
  show "(of_char a :: nat) mod 16 * 4 + of_char b div 64 < 64" by (rule quantum_join(2) [OF m(2) byte_div(3)])
qed

lemma byte_values:
  "(of_char b :: nat) div 16 div 16 = 0" "(of_char b :: nat) div 16 mod 16 = of_char b div 16"
  "(of_char c :: nat) div 64 div 4 = 0" "(of_char c :: nat) div 64 mod 4 = of_char c div 64"
  by (simp_all only: div_less mod_less byte_div)

lemma b64_quanta_encode: "b64_quanta (b64_encode s) = Some s"
  by (induction s rule: b64_encode.induct)
     (simp_all add: b64_val_char Let_def byte_bounds byte_values)

lemma b64_encode_visible: "filter (\<lambda>c. c \<noteq> CHR 0x0A \<and> c \<noteq> CHR 0x0D) (b64_encode s) = b64_encode s"
  by (induction s rule: b64_encode.induct) (simp_all add: b64_char_visible Let_def byte_bounds)

lemma b64_decode_encode [simp]: "b64_decode (b64_encode s) = Some s"
  by (simp add: b64_decode_def b64_encode_visible b64_quanta_encode)

lemma b64_encode_inj [simp]: "b64_encode s = b64_encode t \<longleftrightarrow> s = t"
  by (metis b64_decode_encode option.inject)

lemma b64_encode_chars: "c \<in> set (b64_encode s) \<Longrightarrow> \<exists>n < 64. c = b64_char n"
  by (induction s rule: b64_encode.induct) (auto simp: Let_def intro: byte_bounds)

lemma b64_encode_visible_ascii:
  assumes "c \<in> set (b64_encode s)"
  shows "(of_char c :: nat) < 128" and "\<not> is_space c"
proof -
  obtain n where "n < 64" "c = b64_char n" using b64_encode_chars [OF assms] by blast
  then have c: "45 \<le> (of_char c :: nat) \<and> (of_char c :: nat) < 123"
    by (simp add: of_char_b64_char) linarith
  then show "(of_char c :: nat) < 128" by simp
  from c show "\<not> is_space c" by (auto simp: is_space_def ascii_spaces_def)
qed

lemma trim_space_b64 [simp]: "trim_space (b64_encode s) = b64_encode s"
proof (rule trim_space_ascii_id)
  show "is_ascii (b64_encode s)" using b64_encode_visible_ascii(1) by (auto simp: is_ascii_def list_all_iff)
  assume "b64_encode s \<noteq> []"
  then show "\<not> is_space (hd (b64_encode s)) \<and> \<not> is_space (last (b64_encode s))"
    using b64_encode_visible_ascii(2) [of "hd (b64_encode s)" s] b64_encode_visible_ascii(2) [of "last (b64_encode s)" s]
    by simp
qed

end
