(* ===== verification/GoCipher.thy ===== *)
theory GoCipher
  imports Encoding "HOL-Library.Word"
begin

text \<open>
  \<open>crypto/aes\<close> and \<open>crypto/cipher\<close> as the tokens use them: \<open>aes.NewCipher\<close> for keys of 16, 24 or 32
  bytes and \<open>cipher.NewGCM\<close> with its 12 byte nonce, 16 byte tag and no additional data. The block
  cipher is that of FIPS 197, the mode that of NIST SP 800-38D.
\<close>

unbundle bit_operations_syntax

type_synonym byte = "8 word"

section \<open>AES\<close>

definition xtime :: "byte \<Rightarrow> byte" where
  "xtime b = push_bit 1 b XOR (if bit b 7 then 0x1B else 0)"

definition gf_mult :: "byte \<Rightarrow> byte \<Rightarrow> byte" where
  "gf_mult a b =
     fst (foldl (\<lambda>(r, x) i. (if bit a i then r XOR x else r, xtime x)) (0, b) [0..<8])"

definition gf_inverse :: "byte \<Rightarrow> byte" where
  "gf_inverse a = foldl (\<lambda>r i. gf_mult (gf_mult r r) (if i < 7 then a else 1)) 1 [0..<8]"

definition sub_byte :: "byte \<Rightarrow> byte" where
  "sub_byte a =
     (let i = gf_inverse a
      in i XOR word_rotl 1 i XOR word_rotl 2 i XOR word_rotl 3 i XOR word_rotl 4 i XOR 0x63)"

definition xor_bytes :: "byte list \<Rightarrow> byte list \<Rightarrow> byte list" where
  "xor_bytes = map2 (\<lambda>a b. a XOR b)"

fun rcon :: "nat \<Rightarrow> byte" where
  "rcon 0 = 1"
| "rcon (Suc n) = xtime (rcon n)"

definition expand_word :: "nat \<Rightarrow> byte list list \<Rightarrow> nat \<Rightarrow> byte list list" where
  "expand_word nk ws i =
     (let t = ws ! (i - 1);
          t = (if i mod nk = 0 then xor_bytes (map sub_byte (rotate1 t)) [rcon (i div nk - 1), 0, 0, 0]
               else if nk > 6 \<and> i mod nk = 4 then map sub_byte t else t)
      in ws @ [xor_bytes (ws ! (i - nk)) t])"

definition key_words :: "byte list \<Rightarrow> byte list list" where
  "key_words key =
     (let nk = length key div 4
      in foldl (expand_word nk) (map (\<lambda>i. take 4 (drop (4 * i) key)) [0..<nk]) [nk..<4 * (nk + 7)])"

definition round_key :: "byte list list \<Rightarrow> nat \<Rightarrow> byte list" where
  "round_key ws r = concat (take 4 (drop (4 * r) ws))"

text \<open>The state is the 16 bytes of the block, column by column.\<close>

definition add_round_key :: "byte list \<Rightarrow> byte list \<Rightarrow> byte list" where
  "add_round_key k s = map (\<lambda>i. s ! i XOR k ! i) [0..<16]"

definition shift_rows :: "byte list \<Rightarrow> byte list" where
  "shift_rows s = map (\<lambda>i. s ! ((i + 4 * (i mod 4)) mod 16)) [0..<16]"

definition mix_columns :: "byte list \<Rightarrow> byte list" where
  "mix_columns s =
     map (\<lambda>i. let c = 4 * (i div 4); at = (\<lambda>d. s ! (c + (i + d) mod 4))
        in gf_mult 2 (at 0) XOR gf_mult 3 (at 1) XOR at 2 XOR at 3) [0..<16]"

definition aes_block :: "byte list \<Rightarrow> byte list \<Rightarrow> byte list" where
  "aes_block key block =
     (let ws = key_words key; n = length key div 4 + 6;
          s = foldl (\<lambda>s r. add_round_key (round_key ws r) (mix_columns (shift_rows (map sub_byte s))))
                (add_round_key (round_key ws 0) block) [1..<n]
      in add_round_key (round_key ws n) (shift_rows (map sub_byte s)))"

definition key_ok :: "string \<Rightarrow> bool" where
  "key_ok key \<longleftrightarrow> length key = 16 \<or> length key = 24 \<or> length key = 32"

section \<open>Galois counter mode\<close>

definition to_bytes :: "string \<Rightarrow> byte list" where
  "to_bytes = map (\<lambda>c. of_nat (of_char c))"

definition of_bytes :: "byte list \<Rightarrow> string" where
  "of_bytes = map (\<lambda>b. char_of (unat b))"

definition big_endian :: "nat \<Rightarrow> nat \<Rightarrow> byte list" where
  "big_endian n v = map (\<lambda>i. of_nat (v div 256 ^ (n - 1 - i))) [0..<n]"

definition pack :: "byte list \<Rightarrow> 128 word" where
  "pack = foldl (\<lambda>a b. push_bit 8 a OR ucast b) 0"

definition gf128_mult :: "128 word \<Rightarrow> 128 word \<Rightarrow> 128 word" where
  "gf128_mult x y =
     fst (foldl (\<lambda>(z, v) i.
       (if bit x (127 - i) then z XOR v else z,
        drop_bit 1 v XOR (if bit v 0 then 0xE1000000000000000000000000000000 else 0))) (0, y) [0..<128])"

definition blocks :: "byte list \<Rightarrow> byte list list" where
  "blocks bs = map (\<lambda>i. take 16 (drop (16 * i) bs @ replicate 16 0)) [0..<(length bs + 15) div 16]"

definition ghash :: "128 word \<Rightarrow> byte list \<Rightarrow> 128 word" where
  "ghash h cipher =
     foldl (\<lambda>y b. gf128_mult (y XOR b) h) 0
       (map pack (blocks cipher) @ [pack (big_endian 8 0 @ big_endian 8 (8 * length cipher))])"

definition NonceSize :: nat where
  "NonceSize = 12"

definition counter_block :: "byte list \<Rightarrow> nat \<Rightarrow> byte list" where
  "counter_block nonce i = nonce @ big_endian 4 i"

definition keystream :: "byte list \<Rightarrow> byte list \<Rightarrow> nat \<Rightarrow> byte list" where
  "keystream key nonce n =
     concat (map (\<lambda>i. aes_block key (counter_block nonce (i + 2))) [0..<(n + 15) div 16])"

definition gcm_crypt :: "byte list \<Rightarrow> byte list \<Rightarrow> byte list \<Rightarrow> byte list" where
  "gcm_crypt key nonce text = xor_bytes text (keystream key nonce (length text))"

definition gcm_tag :: "byte list \<Rightarrow> byte list \<Rightarrow> byte list \<Rightarrow> byte list" where
  "gcm_tag key nonce cipher =
     (let h = pack (aes_block key (replicate 16 0));
          t = ghash h cipher XOR pack (aes_block key (counter_block nonce 1))
      in big_endian 16 (unat t))"

definition gcm_seal :: "string \<Rightarrow> string \<Rightarrow> string \<Rightarrow> string" where
  "gcm_seal key nonce plain =
     (let k = to_bytes key; n = to_bytes nonce; c = gcm_crypt k n (to_bytes plain)
      in of_bytes (c @ gcm_tag k n c))"

definition gcm_open :: "string \<Rightarrow> string \<Rightarrow> string \<Rightarrow> string option" where
  "gcm_open key nonce sealed =
     (if length sealed < 16 then None
      else
        let k = to_bytes key; n = to_bytes nonce; s = to_bytes sealed;
            c = take (length s - 16) s; tag = drop (length s - 16) s
        in if tag = gcm_tag k n c then Some (of_bytes (gcm_crypt k n c)) else None)"

section \<open>Sealing and opening\<close>

lemma to_bytes_of_bytes [simp]: "to_bytes (of_bytes bs) = bs"
proof -
  have "of_nat (of_char (char_of (unat b))) = b" for b :: byte
    using unsigned_less [of b, where 'a = nat] by simp
  then show ?thesis by (simp add: to_bytes_def of_bytes_def o_def)
qed

lemma of_bytes_to_bytes [simp]: "of_bytes (to_bytes s) = s"
proof -
  have "unat (of_nat (of_char c) :: byte) = of_char c" for c
    using of_char_less [of c] by (simp add: unat_of_nat)
  then show ?thesis by (simp add: to_bytes_def of_bytes_def o_def map_idI)
qed

lemma length_to_bytes [simp]: "length (to_bytes s) = length s"
  by (simp add: to_bytes_def)

lemma length_of_bytes [simp]: "length (of_bytes bs) = length bs"
  by (simp add: of_bytes_def)

lemma length_aes_block [simp]: "length (aes_block key block) = 16"
  by (simp add: aes_block_def add_round_key_def Let_def)

lemma length_keystream: "n \<le> length (keystream key nonce n)"
proof -
  have "length (keystream key nonce n) = ((n + 15) div 16) * 16"
    by (simp add: keystream_def length_concat o_def sum_list_triv)
  then show ?thesis by simp
qed

lemma length_gcm_crypt [simp]: "length (gcm_crypt key nonce text) = length text"
  using length_keystream [of "length text" key nonce] by (simp add: gcm_crypt_def xor_bytes_def)

lemma length_gcm_tag [simp]: "length (gcm_tag key nonce cipher) = 16"
  by (simp add: gcm_tag_def big_endian_def Let_def)

lemma xor_bytes_cancel: "length t \<le> length k \<Longrightarrow> xor_bytes (xor_bytes t k) k = t"
  by (induction t arbitrary: k; case_tac k) (simp_all add: xor_bytes_def xor.assoc)

lemma gcm_crypt_involution [simp]: "gcm_crypt key nonce (gcm_crypt key nonce text) = text"
proof -
  let ?k = "keystream key nonce (length text)"
  have "length (xor_bytes text ?k) = length text"
    using length_gcm_crypt [of key nonce "text"] by (simp only: gcm_crypt_def)
  then show ?thesis by (simp add: gcm_crypt_def xor_bytes_cancel length_keystream)
qed

text \<open>
  \<open>Open\<close> accepts exactly the outputs of \<open>Seal\<close> under the same key and nonce, and returns what was
  sealed.
\<close>

lemma gcm_open_iff: "gcm_open key nonce sealed = Some plain \<longleftrightarrow> sealed = gcm_seal key nonce plain"
proof
  assume "gcm_open key nonce sealed = Some plain"
  then have len: "16 \<le> length sealed" and tag: "drop (length sealed - 16) (to_bytes sealed) =
      gcm_tag (to_bytes key) (to_bytes nonce) (take (length sealed - 16) (to_bytes sealed))"
    and plain: "plain = of_bytes (gcm_crypt (to_bytes key) (to_bytes nonce) (take (length sealed - 16) (to_bytes sealed)))"
    by (auto simp: gcm_open_def Let_def split: if_splits)
  have "to_bytes (gcm_seal key nonce plain) = to_bytes sealed"
    by (simp add: gcm_seal_def plain Let_def flip: tag)
  then show "sealed = gcm_seal key nonce plain" by (metis of_bytes_to_bytes)
next
  assume "sealed = gcm_seal key nonce plain"
  then show "gcm_open key nonce sealed = Some plain"
    by (simp add: gcm_open_def gcm_seal_def Let_def)
qed

lemma gcm_open_seal [simp]: "gcm_open key nonce (gcm_seal key nonce plain) = Some plain"
  by (simp add: gcm_open_iff)

end
