(* ===== verification/Refinement.thy ===== *)
theory Refinement
  imports Prelude
begin

text \<open>
  Functional refinement: an operation on concrete states that commutes with an abstraction function
  does so over every sequence of operations, with the same outputs.
\<close>

fun run_ops :: "('op \<Rightarrow> 's \<Rightarrow> 'out \<times> 's) \<Rightarrow> 'op list \<Rightarrow> 's \<Rightarrow> 'out list \<times> 's" where
  "run_ops step [] s = ([], s)"
| "run_ops step (a # as) s =
     (let (out, s1) = step a s; (outs, s2) = run_ops step as s1 in (out # outs, s2))"

lemma length_run_ops [simp]: "length (fst (run_ops step as s)) = length as"
  by (induction as arbitrary: s) (simp_all add: Let_def case_prod_unfold)

locale refinement =
  fixes step :: "'op \<Rightarrow> 's \<Rightarrow> 'out \<times> 's" and spec :: "'op \<Rightarrow> 'a \<Rightarrow> 'out \<times> 'a"
    and abs :: "'s \<Rightarrow> 'a" and inv :: "'s \<Rightarrow> bool" and ok :: "'op \<Rightarrow> bool"
  assumes step_refines: "inv s \<Longrightarrow> ok a \<Longrightarrow> step a s = (out, s') \<Longrightarrow> inv s' \<and> spec a (abs s) = (out, abs s')"
begin

lemma run_refines:
  "inv s \<Longrightarrow> \<forall>a \<in> set as. ok a \<Longrightarrow> run_ops step as s = (outs, s') \<Longrightarrow>
     inv s' \<and> run_ops spec as (abs s) = (outs, abs s')"
proof (induction as arbitrary: s outs s')
  case Nil
  then show ?case by simp
next
  case (Cons a as)
  obtain out s1 where one: "step a s = (out, s1)" by fastforce
  obtain outs' s2 where rest: "run_ops step as s1 = (outs', s2)" by fastforce
  have "inv s1 \<and> spec a (abs s) = (out, abs s1)"
    by (rule step_refines [OF Cons.prems(1) _ one]) (use Cons.prems(2) in simp)
  moreover from this have "inv s2 \<and> run_ops spec as (abs s1) = (outs', abs s2)"
    by (intro Cons.IH [OF _ _ rest]) (use Cons.prems(2) in simp_all)
  ultimately show ?case using Cons.prems(3) one rest by simp
qed

end

end
