(* ===== verification/Utf8.thy ===== *)
theory Utf8
  imports Codec
begin

text \<open>
  UTF-8 as \<open>unicode/utf8\<close> decodes it, and what \<open>encoding/json\<close> makes of a string that is not
  valid: every invalid byte becomes U+FFFD. Strings that came out of a JSON decoder are valid
  already, which is why the codecs of upstream data take them as they are; the structs that hold
  header values or query parameters use \<open>enc_text\<close>.
\<close>

definition byte_in :: "nat \<Rightarrow> nat \<Rightarrow> char \<Rightarrow> bool" where
  "byte_in lo hi c \<longleftrightarrow> lo \<le> (of_char c :: nat) \<and> (of_char c :: nat) \<le> hi"

abbreviation tail_byte :: "char \<Rightarrow> bool" where
  "tail_byte \<equiv> byte_in 128 191"

text \<open>The length of a rune by its first byte, with the range of its second byte.\<close>

definition lead :: "char \<Rightarrow> nat \<times> nat \<times> nat" where
  "lead c =
     (let n = (of_char c :: nat) in
      if n < 128 then (1, 0, 0)
      else if n < 194 then (0, 0, 0)
      else if n < 224 then (2, 128, 191)
      else if n = 224 then (3, 160, 191)
      else if n = 237 then (3, 128, 159)
      else if n < 240 then (3, 128, 191)
      else if n = 240 then (4, 144, 191)
      else if n < 244 then (4, 128, 191)
      else if n = 244 then (4, 128, 143)
      else (0, 0, 0))"

text \<open>The length of the first rune, or zero when the first byte starts none.\<close>

definition rune_len :: "string \<Rightarrow> nat" where
  "rune_len s =
     (case s of
        [] \<Rightarrow> 0
      | a # r \<Rightarrow>
          (let (k, lo, hi) = lead a in
           if length s < k \<or> (1 < k \<and> \<not> (byte_in lo hi (hd r) \<and> list_all tail_byte (take (k - 2) (tl r))))
           then 0 else k))"

lemma rune_len_Nil [simp]: "rune_len [] = 0"
  by (simp add: rune_len_def)

lemma rune_len_le: "rune_len s \<le> length s"
  by (auto simp: rune_len_def Let_def split: list.split prod.split)

lemma rune_len_ascii [simp]: "(of_char c :: nat) < 128 \<Longrightarrow> rune_len (c # s) = 1"
  by (simp add: rune_len_def lead_def)

text \<open>Only the bytes of the rune itself matter.\<close>

lemma rune_len_prefix:
  assumes "rune_len s = k" "k \<noteq> 0" "take k t = take k s" "k \<le> length t"
  shows "rune_len t = k"
proof -
  obtain a r where s: "s = a # r" using assms(1,2) by (cases s) auto
  obtain b u where t: "t = b # u" using assms(2,4) by (cases t) auto
  obtain k' lo hi where l: "lead a = (k', lo, hi)" by (cases "lead a") auto
  have k: "k' = k" "k \<le> length s" "1 < k \<longrightarrow> byte_in lo hi (hd r) \<and> list_all tail_byte (take (k - 2) (tl r))"
    using assms(1,2) unfolding s rune_len_def by (simp_all add: l split: if_splits)
  obtain m where m: "k = Suc m" using assms(2) by (cases k) auto
  have "b = a" "take m u = take m r" using assms(3) unfolding s t m by simp_all
  then have r: "take (k - 1) u = take (k - 1) r" by (simp add: m)
  have "hd u = hd r \<and> take (k - 2) (tl u) = take (k - 2) (tl r)" if "1 < k"
  proof -
    have "u \<noteq> []" "r \<noteq> []" using that assms(4) k(2) s t by auto
    moreover have "k - 1 = Suc (k - 2)" using that by simp
    ultimately show ?thesis using r by (cases u; cases r) simp_all
  qed
  with k(3) assms(4) have "\<not> (length t < k \<or> (1 < k \<and> \<not> (byte_in lo hi (hd u) \<and> list_all tail_byte (take (k - 2) (tl u)))))"
    by (metis linorder_not_less)
  with l k(1) show ?thesis unfolding t \<open>b = a\<close> rune_len_def by (simp only: list.case Let_def prod.case if_False)
qed

lemma rune_len_take: "rune_len s \<noteq> 0 \<Longrightarrow> rune_len (take (rune_len s) s @ r) = rune_len s"
  by (rule rune_len_prefix [of s "rune_len s"]) (simp_all add: rune_len_le)

function is_utf8 :: "string \<Rightarrow> bool" where
  "is_utf8 s = (if s = [] then True else if rune_len s = 0 then False else is_utf8 (drop (rune_len s) s))"
  by pat_completeness auto
termination
  by (relation "measure length") auto

definition replacement :: string where
  "replacement = [CHR 0xEF, CHR 0xBF, CHR 0xBD]"

function utf8_fix :: "string \<Rightarrow> string" where
  "utf8_fix s =
     (if s = [] then []
      else if rune_len s = 0 then replacement @ utf8_fix (tl s)
      else take (rune_len s) s @ utf8_fix (drop (rune_len s) s))"
  by pat_completeness auto
termination
  by (relation "measure length") auto

declare is_utf8.simps [simp del] utf8_fix.simps [simp del]

lemma is_utf8_Nil [simp]: "is_utf8 []"
  by (simp add: is_utf8.simps)

lemma is_utf8_rune: "rune_len s \<noteq> 0 \<Longrightarrow> is_utf8 s \<longleftrightarrow> is_utf8 (drop (rune_len s) s)"
  by (subst is_utf8.simps) auto

lemma utf8_fix_Nil [simp]: "utf8_fix [] = []"
  by (simp add: utf8_fix.simps)

lemma is_utf8_ascii_Cons [simp]: "(of_char c :: nat) < 128 \<Longrightarrow> is_utf8 (c # s) = is_utf8 s"
  by (subst is_utf8.simps) simp

lemma is_utf8_ascii: "is_ascii s \<Longrightarrow> is_utf8 s"
  by (induction s) auto

lemma utf8_fix_id [simp]: "is_utf8 s \<Longrightarrow> utf8_fix s = s"
proof (induction s rule: utf8_fix.induct)
  case (1 s)
  then show ?case
    by (subst utf8_fix.simps) (auto simp: is_utf8.simps [of s] split: if_splits)
qed

lemma is_utf8_take: "rune_len s \<noteq> 0 \<Longrightarrow> is_utf8 (take (rune_len s) s @ r) \<longleftrightarrow> is_utf8 r"
proof -
  assume n: "rune_len s \<noteq> 0"
  then have "rune_len (take (rune_len s) s @ r) = rune_len s" by (rule rune_len_take)
  with n rune_len_le [of s] is_utf8_rune [of "take (rune_len s) s @ r"] show ?thesis by simp
qed

lemma rune_len_replacement: "rune_len (replacement @ r) = 3"
  by (simp add: rune_len_def replacement_def byte_in_def lead_def)

lemma is_utf8_utf8_fix [simp]: "is_utf8 (utf8_fix s)"
proof (induction s rule: utf8_fix.induct)
  case (1 s)
  consider "s = []" | "s \<noteq> []" "rune_len s = 0" | "s \<noteq> []" "rune_len s \<noteq> 0" by blast
  then show ?case
  proof cases
    case 1
    then show ?thesis by simp
  next
    case 2
    then have "is_utf8 (replacement @ utf8_fix (tl s))"
      using 1(1) [OF 2] is_utf8_rune [of "replacement @ utf8_fix (tl s)"]
      by (simp add: rune_len_replacement) (simp add: replacement_def)
    with 2 show ?thesis by (simp add: utf8_fix.simps [of s])
  next
    case 3
    then show ?thesis using 1(2) [OF 3] by (simp add: utf8_fix.simps [of s] is_utf8_take)
  qed
qed

lemma utf8_fix_idem: "utf8_fix (utf8_fix s) = utf8_fix s"
  by simp

section \<open>String fields\<close>

definition enc_text :: "string \<Rightarrow> string \<Rightarrow> fields" where
  "enc_text n s = enc_str n (utf8_fix s)"

definition enc_text_omit :: "string \<Rightarrow> string \<Rightarrow> fields" where
  "enc_text_omit n s = enc_str_omit n (utf8_fix s)"

lemma enc_text_valid [simp]:
  "is_utf8 s \<Longrightarrow> enc_text n s = enc_str n s"
  "is_utf8 s \<Longrightarrow> enc_text_omit n s = enc_str_omit n s"
  by (simp_all add: enc_text_def enc_text_omit_def)

lemma fields_defined [simp]:
  "\<exists>kvs. enc_text n s = Some kvs" "\<exists>kvs. enc_text_omit n s = Some kvs"
  by (simp_all add: enc_text_def enc_text_omit_def enc_defs)

end
