(* ===== verification/Auth.thy ===== *)
theory Auth
  imports GoCipher Utf8
begin

text \<open>
  \<open>internal/auth\<close>: the claims of a request (\<open>claims.go\<close>), redirect targets and the login URL
  (\<open>url.go\<close>), and the one-time login tickets (\<open>ticket.go\<close>). The bytes read from the random source
  are arguments, \<open>None\<close> being a failed read.
\<close>

section \<open>Claims\<close>

record claims =
  c_user :: string
  c_role :: string
  c_discord_user :: string
  c_discord_server :: string
  c_server :: string
  c_api_key :: bool

definition no_claims :: claims where
  "no_claims =
     \<lparr>c_user = '''', c_role = '''', c_discord_user = '''', c_discord_server = '''', c_server = '''',
      c_api_key = False\<rparr>"

definition IsMember :: "claims \<Rightarrow> bool" where
  "IsMember c = (c_role c = ''pilot'' \<or> c_role c = ''staff'' \<or> c_role c = ''admin'')"

definition IsStaff :: "claims \<Rightarrow> bool" where
  "IsStaff c = (c_role c = ''staff'' \<or> c_role c = ''admin'')"

definition IsAdmin :: "claims \<Rightarrow> bool" where
  "IsAdmin c = (c_role c = ''admin'')"

section \<open>URLs\<close>

definition DefaultRedirect :: string where
  "DefaultRedirect = ''/dashboard''"

definition NormalizeRedirect :: "string \<Rightarrow> go_error + string" where
  "NormalizeRedirect path =
     (let path = trim_space path in
      if path = '''' then Inr DefaultRedirect
      else if \<not> prefix ''/'' path \<or> prefix ''//'' path \<or> contains path ''://''
      then Inl (Errorf ''redirect must be a relative path'')
      else Inr path)"

text \<open>\<open>url.QueryEscape\<close>.\<close>

definition query_safe :: "char \<Rightarrow> bool" where
  "query_safe c =
     (let n = (of_char c :: nat) in
      (48 \<le> n \<and> n \<le> 57) \<or> (65 \<le> n \<and> n \<le> 90) \<or> (97 \<le> n \<and> n \<le> 122) \<or>
      n = 45 \<or> n = 95 \<or> n = 46 \<or> n = 126)"

definition upper_hex :: "nat \<Rightarrow> char" where
  "upper_hex n = char_of (if n < 10 then n + 48 else n + 55)"

definition QueryEscape :: "string \<Rightarrow> string" where
  "QueryEscape s =
     concat (map (\<lambda>c.
       if query_safe c then [c]
       else if c = CHR '' '' then ''+''
       else [CHR ''%'', upper_hex (of_char c div 16), upper_hex (of_char c mod 16)]) s)"

definition FormatLoginURL :: "string \<Rightarrow> string \<Rightarrow> string" where
  "FormatLoginURL baseURL token =
     trim_right_slash baseURL @ ''/auth/login?token='' @ QueryEscape token"

section \<open>Tickets\<close>

definition TicketTTL :: duration where
  "TicketTTL = 10 * 60 * sec_ns"

record login_ticket =
  t_user :: string
  t_discord_user :: string
  t_discord_server :: string
  t_username :: string
  t_redirect :: string

definition ticket_json :: "login_ticket \<Rightarrow> json option" where
  "ticket_json t =
     jobj [enc_text ''user_id'' (t_user t), enc_text ''discord_user_id'' (t_discord_user t),
       enc_text_omit ''discord_server_id'' (t_discord_server t),
       enc_text_omit ''username'' (t_username t), enc_text ''redirect_to'' (t_redirect t)]"

definition zero_ticket :: login_ticket where
  "zero_ticket =
     \<lparr>t_user = '''', t_discord_user = '''', t_discord_server = '''', t_username = '''', t_redirect = ''''\<rparr>"

definition ticket_of_json :: "json \<Rightarrow> login_ticket option" where
  "ticket_of_json = dec_struct zero_ticket (\<lambda>kvs. do {
     user \<leftarrow> dec_str ''user_id'' kvs;
     discord \<leftarrow> dec_str ''discord_user_id'' kvs;
     server \<leftarrow> dec_str ''discord_server_id'' kvs;
     username \<leftarrow> dec_str ''username'' kvs;
     redirect \<leftarrow> dec_str ''redirect_to'' kvs;
     Some \<lparr>t_user = user, t_discord_user = discord, t_discord_server = server,
       t_username = username, t_redirect = redirect\<rparr>
   })"

definition encryptTicketID :: "string \<Rightarrow> string \<Rightarrow> string option \<Rightarrow> go_error + string" where
  "encryptTicketID secret ticketID nonce_rand =
     (if \<not> key_ok secret then Inl (Wrapf ''signed link cipher'' (Errorf ''invalid key size''))
      else case nonce_rand of
        None \<Rightarrow> Inl (Wrapf ''signed link nonce'' (Errorf ''random source''))
      | Some nonce \<Rightarrow> Inr (b64_encode (nonce @ gcm_seal secret nonce ticketID)))"

definition decryptTicketID :: "string \<Rightarrow> string \<Rightarrow> go_error + string" where
  "decryptTicketID secret token =
     (case b64_decode token of
        None \<Rightarrow> Inl (Errorf ''illegal base64 data'')
      | Some raw \<Rightarrow>
          if \<not> key_ok secret then Inl (Errorf ''invalid key size'')
          else if length raw < NonceSize then Inl ErrInvalidTicket
          else
            (case gcm_open secret (take NonceSize raw) (drop NonceSize raw) of
               None \<Rightarrow> Inl (Errorf ''message authentication failed'')
             | Some plaintext \<Rightarrow> Inr plaintext))"

definition Issue ::
  "'r redis \<Rightarrow> string \<Rightarrow> string option \<Rightarrow> string option \<Rightarrow> login_ticket \<Rightarrow> 'r store \<Rightarrow>
     (go_error + string) \<times> 'r store"
where
  "Issue R secret id_rand nonce_rand ticket st =
     (case id_rand of
        None \<Rightarrow> (Inl (Wrapf ''generate login ticket'' (Errorf ''random source'')), st)
      | Some ticketID \<Rightarrow>
          (case encryptTicketID secret ticketID nonce_rand of
             Inl err \<Rightarrow> (Inl err, st)
           | Inr token \<Rightarrow>
               (case SetJSON R ticket_json (KeyLoginTicket (hex_encode ticketID)) ticket TicketTTL st of
                  (Inl err, st) \<Rightarrow> (Inl err, st)
                | (Inr _, st) \<Rightarrow> (Inr token, st))))"

definition Consume ::
  "'r redis \<Rightarrow> string \<Rightarrow> string \<Rightarrow> 'r store \<Rightarrow> (go_error + login_ticket) \<times> 'r store"
where
  "Consume R secret token st =
     (case decryptTicketID secret token of
        Inl err \<Rightarrow> (Inl ErrInvalidTicket, st)
      | Inr ticketID \<Rightarrow>
          (case GetDelJSON R ticket_of_json (KeyLoginTicket (hex_encode ticketID)) st of
             (Inl err, st) \<Rightarrow> (Inl (if errors_is err ErrMiss then ErrInvalidTicket else err), st)
           | (Inr ticket, st) \<Rightarrow> (Inr ticket, st)))"

section \<open>Roles and redirects\<close>

lemma roles_nested: "(IsAdmin c \<longrightarrow> IsStaff c) \<and> (IsStaff c \<longrightarrow> IsMember c)"
  by (auto simp: IsAdmin_def IsStaff_def IsMember_def)

lemma NormalizeRedirect_cases:
  "NormalizeRedirect p = Inr q \<Longrightarrow>
     prefix ''/'' q \<and> \<not> prefix ''//'' q \<and> \<not> contains q ''://'' \<and> NormalizeRedirect q = Inr q"
proof (cases "trim_space p = []")
  case True
  assume "NormalizeRedirect p = Inr q"
  with True have "q = DefaultRedirect" by (simp add: NormalizeRedirect_def)
  moreover have "trim_space DefaultRedirect = DefaultRedirect" by code_simp
  moreover have "\<not> contains DefaultRedirect ''://''" by code_simp
  ultimately show ?thesis by (simp add: NormalizeRedirect_def DefaultRedirect_def)
next
  case False
  assume "NormalizeRedirect p = Inr q"
  with False have "q = trim_space p" "prefix ''/'' q" "\<not> prefix ''//'' q" "\<not> contains q ''://''"
    by (auto simp: NormalizeRedirect_def Let_def split: if_splits)
  with False show ?thesis by (simp add: NormalizeRedirect_def Let_def)
qed

lemma query_safe_b64: "n < 64 \<Longrightarrow> query_safe (b64_char n)"
  by (simp add: query_safe_def of_char_b64_char Let_def) linarith

lemma QueryEscape_safe: "\<forall>c \<in> set s. query_safe c \<Longrightarrow> QueryEscape s = s"
  by (induction s) (simp_all add: QueryEscape_def)

lemma b64_safe: "c \<in> set (b64_encode s) \<Longrightarrow> query_safe c"
  by (induction s rule: b64_encode.induct)
     (auto simp: Let_def byte_bounds query_safe_b64)

lemma QueryEscape_token [simp]: "QueryEscape (b64_encode s) = b64_encode s"
  by (rule QueryEscape_safe) (blast intro: b64_safe)

section \<open>The life of a ticket\<close>

definition ticket_ok :: "login_ticket \<Rightarrow> bool" where
  "ticket_ok t \<longleftrightarrow> is_utf8 (t_user t) \<and> is_utf8 (t_discord_user t) \<and> is_utf8 (t_discord_server t) \<and>
     is_utf8 (t_username t) \<and> is_utf8 (t_redirect t)"

definition ticket_fields :: "login_ticket \<Rightarrow> fields list" where
  "ticket_fields t =
     [enc_str ''user_id'' (t_user t), enc_str ''discord_user_id'' (t_discord_user t),
      enc_str_omit ''discord_server_id'' (t_discord_server t), enc_str_omit ''username'' (t_username t),
      enc_str ''redirect_to'' (t_redirect t)]"

definition ticket_field_names :: "string list" where
  "ticket_field_names = [''user_id'', ''discord_user_id'', ''discord_server_id'', ''username'', ''redirect_to'']"

interpretation ticket_codec: codec ticket_json ticket_of_json ticket_ok
proof
  fix t j
  assume "ticket_ok t" "ticket_json t = Some j"
  then obtain kvss where kvss: "those (ticket_fields t) = Some kvss" and j: "j = JObj (concat kvss)"
    by (auto simp: ticket_ok_def ticket_json_def ticket_fields_def jobj_Some_iff simp del: those.simps)
  have named: "list_all2 named ticket_field_names (ticket_fields t)"
    by (simp add: ticket_field_names_def ticket_fields_def)
  have read: "\<exists>kvs. f = Some kvs \<and> field n (concat kvss) = field n kvs"
    if "(n, f) \<in> set (zip ticket_field_names (ticket_fields t))" for n f
    by (rule field_of_named [OF kvss named _ that]) (simp add: ticket_field_names_def)
  show "ticket_of_json j = Some t"
    by (simp add: j ticket_of_json_def
        read_enc(1) [OF read [of "''user_id''" "enc_str ''user_id'' (t_user t)"]]
        read_enc(1) [OF read [of "''discord_user_id''" "enc_str ''discord_user_id'' (t_discord_user t)"]]
        read_enc(2) [OF read [of "''discord_server_id''" "enc_str_omit ''discord_server_id'' (t_discord_server t)"]]
        read_enc(2) [OF read [of "''username''" "enc_str_omit ''username'' (t_username t)"]]
        read_enc(1) [OF read [of "''redirect_to''" "enc_str ''redirect_to'' (t_redirect t)"]]
        ticket_fields_def ticket_field_names_def)
qed

lemma ticket_json_total: "\<exists>j. ticket_json t = Some j"
  by (simp add: ticket_json_def jobj_def enc_text_def enc_text_omit_def enc_defs)

lemma decrypt_encrypt:
  assumes "encryptTicketID secret i (Some nonce) = Inr token" and "length nonce = NonceSize"
  shows "decryptTicketID secret token = Inr i"
  using assms by (auto simp: encryptTicketID_def decryptTicketID_def split: if_splits)

text \<open>Only tokens sealed with the secret are accepted.\<close>

lemma decrypt_sealed:
  assumes "decryptTicketID secret token = Inr i"
  shows "\<exists>nonce. length nonce = NonceSize \<and> b64_decode token = Some (nonce @ gcm_seal secret nonce i)"
proof -
  obtain raw where raw: "b64_decode token = Some raw" "NonceSize \<le> length raw"
    "gcm_open secret (take NonceSize raw) (drop NonceSize raw) = Some i"
    using assms by (auto simp: decryptTicketID_def split: option.splits if_splits)
  then have "drop NonceSize raw = gcm_seal secret (take NonceSize raw) i"
    by (simp add: gcm_open_iff)
  then have "raw = take NonceSize raw @ gcm_seal secret (take NonceSize raw) i"
    by (metis append_take_drop_id)
  with raw show ?thesis by (intro exI [of _ "take NonceSize raw"]) simp
qed

context redis_service
begin

lemma Issue_stores:
  assumes "Issue R secret (Some i) (Some nonce) ticket st = (Inr token, st')" and "length nonce = NonceSize"
    and ok: "ticket_ok ticket"
  shows "stored view ticket_of_json (KeyLoginTicket (hex_encode i)) st' = Some ticket"
    and "decryptTicketID secret token = Inr i"
proof -
  obtain u where e: "encryptTicketID secret i (Some nonce) = Inr token"
    and s: "SetJSON R ticket_json (KeyLoginTicket (hex_encode i)) ticket TicketTTL st = (Inr u, st')"
    using assms(1) by (auto simp: Issue_def split: sum.splits prod.splits)
  show "stored view ticket_of_json (KeyLoginTicket (hex_encode i)) st' = Some ticket"
    by (rule SetJSON_stored [OF ticket_codec.codec_axioms ok s])
  show "decryptTicketID secret token = Inr i" by (rule decrypt_encrypt [OF e assms(2)])
qed

lemma Consume_ok:
  assumes "Consume R secret token st = (Inr ticket, st')"
  shows "\<exists>i. decryptTicketID secret token = Inr i \<and>
    stored view ticket_of_json (KeyLoginTicket (hex_encode i)) st = Some ticket \<and>
    contents st' = (contents st)(KeyLoginTicket (hex_encode i) := None)"
proof -
  obtain i where i: "decryptTicketID secret token = Inr i"
    and g: "GetDelJSON R ticket_of_json (KeyLoginTicket (hex_encode i)) st = (Inr ticket, st')"
    using assms by (auto simp: Consume_def split: sum.splits prod.splits)
  from GetDelJSON_hit [OF g] i show ?thesis by (auto simp: stored_def)
qed

lemma Consume_absent:
  assumes "decryptTicketID secret token = Inr i" and "contents st (KeyLoginTicket (hex_encode i)) = None"
  shows "\<exists>err st'. Consume R secret token st = (Inl err, st')"
proof -
  obtain res st' where g: "GetDelJSON R ticket_of_json (KeyLoginTicket (hex_encode i)) st = (res, st')" by fastforce
  show ?thesis
  proof (cases res)
    case (Inl err)
    with g assms(1) show ?thesis by (simp add: Consume_def)
  next
    case (Inr v)
    with g have "GetDelJSON R ticket_of_json (KeyLoginTicket (hex_encode i)) st = (Inr v, st')" by simp
    from GetDelJSON_hit [OF this] assms(2) show ?thesis by simp
  qed
qed

end

context live_redis
begin

lemma GetDelJSON_live:
  assumes up: "up (server st)" and get: "GetDelJSON R dec k st = (res, st')"
  shows "up (server st')"
    and "stored view dec k st = Some v \<Longrightarrow> res = Inr v"
    and "contents st k = None \<Longrightarrow> res = Inl ErrMiss"
proof -
  obtain rep r' where r: "r_getdel R k (server st) = (rep, r')" by fastforce
  note ok = up_getdel [OF up r]
  show "up (server st')"
    using ok get r by (auto simp: GetDelJSON_def Let_def split: reply.splits option.splits)
  show "res = Inr v" if "stored view dec k st = Some v"
    using ok get r that getdel_bytes [of k "server st" _ r'] getdel_nil [of k "server st" r']
    by (cases rep) (auto simp: GetDelJSON_def Let_def stored_def split: option.splits)
  show "res = Inl ErrMiss" if "contents st k = None"
    using ok get r that getdel_bytes [of k "server st" _ r']
    by (cases rep) (auto simp: GetDelJSON_def Let_def split: option.splits)
qed

lemma Issue_live:
  assumes up: "up (server st)" and key: "key_ok secret"
    and r: "Issue R secret (Some i) (Some nonce) ticket st = (res, st')"
  shows "res = Inr (b64_encode (nonce @ gcm_seal secret nonce i))" and "up (server st')"
proof -
  let ?k = "KeyLoginTicket (hex_encode i)"
  obtain j where j: "ticket_json ticket = Some j" using ticket_json_total by blast
  obtain res1 st1 where s: "SetJSON R ticket_json ?k ticket TicketTTL st = (res1, st1)" by fastforce
  note ok = SetJSON_live [OF up s j]
  show "res = Inr (b64_encode (nonce @ gcm_seal secret nonce i))" "up (server st')"
    using r s ok key by (simp_all add: Issue_def encryptTicketID_def)
qed

lemma Issue_Consume:
  assumes up: "up (server st)"
    and issue: "Issue R secret (Some i) (Some nonce) ticket st = (Inr token, st1)" and "length nonce = NonceSize"
    and ok: "ticket_ok ticket" and up1: "up (server st1)"
    and c: "Consume R secret token st1 = (res2, st2)" and c': "Consume R secret token st2 = (res3, st3)"
  shows "res2 = Inr ticket" and "res3 = Inl ErrInvalidTicket"
proof -
  let ?k = "KeyLoginTicket (hex_encode i)"
  note issued = Issue_stores [OF issue assms(3) ok]
  obtain got st' where g: "GetDelJSON R ticket_of_json ?k st1 = (got, st')" by fastforce
  note g1 = GetDelJSON_live [OF up1 g]
  have "got = Inr ticket" using g1(2) issued(1) by simp
  then show res2: "res2 = Inr ticket" using c g issued(2) by (simp add: Consume_def)
  have st2: "st2 = st'" using c g issued(2) \<open>got = Inr ticket\<close> by (simp add: Consume_def)
  have gone: "contents st2 ?k = None"
    using GetDelJSON_hit [of ticket_of_json ?k st1 ticket st'] g \<open>got = Inr ticket\<close> st2 by simp
  obtain got' st'' where g': "GetDelJSON R ticket_of_json ?k st2 = (got', st'')" by fastforce
  have "got' = Inl ErrMiss" by (rule GetDelJSON_live(3) [OF _ g' gone]) (simp add: st2 g1(1))
  then show "res3 = Inl ErrInvalidTicket" using c' g' issued(2) by (simp add: Consume_def)
qed

end

end
