(* ===== verification/Tickets.thy ===== *)
theory Tickets
  imports Auth
begin

text \<open>
  What the one-time tickets of \<open>Auth\<close> guarantee: over any interleaving of logins, link
  generation, expiry and the rest of the program, a ticket logs in at most once and only as the
  user it was issued for; a token that was not sealed with the secret is refused; a link works
  and then works no more.
\<close>

section \<open>Traces of the ticket store\<close>

datatype ticket_event = Issued string login_ticket | LoggedIn string login_ticket

text \<open>
  A trace lists its events, the latest first. An attempt to issue counts whatever its result,
  since a write that Redis did not acknowledge may have been applied. The last rule is everything
  else: other entries change and tickets may expire.
\<close>

inductive ticket_trace ::
  "'r redis \<Rightarrow> ('r \<Rightarrow> string \<Rightarrow> payload option) \<Rightarrow> string \<Rightarrow> 'r store \<Rightarrow> ticket_event list \<Rightarrow> 'r store \<Rightarrow> bool"
  for R view secret st0
where
  start: "ticket_trace R view secret st0 [] st0"
| issue: "ticket_trace R view secret st0 es st \<Longrightarrow> ticket_ok ticket \<Longrightarrow>
    Issue R secret (Some i) nonce_rand ticket st = (res, st') \<Longrightarrow>
    ticket_trace R view secret st0 (Issued i ticket # es) st'"
| login: "ticket_trace R view secret st0 es st \<Longrightarrow> decryptTicketID secret token = Inr i \<Longrightarrow>
    Consume R secret token st = (Inr ticket, st') \<Longrightarrow>
    ticket_trace R view secret st0 (LoggedIn i ticket # es) st'"
| refused: "ticket_trace R view secret st0 es st \<Longrightarrow> Consume R secret token st = (Inl err, st') \<Longrightarrow>
    ticket_trace R view secret st0 es st'"
| elsewhere: "ticket_trace R view secret st0 es st \<Longrightarrow>
    (\<forall>i. view (server st') (KeyLoginTicket i) = view (server st) (KeyLoginTicket i) \<or>
      view (server st') (KeyLoginTicket i) = None) \<Longrightarrow>
    ticket_trace R view secret st0 es st'"

definition issues :: "string \<Rightarrow> ticket_event list \<Rightarrow> nat" where
  "issues i es = length (filter (\<lambda>e. \<exists>t. e = Issued i t) es)"

definition logins :: "string \<Rightarrow> ticket_event list \<Rightarrow> nat" where
  "logins i es = length (filter (\<lambda>e. \<exists>t. e = LoggedIn i t) es)"

lemma count_simps [simp]:
  "issues i [] = 0" "logins i [] = 0"
  "issues i (Issued k t # es) = (if i = k then 1 else 0) + issues i es"
  "issues i (LoggedIn k t # es) = issues i es"
  "logins i (LoggedIn k t # es) = (if i = k then 1 else 0) + logins i es"
  "logins i (Issued k t # es) = logins i es"
  by (auto simp: issues_def logins_def)

context redis_service
begin

abbreviation ticket_at :: "string \<Rightarrow> 'r store \<Rightarrow> payload option" where
  "ticket_at i st \<equiv> contents st (KeyLoginTicket (hex_encode i))"

lemma Issue_effect:
  assumes "Issue R secret (Some i) nonce_rand ticket st = (res, st')"
  shows "k \<noteq> i \<Longrightarrow> ticket_at k st' = ticket_at k st"
    and "ticket_at i st' = ticket_at i st \<or>
      (\<exists>j. ticket_json ticket = Some j \<and> ticket_at i st' = Some (Some j))"
proof -
  have "st' = st \<or>
    (\<exists>res'. SetJSON R ticket_json (KeyLoginTicket (hex_encode i)) ticket TicketTTL st = (res', st'))"
    using assms by (auto simp: Issue_def split: sum.splits prod.splits)
  then show "k \<noteq> i \<Longrightarrow> ticket_at k st' = ticket_at k st"
    "ticket_at i st' = ticket_at i st \<or>
      (\<exists>j. ticket_json ticket = Some j \<and> ticket_at i st' = Some (Some j))"
    by (auto dest: SetJSON_at SetJSON_other [where k' = "KeyLoginTicket (hex_encode k)"])
qed

lemma Consume_effect:
  assumes "Consume R secret token st = (res, st')"
  shows "ticket_at k st' = ticket_at k st \<or> ticket_at k st' = None"
proof -
  have "st' = st \<or> (\<exists>i res'. GetDelJSON R ticket_of_json (KeyLoginTicket (hex_encode i)) st = (res', st'))"
    using assms by (auto simp: Consume_def split: sum.splits prod.splits)
  then show ?thesis
  proof (elim disjE exE)
    fix i res'
    assume "GetDelJSON R ticket_of_json (KeyLoginTicket (hex_encode i)) st = (res', st')"
    then show ?thesis by (cases "k = i") (auto dest: GetDelJSON_at simp: GetDelJSON_other)
  qed simp
qed

lemma login_takes:
  assumes "decryptTicketID secret token = Inr k" and "Consume R secret token st = (Inr ticket, st')"
  obtains j where "ticket_at k st = Some (Some j)" "ticket_of_json j = Some ticket"
    "contents st' = (contents st)(KeyLoginTicket (hex_encode k) := None)"
proof -
  have "stored view ticket_of_json (KeyLoginTicket (hex_encode k)) st = Some ticket"
    and gone: "contents st' = (contents st)(KeyLoginTicket (hex_encode k) := None)"
    using Consume_ok [OF assms(2)] assms(1) by auto
  then obtain j where "ticket_at k st = Some (Some j)" "ticket_of_json j = Some ticket"
    by (auto simp: stored_def split: option.splits)
  then show thesis using gone by (rule that)
qed

lemma trace_counts:
  assumes "ticket_trace R view secret st0 es st" and fresh: "\<And>i. ticket_at i st0 = None"
  shows "logins i es + (if ticket_at i st = None then 0 else 1) \<le> issues i es"
  using assms(1)
proof induction
  case start
  show ?case by (simp add: fresh)
next
  case (issue es st ticket k nonce_rand res st')
  then show ?case using Issue_effect [OF issue(3)] by (cases "i = k") (auto split: if_splits)
next
  case (login es st token k ticket st')
  show ?case
    by (rule login_takes [OF login(2,3)]) (use login(4) in \<open>auto split: if_splits\<close>)
next
  case (refused es st token err st')
  then show ?case using Consume_effect [OF refused(2), of i] by (auto split: if_splits)
next
  case (elsewhere es st st')
  note eff = elsewhere(2) [rule_format, of "hex_encode i"]
  show ?case using elsewhere(3) eff by (auto split: if_splits)
qed

lemma trace_provenance:
  assumes "ticket_trace R view secret st0 es st" and fresh: "\<And>i. ticket_at i st0 = None"
  shows "ticket_at i st = Some (Some j) \<Longrightarrow> \<exists>t. Issued i t \<in> set es \<and> ticket_ok t \<and> ticket_json t = Some j"
    and "LoggedIn i t \<in> set es \<Longrightarrow> Issued i t \<in> set es"
  using assms(1)
proof (induction arbitrary: i j t)
  case start
  { case 1 then show ?case by (simp add: fresh) }
  { case 2 then show ?case by simp }
next
  case (issue es st ticket k nonce_rand res st')
  note eff = Issue_effect [OF issue(3)]
  { case 1
    show ?case
    proof (cases "ticket_at i st' = ticket_at i st")
      case True
      with 1 issue(4) [of i j] show ?thesis by auto
    next
      case False
      then have "i = k" using eff(1) by blast
      with 1 False eff(2) issue(2) show ?thesis by auto
    qed }
  { case 2 then show ?case using issue(5) by simp }
next
  case (login es st token k ticket st')
  obtain j' where at: "ticket_at k st = Some (Some j')" "ticket_of_json j' = Some ticket"
    and gone: "contents st' = (contents st)(KeyLoginTicket (hex_encode k) := None)"
    by (rule login_takes [OF login(2,3)])
  { case 1 then show ?case using login(4) gone by (auto split: if_splits) }
  { case 2
    obtain t' where "Issued k t' \<in> set es" "ticket_ok t'" "ticket_json t' = Some j'"
      using login(4) [OF at(1)] by blast
    then show ?case using 2 login(5) ticket_codec.roundtrip [of t' j'] at(2) by auto }
next
  case (refused es st token err st')
  { case 1 then show ?case using refused(3) Consume_effect [OF refused(2), of i] by auto }
  { case 2 then show ?case using refused(4) by simp }
next
  case (elsewhere es st st')
  { case 1 then show ?case using elsewhere(3) elsewhere(2) [rule_format, of "hex_encode i"] by auto }
  { case 2 then show ?case using elsewhere(4) by simp }
qed

end

section \<open>Properties\<close>

text \<open>
  C8: login tickets are one-time credentials. Starting without tickets, over every interleaving of
  issued tickets, logins, refused tokens, expiry and changes of other entries, each ticket id logs
  in at most as often as it was issued (ids are 32 random bytes, so once), and only with the data
  of a ticket that was issued under that id, whatever Redis answers.
\<close>

theorem tickets_used_once:
  assumes "redis_service R view" and "ticket_trace R view secret st0 es st"
    and "\<And>i. view (server st0) (KeyLoginTicket (hex_encode i)) = None"
  shows "logins i es \<le> issues i es \<and> (LoggedIn i t \<in> set es \<longrightarrow> Issued i t \<in> set es)"
proof (intro conjI impI)
  show "logins i es \<le> issues i es"
    using redis_service.trace_counts [OF assms, of i] by (rule add_leD1)
  show "LoggedIn i t \<in> set es \<Longrightarrow> Issued i t \<in> set es"
    by (rule redis_service.trace_provenance(2) [OF assms])
qed

text \<open>
  a link works, once: while Redis is up, a ticket that was issued is returned by the first
  \<open>Consume\<close> of its token and refused by the second.
\<close>

theorem ticket_link_works_once:
  assumes "live_redis R view up" and "up (server st)" and "key_ok secret" and "length nonce = NonceSize"
    and "ticket_ok ticket"
    and issue: "Issue R secret (Some i) (Some nonce) ticket st = (issued, st1)"
    and first: "Consume R secret (b64_encode (nonce @ gcm_seal secret nonce i)) st1 = (res, st2)"
    and second: "Consume R secret (b64_encode (nonce @ gcm_seal secret nonce i)) st2 = (res', st3)"
  shows "issued = Inr (b64_encode (nonce @ gcm_seal secret nonce i)) \<and> res = Inr ticket \<and>
    res' = Inl ErrInvalidTicket"
proof -
  note issued = live_redis.Issue_live [OF assms(1-3) issue]
  with live_redis.Issue_Consume [OF assms(1,2) _ assms(4,5) issued(2) first second] issue
  show ?thesis by simp
qed

text \<open>
  forged tokens are refused: \<open>Consume\<close> accepts a token only when it is the base64 of a nonce
  followed by an AES-GCM box that the server's secret seals, and then the ticket stored under the
  sealed id is the one returned and is no longer stored.
\<close>

theorem Consume_only_sealed:
  assumes "redis_service R view" and "Consume R secret token st = (Inr ticket, st')"
  shows "\<exists>i nonce. length nonce = NonceSize \<and>
    b64_decode token = Some (nonce @ gcm_seal secret nonce i) \<and>
    stored view ticket_of_json (KeyLoginTicket (hex_encode i)) st = Some ticket \<and>
    view (server st') = (view (server st))(KeyLoginTicket (hex_encode i) := None)"
  using redis_service.Consume_ok [OF assms] decrypt_sealed by blast

section \<open>Examples\<close>

definition ex_ticket :: login_ticket where
  "ex_ticket =
     \<lparr>t_user = ''u1'', t_discord_user = ''42'', t_discord_server = ''7'', t_username = ''ann'',
      t_redirect = ''/dashboard''\<rparr>"

definition ex_secret :: string where
  "ex_secret = replicate 32 (CHR ''k'')"

definition ex_nonce :: string where
  "ex_nonce = replicate 12 (CHR ''n'')"

definition ex_token :: string where
  "ex_token = b64_encode (ex_nonce @ gcm_seal ex_secret ex_nonce ''ticket'')"

definition ex_issued :: "mem store" where
  "ex_issued = snd (Issue mem_redis ex_secret (Some ''ticket'') (Some ex_nonce) ex_ticket (store_of mem_empty))"

lemma ex_ticket_facts:
  "ticket_ok ex_ticket" "key_ok ex_secret" "length ex_nonce = NonceSize"
  by (simp_all add: ticket_ok_def ex_ticket_def key_ok_def ex_secret_def ex_nonce_def NonceSize_def)

lemma ex_issue:
  "Issue mem_redis ex_secret (Some ''ticket'') (Some ex_nonce) ex_ticket (store_of mem_empty) =
     (Inr ex_token, ex_issued)"
  using mem_live.Issue_live(1) [OF _ ex_ticket_facts(2), of "store_of mem_empty" "''ticket''" ex_nonce ex_ticket]
  by (simp add: ex_token_def ex_issued_def prod_eq_iff)

lemma ex_decrypt: "decryptTicketID ex_secret ex_token = Inr ''ticket''"
  by (rule mem.Issue_stores(2) [OF ex_issue ex_ticket_facts(3,1)])

theorem ticket_link_works_once_witness:
  "fst (Consume mem_redis ex_secret ex_token ex_issued) = Inr ex_ticket \<and>
   fst (Consume mem_redis ex_secret ex_token (snd (Consume mem_redis ex_secret ex_token ex_issued))) =
     Inl ErrInvalidTicket"
  using ticket_link_works_once [OF mem_live.live_redis_axioms _ ex_ticket_facts(2,3,1) ex_issue
      [unfolded ex_token_def] prod.collapse [symmetric] prod.collapse [symmetric]]
  by (simp add: ex_token_def)

lemma ex_login: "Consume mem_redis ex_secret ex_token ex_issued = (Inr ex_ticket, snd (Consume mem_redis ex_secret ex_token ex_issued))"
  using mem_live.Issue_Consume(1) [OF _ ex_issue ex_ticket_facts(3,1) _ prod.collapse [symmetric] prod.collapse [symmetric]]
    mem_live.Issue_live(2) [OF _ ex_ticket_facts(2) ex_issue]
  by (simp add: prod_eq_iff)

theorem tickets_used_once_witness:
  "logins ''ticket'' [LoggedIn ''ticket'' ex_ticket, Issued ''ticket'' ex_ticket] \<le> 1 \<and>
   Issued ''ticket'' ex_ticket \<in> set [LoggedIn ''ticket'' ex_ticket, Issued ''ticket'' ex_ticket]"
proof -
  have "ticket_trace mem_redis mem_view ex_secret (store_of mem_empty)
      [LoggedIn ''ticket'' ex_ticket, Issued ''ticket'' ex_ticket]
      (snd (Consume mem_redis ex_secret ex_token ex_issued))"
    by (rule ticket_trace.login [OF ticket_trace.issue [OF ticket_trace.start ex_ticket_facts(1) ex_issue] ex_decrypt ex_login])
  from tickets_used_once [OF mem.redis_service_axioms this, of "''ticket''" ex_ticket] show ?thesis by simp
qed

theorem Consume_only_sealed_witness:
  "\<exists>i nonce. length nonce = NonceSize \<and> b64_decode ex_token = Some (nonce @ gcm_seal ex_secret nonce i) \<and>
     stored mem_view ticket_of_json (KeyLoginTicket (hex_encode i)) ex_issued = Some ex_ticket"
  using Consume_only_sealed [OF mem.redis_service_axioms ex_login] by blast

end
