(* ===== verification/Http.thy ===== *)
theory Http
  imports Auth
begin

text \<open>
  Requests and responses as the handlers see them: the parts of \<open>net/http\<close> the source calls
  (header access, \<open>WriteHeader\<close> with the rule that the first status wins, \<open>Error\<close>,
  \<open>Redirect\<close>, \<open>SetCookie\<close>), \<open>internal/transport/http/response\<close> and the page renderer of
  \<open>internal/ui\<close>. A handler takes a request, the response so far and the state of the server; it
  returns both, or panics, which \<open>net/http\<close> handlers may.
\<close>

section \<open>Requests\<close>

datatype body = NoBody | EmptyBody | MalformedBody | JsonBody json

record request =
  rq_method :: string
  rq_path :: string
  rq_query :: "(string \<times> string) list"
  rq_headers :: "(string \<times> string) list"
  rq_cookies :: "(string \<times> string) list"
  rq_body :: body
  rq_tls :: bool
  rq_remote :: string
  rq_claims :: "claims option"

text \<open>\<open>Header.Get\<close>: the first value of the header, whose name is compared without case.\<close>

definition get_header :: "request \<Rightarrow> string \<Rightarrow> string" where
  "get_header r n =
     (case find (\<lambda>kv. map ascii_lower (fst kv) = map ascii_lower n) (rq_headers r) of
        None \<Rightarrow> '''' | Some kv \<Rightarrow> snd kv)"

definition query_value :: "request \<Rightarrow> string \<Rightarrow> string" where
  "query_value r n = (case map_of (rq_query r) n of None \<Rightarrow> '''' | Some v \<Rightarrow> v)"

definition SetClaims :: "request \<Rightarrow> claims \<Rightarrow> request" where
  "SetClaims r c = r\<lparr>rq_claims := Some c\<rparr>"

definition ClaimsFromContext :: "request \<Rightarrow> claims option" where
  "ClaimsFromContext r = rq_claims r"

section \<open>Responses\<close>

datatype chunk = JsonChunk json | TextChunk string | PageChunk string

record writer =
  w_header :: "(string \<times> string) list"
  w_status :: "nat option"
  w_sent :: "(string \<times> string) list"
  w_body :: "chunk list"

definition fresh_writer :: writer where
  "fresh_writer = \<lparr>w_header = [], w_status = None, w_sent = [], w_body = []\<rparr>"

definition add_header :: "string \<Rightarrow> string \<Rightarrow> writer \<Rightarrow> writer" where
  "add_header n v w = w\<lparr>w_header := w_header w @ [(n, v)]\<rparr>"

definition set_header :: "string \<Rightarrow> string \<Rightarrow> writer \<Rightarrow> writer" where
  "set_header n v w = w\<lparr>w_header := filter (\<lambda>kv. fst kv \<noteq> n) (w_header w) @ [(n, v)]\<rparr>"

text \<open>The first status is sent with the headers of that moment; later ones are ignored.\<close>

definition WriteHeader :: "nat \<Rightarrow> writer \<Rightarrow> writer" where
  "WriteHeader code w =
     (if w_status w = None then w\<lparr>w_status := Some code, w_sent := w_header w\<rparr> else w)"

definition write_chunk :: "chunk \<Rightarrow> writer \<Rightarrow> writer" where
  "write_chunk c w = (let w = WriteHeader 200 w in w\<lparr>w_body := w_body w @ [c]\<rparr>)"

definition http_Error :: "string \<Rightarrow> nat \<Rightarrow> writer \<Rightarrow> writer" where
  "http_Error msg code w =
     write_chunk (TextChunk msg)
       (WriteHeader code
         (set_header ''X-Content-Type-Options'' ''nosniff''
           (set_header ''Content-Type'' ''text/plain; charset=utf-8'' w)))"

definition WriteJSON :: "nat \<Rightarrow> json option \<Rightarrow> writer \<Rightarrow> writer" where
  "WriteJSON status body w =
     (let w = WriteHeader status (set_header ''Content-Type'' ''application/json'' w) in
      case body of None \<Rightarrow> w | Some j \<Rightarrow> write_chunk (JsonChunk j) w)"

definition error_body :: "string \<Rightarrow> string \<Rightarrow> json" where
  "error_body code message =
     JObj [(''error'', JObj [(''code'', JStr (utf8_fix code)), (''message'', JStr (utf8_fix message))])]"

definition WriteError :: "nat \<Rightarrow> string \<Rightarrow> string \<Rightarrow> writer \<Rightarrow> writer" where
  "WriteError status code message w = WriteJSON status (Some (error_body code message)) w"

section \<open>Redirects\<close>

definition split_on :: "char \<Rightarrow> string \<Rightarrow> string list" where
  "split_on c s =
     foldr (\<lambda>x acc. if x = c then [] # acc else case acc of [] \<Rightarrow> [[x]] | y # ys \<Rightarrow> (x # y) # ys) s [[]]"

definition cut_at :: "char \<Rightarrow> string \<Rightarrow> string \<times> string" where
  "cut_at c s = (takeWhile (\<lambda>x. x \<noteq> c) s, dropWhile (\<lambda>x. x \<noteq> c) s)"

text \<open>\<open>path.Clean\<close> of a rooted path.\<close>

definition clean_step :: "string \<Rightarrow> string list \<Rightarrow> string list" where
  "clean_step seg stack =
     (if seg = '''' \<or> seg = ''.'' then stack
      else if seg = ''..'' then (case stack of [] \<Rightarrow> [] | _ # rest \<Rightarrow> rest)
      else seg # stack)"

definition clean_path :: "string \<Rightarrow> string" where
  "clean_path p =
     (let stack = fold clean_step (split_on CHR ''/'' p) [] in
      if stack = [] then ''/'' else concat (map (\<lambda>seg. CHR ''/'' # seg) (rev stack)))"

text \<open>Whether \<open>url.Parse\<close> accepts a rooted path: no control character before the fragment, and
  well formed escapes in the path and in the fragment.\<close>

fun escapes_ok :: "string \<Rightarrow> bool" where
  "escapes_ok [] = True"
| "escapes_ok (c # s) =
     (if c = CHR ''%''
      then (case s of a # b # r \<Rightarrow> hex_val a \<noteq> None \<and> hex_val b \<noteq> None \<and> escapes_ok r | _ \<Rightarrow> False)
      else escapes_ok s)"

definition url_parses :: "string \<Rightarrow> bool" where
  "url_parses u =
     (let (main, frag) = cut_at CHR ''#'' u; (p, q) = cut_at CHR ''?'' main in
      list_all (\<lambda>c. 32 \<le> (of_char c :: nat) \<and> (of_char c :: nat) \<noteq> 127) main \<and>
      escapes_ok p \<and> escapes_ok (drop 1 frag))"

text \<open>The \<open>Location\<close> that \<open>http.Redirect\<close> sends for a target that starts with one slash; every
  target of this program is one (\<open>NormalizeRedirect\<close>). Others are sent as they are.\<close>

definition escape_non_ascii :: "string \<Rightarrow> string" where
  "escape_non_ascii s =
     concat (map (\<lambda>c. if (of_char c :: nat) < 128 then [c] else CHR ''%'' # hex_encode [c]) s)"

definition redirect_location :: "string \<Rightarrow> string" where
  "redirect_location url =
     escape_non_ascii
       (if prefix ''/'' url \<and> \<not> prefix ''//'' url \<and> url_parses url
        then (let (p, q) = cut_at CHR ''?'' url; cleaned = clean_path p in
              (if suffix ''/'' p \<and> \<not> suffix ''/'' cleaned then cleaned @ ''/'' else cleaned) @ q)
        else url)"

definition http_Redirect :: "request \<Rightarrow> string \<Rightarrow> nat \<Rightarrow> writer \<Rightarrow> writer" where
  "http_Redirect r url code w =
     (let hadCT = (map_of (w_header w) ''Content-Type'' \<noteq> None);
          w = set_header ''Location'' (redirect_location url) w;
          w = (if \<not> hadCT \<and> (rq_method r = ''GET'' \<or> rq_method r = ''HEAD'')
               then set_header ''Content-Type'' ''text/html; charset=utf-8'' w else w);
          w = WriteHeader code w in
      if \<not> hadCT \<and> rq_method r = ''GET'' then write_chunk (TextChunk ''See Other'') w else w)"

section \<open>Pages\<close>

text \<open>The templates are a parameter: whether executing one succeeds, and whether a failing one had
  already written output.\<close>

datatype page = PageOk | PageFails bool

definition Render :: "(string \<Rightarrow> page) \<Rightarrow> string \<Rightarrow> writer \<Rightarrow> (go_error + unit) \<times> writer" where
  "Render pages name w =
     (let w = set_header ''Content-Type'' ''text/html; charset=utf-8'' w in
      case pages name of
        PageOk \<Rightarrow> (Inr (), write_chunk (PageChunk name) w)
      | PageFails partial \<Rightarrow>
          (Inl (Wrapf ''render template'' (Errorf name)),
           if partial then write_chunk (PageChunk name) w else w))"

section \<open>Handlers\<close>

datatype 's served = Served writer 's | Panicked writer 's

type_synonym 's handler = "request \<Rightarrow> writer \<Rightarrow> 's \<Rightarrow> 's served"

type_synonym 's middleware = "'s handler \<Rightarrow> 's handler"

fun reply_of :: "'s served \<Rightarrow> writer" where
  "reply_of (Served w s) = w"
| "reply_of (Panicked w s) = w"

fun state_of :: "'s served \<Rightarrow> 's" where
  "state_of (Served w s) = s"
| "state_of (Panicked w s) = s"

section \<open>Lemmas\<close>

lemma writer_simps [simp]:
  "w_status fresh_writer = None" "w_body fresh_writer = []" "w_header fresh_writer = []"
  "w_status (set_header n v w) = w_status w" "w_body (set_header n v w) = w_body w"
  "w_status (add_header n v w) = w_status w" "w_body (add_header n v w) = w_body w"
  "w_header (WriteHeader code w) = w_header w" "w_body (WriteHeader code w) = w_body w"
  "w_header (write_chunk c w) = w_header w" "w_body (write_chunk c w) = w_body w @ [c]"
  by (simp_all add: fresh_writer_def set_header_def add_header_def WriteHeader_def write_chunk_def Let_def)

lemma status_WriteHeader [simp]:
  "w_status (WriteHeader code w) = (case w_status w of None \<Rightarrow> Some code | Some c \<Rightarrow> Some c)"
  by (auto simp: WriteHeader_def split: option.split)

lemma status_write_chunk [simp]:
  "w_status (write_chunk c w) = (case w_status w of None \<Rightarrow> Some 200 | Some c \<Rightarrow> Some c)"
  by (auto simp: write_chunk_def Let_def split: option.split)

lemma status_WriteJSON [simp]:
  "w_status (WriteJSON status body w) = (case w_status w of None \<Rightarrow> Some status | Some c \<Rightarrow> Some c)"
  "w_body (WriteJSON status body w) =
     w_body w @ (case body of None \<Rightarrow> [] | Some j \<Rightarrow> [JsonChunk j])"
  by (auto simp: WriteJSON_def Let_def split: option.split)

lemma status_WriteError [simp]:
  "w_status (WriteError status code msg w) = (case w_status w of None \<Rightarrow> Some status | Some c \<Rightarrow> Some c)"
  "w_body (WriteError status code msg w) = w_body w @ [JsonChunk (error_body code msg)]"
  by (simp_all add: WriteError_def)

lemma status_http_Error [simp]:
  "w_status (http_Error msg code w) = (case w_status w of None \<Rightarrow> Some code | Some c \<Rightarrow> Some c)"
  "w_body (http_Error msg code w) = w_body w @ [TextChunk msg]"
  by (auto simp: http_Error_def split: option.split)

lemma status_http_Redirect [simp]:
  "w_status (http_Redirect r url code w) = (case w_status w of None \<Rightarrow> Some code | Some c \<Rightarrow> Some c)"
  by (auto simp: http_Redirect_def Let_def split: option.split)

text \<open>Headers that reach the client.\<close>

lemma sent_WriteHeader [simp]:
  "w_sent (WriteHeader code w) = (if w_status w = None then w_header w else w_sent w)"
  by (simp add: WriteHeader_def)

lemma sent_write_chunk [simp]:
  "w_sent (write_chunk c w) = (if w_status w = None then w_header w else w_sent w)"
  by (simp add: write_chunk_def Let_def)

definition sent_header :: "string \<Rightarrow> writer \<Rightarrow> string option" where
  "sent_header n w = map_of (w_sent w) n"

lemma map_of_set_header [simp]:
  "map_of (w_header (set_header n v w)) m = (if n = m then Some v else map_of (w_header w) m)"
proof -
  have none: "map_of (filter (\<lambda>kv. fst kv \<noteq> k) xs) k = None" for xs :: "(string \<times> string) list" and k
    by (auto simp: map_of_eq_None_iff)
  have other: "n \<noteq> m \<Longrightarrow> map_of (filter (\<lambda>kv. fst kv \<noteq> n) xs) m = map_of xs m" for xs :: "(string \<times> string) list"
    by (induction xs) auto
  show ?thesis
    by (cases "n = m") (simp_all add: set_header_def map_add_def none other split: option.split)
qed

lemma sent_Redirect:
  "w_status w = None \<Longrightarrow> sent_header ''Location'' (http_Redirect r url code w) = Some (redirect_location url)"
proof -
  assume w: "w_status w = None"
  let ?l = "set_header ''Location'' (redirect_location url) w"
  let ?c = "set_header ''Content-Type'' ''text/html; charset=utf-8'' ?l"
  have "map_of (w_header ?l) ''Location'' = Some (redirect_location url)"
    "map_of (w_header ?c) ''Location'' = Some (redirect_location url)"
    by (simp_all only: map_of_set_header) simp_all
  moreover have "w_sent (http_Redirect r url code w) \<in> {w_header ?l, w_header ?c}"
  proof -
    define l where "l = ?l"
    define c where "c = set_header ''Content-Type'' ''text/html; charset=utf-8'' l"
    have "w_status l = None" "w_status c = None" using w by (simp_all add: l_def c_def)
    then have "w_sent (http_Redirect r url code w) \<in> {w_header l, w_header c}"
      unfolding http_Redirect_def Let_def l_def [symmetric] c_def [symmetric] by simp
    then show ?thesis by (simp only: l_def c_def)
  qed
  ultimately show ?thesis unfolding sent_header_def by auto
qed

lemma get_header_update [simp]:
  "get_header (r\<lparr>rq_claims := c\<rparr>) n = get_header r n" "get_header (SetClaims r c') n = get_header r n"
  by (simp_all add: get_header_def SetClaims_def)

end
