(* ===== verification/BrowserSessions.thy ===== *)
theory BrowserSessions
  imports Http Refinement
begin

text \<open>
  \<open>internal/session\<close>: browser sessions kept in the cache, the service that creates, reads and
  deletes them, and the cookie that carries their id. The clock and the random UUID are arguments.
  The service refines a table of sessions that forgets an expired session when it is read.
\<close>

section \<open>Sessions\<close>

record browser_session =
  bs_id :: string
  bs_user :: string
  bs_discord :: string
  bs_server :: string
  bs_username :: string
  bs_created :: time
  bs_expires :: time

definition browser_session_json :: "browser_session \<Rightarrow> json option" where
  "browser_session_json s =
     jobj [enc_text ''session_id'' (bs_id s), enc_text ''user_id'' (bs_user s),
       enc_text ''discord_id'' (bs_discord s), enc_text_omit ''discord_server_id'' (bs_server s),
       enc_text_omit ''username'' (bs_username s), enc_time ''created_at'' (bs_created s),
       enc_time ''expires_at'' (bs_expires s)]"

definition zero_browser_session :: browser_session where
  "zero_browser_session =
     \<lparr>bs_id = '''', bs_user = '''', bs_discord = '''', bs_server = '''', bs_username = '''',
      bs_created = zero_time, bs_expires = zero_time\<rparr>"

definition browser_session_of_json :: "json \<Rightarrow> browser_session option" where
  "browser_session_of_json = dec_struct zero_browser_session (\<lambda>kvs. do {
     id' \<leftarrow> dec_str ''session_id'' kvs;
     user \<leftarrow> dec_str ''user_id'' kvs;
     discord \<leftarrow> dec_str ''discord_id'' kvs;
     server \<leftarrow> dec_str ''discord_server_id'' kvs;
     username \<leftarrow> dec_str ''username'' kvs;
     created \<leftarrow> dec_time ''created_at'' kvs;
     expires \<leftarrow> dec_time ''expires_at'' kvs;
     Some \<lparr>bs_id = id', bs_user = user, bs_discord = discord, bs_server = server,
       bs_username = username, bs_created = created, bs_expires = expires\<rparr>
   })"

definition Session_Claims :: "browser_session \<Rightarrow> claims" where
  "Session_Claims s =
     no_claims\<lparr>c_user := bs_user s, c_discord_user := bs_discord s, c_discord_server := bs_server s\<rparr>"

definition Expired :: "browser_session \<Rightarrow> time \<Rightarrow> bool" where
  "Expired s now = (bs_expires s < now)"

section \<open>The service\<close>

definition session_TTL :: duration where
  "session_TTL = 7 * 24 * 3600 * sec_ns"

record create_input =
  ci_user :: string
  ci_discord :: string
  ci_server :: string
  ci_username :: string

definition new_session :: "time \<Rightarrow> string \<Rightarrow> create_input \<Rightarrow> browser_session" where
  "new_session now uuid input =
     \<lparr>bs_id = uuid, bs_user = ci_user input, bs_discord = ci_discord input,
      bs_server = ci_server input, bs_username = ci_username input,
      bs_created = now, bs_expires = now + session_TTL\<rparr>"

definition Service_Create ::
  "'r redis \<Rightarrow> time \<Rightarrow> string \<Rightarrow> create_input \<Rightarrow> 'r store \<Rightarrow> (go_error + browser_session) \<times> 'r store"
where
  "Service_Create R now uuid input st =
     (let session = new_session now uuid input in
      case SetJSON R browser_session_json (KeySession (bs_id session)) session session_TTL st of
        (Inl err, st) \<Rightarrow> (Inl err, st)
      | (Inr _, st) \<Rightarrow> (Inr session, st))"

definition Service_Delete :: "'r redis \<Rightarrow> string \<Rightarrow> 'r store \<Rightarrow> (go_error + unit) \<times> 'r store" where
  "Service_Delete R sessionID st =
     (if sessionID = '''' then (Inr (), st) else Delete R (KeySession sessionID) st)"

definition Service_Get ::
  "'r redis \<Rightarrow> time \<Rightarrow> string \<Rightarrow> 'r store \<Rightarrow> (go_error + browser_session) \<times> 'r store"
where
  "Service_Get R now sessionID st =
     (case GetJSON R browser_session_of_json (KeySession sessionID) st of
        (Inl err, st) \<Rightarrow> (Inl err, st)
      | (Inr session, st) \<Rightarrow>
          if Expired session now then (Inl ErrMiss, snd (Service_Delete R sessionID st))
          else (Inr session, st))"

section \<open>The cookie\<close>

definition CookieName :: string where
  "CookieName = ''session_id''"

definition CookieMaxAge :: int where
  "CookieMaxAge = 604800"

record cookie =
  ck_name :: string
  ck_value :: string
  ck_path :: string
  ck_http_only :: bool
  ck_secure :: bool
  ck_lax :: bool
  ck_max_age :: int

text \<open>\<open>strings.EqualFold\<close> with an ASCII literal: besides the case of ASCII letters, only the long s
  and the Kelvin sign fold to ASCII.\<close>

fun fold_to_ascii :: "string \<Rightarrow> string" where
  "fold_to_ascii (a # b # c # s) =
     (if a = CHR 0xC5 \<and> b = CHR 0xBF then CHR ''s'' # fold_to_ascii (c # s)
      else if a = CHR 0xE2 \<and> b = CHR 0x84 \<and> c = CHR 0xAA then CHR ''k'' # fold_to_ascii s
      else ascii_lower a # fold_to_ascii (b # c # s))"
| "fold_to_ascii [a, b] =
     (if a = CHR 0xC5 \<and> b = CHR 0xBF then ''s'' else [ascii_lower a, ascii_lower b])"
| "fold_to_ascii s = map ascii_lower s"

definition cookieSecure :: "request \<Rightarrow> bool" where
  "cookieSecure r =
     (if rq_tls r then True else fold_to_ascii (get_header r ''X-Forwarded-Proto'') = ''https'')"

definition sessionCookie :: "request \<Rightarrow> string \<Rightarrow> int \<Rightarrow> cookie" where
  "sessionCookie r value maxAge =
     \<lparr>ck_name = CookieName, ck_value = value, ck_path = ''/'', ck_http_only = True,
      ck_secure = cookieSecure r, ck_lax = True, ck_max_age = maxAge\<rparr>"

text \<open>\<open>http.SetCookie\<close> and the text of a cookie.\<close>

definition cookie_value :: "string \<Rightarrow> string" where
  "cookie_value v =
     (let v = filter (\<lambda>c. 32 \<le> (of_char c :: nat) \<and> (of_char c :: nat) < 127 \<and>
            c \<noteq> CHR 0x22 \<and> c \<noteq> CHR '';'' \<and> c \<noteq> CHR 0x5C) v in
      if CHR '' '' \<in> set v \<or> CHR '','' \<in> set v then [CHR 0x22] @ v @ [CHR 0x22] else v)"

definition cookie_text :: "cookie \<Rightarrow> string" where
  "cookie_text c =
     ck_name c @ ''='' @ cookie_value (ck_value c) @ ''; Path='' @ ck_path c @
     (if ck_max_age c > 0 then ''; Max-Age='' @ show_int (ck_max_age c)
      else if ck_max_age c < 0 then ''; Max-Age=0'' else '''') @
     (if ck_http_only c then ''; HttpOnly'' else '''') @ (if ck_secure c then ''; Secure'' else '''') @
     (if ck_lax c then ''; SameSite=Lax'' else '''')"

definition SetCookie :: "request \<Rightarrow> string \<Rightarrow> writer \<Rightarrow> writer" where
  "SetCookie r sessionID w =
     add_header ''Set-Cookie'' (cookie_text (sessionCookie r sessionID CookieMaxAge)) w"

definition ClearCookie :: "request \<Rightarrow> writer \<Rightarrow> writer" where
  "ClearCookie r w = add_header ''Set-Cookie'' (cookie_text (sessionCookie r '''' (-1))) w"

definition SessionIDFromRequest :: "request \<Rightarrow> string" where
  "SessionIDFromRequest r =
     (case map_of (rq_cookies r) CookieName of None \<Rightarrow> '''' | Some value \<Rightarrow> trim_space value)"

definition Service_Lookup ::
  "'r redis \<Rightarrow> time \<Rightarrow> request \<Rightarrow> 'r store \<Rightarrow> (go_error + claims option) \<times> 'r store"
where
  "Service_Lookup R now r st =
     (let sessionID = SessionIDFromRequest r in
      if sessionID = '''' then (Inr None, st)
      else
        (case Service_Get R now sessionID st of
           (Inl err, st) \<Rightarrow> if errors_is err ErrMiss then (Inr None, st) else (Inl err, st)
         | (Inr session, st) \<Rightarrow> (Inr (Some (Session_Claims session)), st)))"

section \<open>Codec\<close>

definition browser_session_ok :: "browser_session \<Rightarrow> bool" where
  "browser_session_ok s \<longleftrightarrow> is_utf8 (bs_id s) \<and> is_utf8 (bs_user s) \<and> is_utf8 (bs_discord s) \<and>
     is_utf8 (bs_server s) \<and> is_utf8 (bs_username s)"

definition browser_fields :: "browser_session \<Rightarrow> fields list" where
  "browser_fields s =
     [enc_str ''session_id'' (bs_id s), enc_str ''user_id'' (bs_user s),
       enc_str ''discord_id'' (bs_discord s), enc_str_omit ''discord_server_id'' (bs_server s),
       enc_str_omit ''username'' (bs_username s), enc_time ''created_at'' (bs_created s),
       enc_time ''expires_at'' (bs_expires s)]"

definition browser_field_names :: "string list" where
  "browser_field_names =
     [''session_id'', ''user_id'', ''discord_id'', ''discord_server_id'', ''username'', ''created_at'', ''expires_at'']"

lemma browser_session_fields: "browser_session_ok s \<Longrightarrow> browser_session_json s = jobj (browser_fields s)"
  by (simp add: browser_session_ok_def browser_session_json_def browser_fields_def)

interpretation browser_codec: codec browser_session_json browser_session_of_json browser_session_ok
proof
  fix s j
  assume "browser_session_ok s" "browser_session_json s = Some j"
  then obtain kvss where kvss: "those (browser_fields s) = Some kvss" and j: "j = JObj (concat kvss)"
    by (auto simp: browser_session_fields jobj_Some_iff)
  have named: "list_all2 named browser_field_names (browser_fields s)"
    by (simp add: browser_field_names_def browser_fields_def)
  have read: "\<exists>kvs. f = Some kvs \<and> field n (concat kvss) = field n kvs"
    if "(n, f) \<in> set (zip browser_field_names (browser_fields s))" for n f
    by (rule field_of_named [OF kvss named _ that]) (simp add: browser_field_names_def)
  show "browser_session_of_json j = Some s"
    by (simp add: j browser_session_of_json_def
        read_enc(1) [OF read [of "''session_id''" "enc_str ''session_id'' (bs_id s)"]]
        read_enc(1) [OF read [of "''user_id''" "enc_str ''user_id'' (bs_user s)"]]
        read_enc(1) [OF read [of "''discord_id''" "enc_str ''discord_id'' (bs_discord s)"]]
        read_enc(2) [OF read [of "''discord_server_id''" "enc_str_omit ''discord_server_id'' (bs_server s)"]]
        read_enc(2) [OF read [of "''username''" "enc_str_omit ''username'' (bs_username s)"]]
        read_enc(7) [OF read [of "''created_at''" "enc_time ''created_at'' (bs_created s)"]]
        read_enc(7) [OF read [of "''expires_at''" "enc_time ''expires_at'' (bs_expires s)"]]
        browser_fields_def browser_field_names_def)
qed

section \<open>The service as a table of sessions\<close>

datatype session_op = OpCreate time string create_input | OpGet time string | OpDelete string

definition session_table ::
  "('r \<Rightarrow> string \<Rightarrow> payload option) \<Rightarrow> 'r store \<Rightarrow> string \<Rightarrow> browser_session option" where
  "session_table view st = (\<lambda>i. stored view browser_session_of_json (KeySession i) st)"

definition ok_part :: "(go_error + 'a) \<times> 'b \<Rightarrow> 'a option \<times> 'b" where
  "ok_part p = ((case fst p of Inl _ \<Rightarrow> None | Inr v \<Rightarrow> Some v), snd p)"

fun service_op :: "'r redis \<Rightarrow> session_op \<Rightarrow> 'r store \<Rightarrow> browser_session option \<times> 'r store" where
  "service_op R (OpCreate now uuid input) st = ok_part (Service_Create R now uuid input st)"
| "service_op R (OpGet now i) st = ok_part (Service_Get R now i st)"
| "service_op R (OpDelete i) st = (None, snd (Service_Delete R i st))"

definition forget :: "string \<Rightarrow> (string \<rightharpoonup> 'a) \<Rightarrow> (string \<rightharpoonup> 'a)" where
  "forget i m = (if i = '''' then m else m(i := None))"

fun table_op ::
  "session_op \<Rightarrow> (string \<rightharpoonup> browser_session) \<Rightarrow> browser_session option \<times> (string \<rightharpoonup> browser_session)"
where
  "table_op (OpCreate now uuid input) m =
     (Some (new_session now uuid input), m(uuid \<mapsto> new_session now uuid input))"
| "table_op (OpGet now i) m =
     (case m i of
        None \<Rightarrow> (None, m)
      | Some s \<Rightarrow> if Expired s now then (None, forget i m) else (Some s, m))"
| "table_op (OpDelete i) m = (None, forget i m)"

definition input_ok :: "create_input \<Rightarrow> bool" where
  "input_ok c \<longleftrightarrow> is_utf8 (ci_user c) \<and> is_utf8 (ci_discord c) \<and> is_utf8 (ci_server c) \<and> is_utf8 (ci_username c)"

text \<open>A creation is encodable when its instants have a year of four digits and its text is UTF-8.\<close>

fun op_ok :: "session_op \<Rightarrow> bool" where
  "op_ok (OpCreate now uuid input) =
     (is_utf8 uuid \<and> input_ok input \<and> year_in_range now \<and> year_in_range (now + session_TTL))"
| "op_ok _ = True"

lemma new_session_ok: "is_utf8 uuid \<Longrightarrow> input_ok input \<Longrightarrow> browser_session_ok (new_session now uuid input)"
  by (simp add: browser_session_ok_def new_session_def input_ok_def)

lemma new_session_json:
  "is_utf8 uuid \<Longrightarrow> input_ok input \<Longrightarrow> year_in_range now \<Longrightarrow> year_in_range (now + session_TTL) \<Longrightarrow>
     \<exists>j. browser_session_json (new_session now uuid input) = Some j"
  by (simp add: browser_session_fields new_session_ok)
     (simp add: browser_fields_def new_session_def jobj_def enc_defs marshal_time_def)

context live_redis
begin

lemma Service_Create_live:
  assumes up: "up (server st)" and ok: "op_ok (OpCreate now uuid input)"
    and c: "Service_Create R now uuid input st = (res, st')"
  shows "up (server st')" and "res = Inr (new_session now uuid input)"
    and "contents st' = (contents st)(KeySession uuid := contents st' (KeySession uuid))"
    and "stored view browser_session_of_json (KeySession uuid) st' = Some (new_session now uuid input)"
proof -
  let ?s = "new_session now uuid input"
  have valid: "browser_session_ok ?s" using ok by (simp add: new_session_ok)
  obtain j where j: "browser_session_json ?s = Some j" using ok new_session_json [of uuid input now] by auto
  have uuid: "bs_id ?s = uuid" by (simp add: new_session_def)
  obtain r st1 where s: "SetJSON R browser_session_json (KeySession uuid) ?s session_TTL st = (r, st1)" by fastforce
  note set = SetJSON_live [OF up s j]
  have st': "st' = st1" "res = Inr ?s" using c s set(2) by (simp_all add: Service_Create_def uuid)
  then show "up (server st')" "res = Inr ?s" using set(1) by simp_all
  show "contents st' = (contents st)(KeySession uuid := contents st' (KeySession uuid))"
    using set(3) st'(1) by simp
  show "stored view browser_session_of_json (KeySession uuid) st' = Some ?s"
    using set(3) st'(1) browser_codec.roundtrip [OF valid j] by (simp add: stored_def)
qed

lemma session_table_other:
  "contents st' = (contents st)(KeySession i := p) \<Longrightarrow>
     session_table view st' = (session_table view st)(i := stored view browser_session_of_json (KeySession i) st')"
  by (auto simp: session_table_def stored_def fun_eq_iff)

lemma Service_Delete_live:
  assumes "up (server st)" and "Service_Delete R i st = (res, st')"
  shows "up (server st')" and "res = Inr ()" and "session_table view st' = forget i (session_table view st)"
  using assms Delete_live [OF assms(1), of "KeySession i" res st']
  by (auto simp: Service_Delete_def forget_def session_table_other session_table_def stored_def fun_eq_iff
      split: if_splits)

lemma Service_Get_live:
  assumes up: "up (server st)" and get: "Service_Get R now i st = (res, st')"
  shows "up (server st') \<and> table_op (OpGet now i) (session_table view st) = (fst (ok_part (res, st')), session_table view st')"
proof -
  obtain r st1 where g: "GetJSON R browser_session_of_json (KeySession i) st = (r, st1)" by fastforce
  note live = GetJSON_live [OF up g]
  have same: "session_table view st1 = session_table view st"
    using GetJSON_frame [OF g] by (simp add: session_table_def stored_def)
  show ?thesis
  proof (cases "session_table view st i")
    case None
    then obtain e where "r = Inl e" using live(3) by (auto simp: session_table_def)
    with get g None live(1) same show ?thesis by (auto simp: Service_Get_def ok_part_def)
  next
    case (Some s)
    then have r: "r = Inr s" using live(2) by (simp add: session_table_def)
    obtain d st2 where d: "Service_Delete R i st1 = (d, st2)" by fastforce
    from Service_Delete_live [OF live(1) d] get g r d Some live(1) same show ?thesis
      by (auto simp: Service_Get_def ok_part_def split: if_splits)
  qed
qed

end

sublocale live_redis \<subseteq> service: refinement "service_op R" table_op "session_table view" "\<lambda>st. up (server st)" op_ok
proof
  fix st a out st'
  assume up: "up (server st)" and ok: "op_ok a" and step: "service_op R a st = (out, st')"
  show "up (server st') \<and> table_op a (session_table view st) = (out, session_table view st')"
  proof (cases a)
    case (OpCreate now uuid input)
    obtain res st1 where c: "Service_Create R now uuid input st = (res, st1)" by fastforce
    note live = Service_Create_live [OF up ok [unfolded OpCreate] c]
    with step c OpCreate session_table_other [OF live(3)] show ?thesis by (simp add: ok_part_def)
  next
    case (OpGet now i)
    obtain res st1 where "Service_Get R now i st = (res, st1)" by fastforce
    with step OpGet Service_Get_live [OF up this] show ?thesis by (simp add: ok_part_def del: table_op.simps)
  next
    case (OpDelete i)
    obtain res st1 where "Service_Delete R i st = (res, st1)" by fastforce
    with step OpDelete Service_Delete_live [OF up this] show ?thesis by simp
  qed
qed

end
