(* ===== verification/SessionStore.thy ===== *)
theory SessionStore
  imports BrowserSessions Expiry
begin

text \<open>
  \<open>internal/session/service.go\<close> against its abstract specification: a table from session ids to
  sessions, in which creating enters a session of seven days, getting one that has expired removes
  it, and deleting removes it. The concrete side is the store over Redis and JSON.
  Then the same service over time, on a Redis that drops what is due: how long a session lives.
\<close>

context live_redis
begin

lemmas service_run_refines = service.run_refines
lemmas service_step_refines = service.step_refines

end

section \<open>Sessions over time\<close>

lemma session_TTL_positive: "0 < session_TTL" "millis_ns dvd session_TTL"
  by (simp_all add: session_TTL_def sec_ns_def millis_ns_def)

text \<open>
  A stretch of the life of the service: its operations, each at the moment the clock shows, and any
  waiting in between, during which Redis drops what is due and other programs write other entries.
\<close>

fun op_at :: "session_op \<Rightarrow> time \<Rightarrow> bool" where
  "op_at (OpCreate now uuid input) t = (now = t)"
| "op_at (OpGet now i) t = (now = t)"
| "op_at (OpDelete i) t = True"

inductive session_trace ::
  "'r redis \<Rightarrow> ('r \<Rightarrow> string \<Rightarrow> payload option) \<Rightarrow> ('r \<Rightarrow> bool) \<Rightarrow> ('r \<Rightarrow> time) \<Rightarrow> ('r \<Rightarrow> string \<Rightarrow> time option) \<Rightarrow>
     session_op list \<Rightarrow> 'r store \<Rightarrow> 'r store \<Rightarrow> bool"
  for R view up clock expires
where
  done_: "session_trace R view up clock expires [] st st"
| wait: "session_trace R view up clock expires acts st st1 \<Longrightarrow> up r \<Longrightarrow>
    lapse view clock expires (range KeySession) (server st1) r \<Longrightarrow>
    session_trace R view up clock expires acts st (st1\<lparr>server := r\<rparr>)"
| act: "session_trace R view up clock expires acts st st1 \<Longrightarrow> op_at a (clock (server st1)) \<Longrightarrow>
    service_op R a st1 = (out, st2) \<Longrightarrow> session_trace R view up clock expires (acts @ [a]) st st2"

text \<open>The operations that write the entry of a session; lookups are not among them.\<close>

fun opens :: "string \<Rightarrow> session_op \<Rightarrow> bool" where
  "opens i (OpCreate now uuid input) = (uuid = i)"
| "opens i _ = False"

fun deletes :: "string \<Rightarrow> session_op \<Rightarrow> bool" where
  "deletes i (OpDelete j) = (j = i)"
| "deletes i _ = False"

context timed_redis
begin

lemma Service_Create_up:
  "up (server st) \<Longrightarrow> Service_Create R now uuid input st = (res, st') \<Longrightarrow> up (server st')"
  by (auto simp: Service_Create_def Let_def dest: SetJSON_up split: prod.splits sum.splits)

lemma service_op_up: "up (server st) \<Longrightarrow> service_op R a st = (out, st') \<Longrightarrow> up (server st')"
proof (cases a)
  case (OpCreate now uuid input)
  obtain res st1 where "Service_Create R now uuid input st = (res, st1)" by fastforce
  with Service_Create_up [OF _ this] OpCreate
  show "up (server st) \<Longrightarrow> service_op R a st = (out, st') \<Longrightarrow> up (server st')" by (auto simp: ok_part_def)
next
  case (OpGet now i)
  then show "up (server st) \<Longrightarrow> service_op R a st = (out, st') \<Longrightarrow> up (server st')"
    using service_step_refines [of st a out st'] by (simp del: table_op.simps service_op.simps)
next
  case (OpDelete i)
  then show "up (server st) \<Longrightarrow> service_op R a st = (out, st') \<Longrightarrow> up (server st')"
    using service_step_refines [of st a out st'] by (simp del: table_op.simps service_op.simps)
qed

lemma session_trace_up:
  "session_trace R view up clock expires acts st st' \<Longrightarrow> up (server st) \<Longrightarrow> up (server st')"
  by (induction rule: session_trace.induct) (auto dest: service_op_up)

lemma Service_Create_leaves:
  "Service_Create R now uuid input st = (res, st') \<Longrightarrow> uuid \<noteq> i \<Longrightarrow> leave {KeySession i} st st'"
  by (auto simp: Service_Create_def new_session_def Let_def dest!: SetJSON_leaves [where K = "{KeySession i}"]
      split: prod.splits sum.splits)

lemma Service_Delete_leaves:
  "Service_Delete R j st = (res, st') \<Longrightarrow> j \<noteq> i \<Longrightarrow> leave {KeySession i} st st'"
  by (auto simp: Service_Delete_def dest: Delete_leaves [where K = "{KeySession i}"] split: if_splits)

text \<open>A lookup leaves the sessions alone, except one that it finds expired.\<close>

lemma Service_Get_leaves:
  assumes "Service_Get R now j st = (res, st')"
    and "\<And>s. j = i \<Longrightarrow> stored view browser_session_of_json (KeySession i) st = Some s \<Longrightarrow> \<not> Expired s now"
  shows "leave {KeySession i} st st'"
proof -
  obtain got st1 where g: "GetJSON R browser_session_of_json (KeySession j) st = (got, st1)" by fastforce
  note l1 = GetJSON_leaves [OF g, of "{KeySession i}"]
  show ?thesis
  proof (cases "\<exists>s. got = Inr s \<and> Expired s now")
    case False
    with assms(1) g l1 show ?thesis by (auto simp: Service_Get_def split: sum.splits if_splits)
  next
    case True
    then obtain s where s: "got = Inr s" "Expired s now" by blast
    then have "j \<noteq> i" using assms(2) GetJSON_stored [of _ _ st s st1] g by blast
    moreover obtain dres st2 where d: "Service_Delete R j st1 = (dres, st2)" by fastforce
    ultimately have "leave {KeySession i} st1 st2" by (intro Service_Delete_leaves)
    then have "leave {KeySession i} st1 st'" using assms(1) g s d by (auto simp: Service_Get_def)
    with l1 show ?thesis by (rule leaves_trans)
  qed
qed

lemma service_op_leaves:
  assumes "service_op R a st = (out, st')" and "\<not> opens i a" and "\<not> deletes i a"
    and "\<And>s now. a = OpGet now i \<Longrightarrow> stored view browser_session_of_json (KeySession i) st = Some s \<Longrightarrow> \<not> Expired s now"
  shows "leave {KeySession i} st st'"
proof (cases a)
  case (OpCreate now uuid input)
  obtain res st1 where "Service_Create R now uuid input st = (res, st1)" by fastforce
  with assms(1,2) OpCreate Service_Create_leaves [OF this] show ?thesis by (auto simp: ok_part_def)
next
  case (OpGet now j)
  obtain res st1 where "Service_Get R now j st = (res, st1)" by fastforce
  with assms OpGet Service_Get_leaves [OF this] show ?thesis by (auto simp: ok_part_def)
next
  case (OpDelete j)
  obtain res st1 where "Service_Delete R j st = (res, st1)" by fastforce
  with assms(1,3) OpDelete Service_Delete_leaves [OF this] show ?thesis by auto
qed

text \<open>A session that is there until its deadline, not later than its own expiry.\<close>

lemma session_alive:
  assumes "session_trace R view up clock expires acts st st'" and "\<forall>a \<in> set acts. \<not> opens i a \<and> \<not> deletes i a"
    and "alive_until view clock expires (KeySession i) (Some j) d (server st)"
    and "browser_session_of_json j = Some s" and "d \<le> bs_expires s"
  shows "alive_until view clock expires (KeySession i) (Some j) d (server st')"
  using assms(1-3)
proof (induction rule: session_trace.induct)
  case (wait acts st st1 r)
  then show ?case using alive_until_lapse [of view clock expires "KeySession i" "Some j" d "server st1"] by simp
next
  case (act acts st st1 a out st2)
  then have alive: "alive_until view clock expires (KeySession i) (Some j) d (server st1)" by simp
  have "leave {KeySession i} st1 st2"
  proof (rule service_op_leaves [OF act.hyps(3)])
    fix s' now
    assume a: "a = OpGet now i" and "stored view browser_session_of_json (KeySession i) st1 = Some s'"
    with alive assms(4) have "s' = s" "clock (server st1) < d" by (auto simp: stored_def alive_until_def split: if_splits)
    with assms(5) act.hyps(2) a show "\<not> Expired s' now" by (simp add: Expired_def)
  qed (use act.prems(1) in auto)
  then show ?case by (rule alive_until_leaves [OF alive]) simp
qed simp

lemma session_gone:
  assumes "session_trace R view up clock expires acts st st'" and "\<forall>a \<in> set acts. \<not> opens i a" and "up (server st)"
    and "contents st (KeySession i) = None"
  shows "contents st' (KeySession i) = None"
  using assms
proof (induction rule: session_trace.induct)
  case (wait acts st st1 r)
  then show ?case using lapse_gone [OF wait.hyps(3), of "KeySession i"] by simp
next
  case (act acts st st1 a out st2)
  then have gone: "contents st1 (KeySession i) = None" by simp
  show ?case
  proof (cases "deletes i a")
    case True
    obtain dres st' where "Delete R (KeySession i) st1 = (dres, st')" by fastforce
    with Delete_at [OF this] True act.hyps(3) gone show ?thesis
      by (cases a) (auto simp: Service_Delete_def split: if_splits)
  next
    case False
    have "leave {KeySession i} st1 st2"
      by (rule service_op_leaves [OF act.hyps(3)]) (use act.prems(1) False gone in \<open>auto simp: stored_def\<close>)
    with gone show ?thesis by (simp add: leaves_def)
  qed
qed simp

lemma Service_Create_alive:
  assumes up: "up (server st)" and ok: "op_ok (OpCreate now uuid input)"
    and c: "Service_Create R now uuid input st = (res, st')"
  obtains j where "browser_session_of_json j = Some (new_session now uuid input)"
    "alive_until view clock expires (KeySession uuid) (Some j) (clock (server st) + session_TTL) (server st')"
proof -
  let ?s = "new_session now uuid input"
  obtain r st1 where s: "SetJSON R browser_session_json (KeySession uuid) ?s session_TTL st = (r, st1)" by fastforce
  have valid: "browser_session_ok ?s" using ok by (simp add: new_session_ok)
  obtain j where j: "browser_session_json ?s = Some j" using ok new_session_json [of uuid input now] by auto
  have r: "r = Inr ()" by (rule SetJSON_live(2) [OF up s j])
  with s c have "st' = st1" by (simp add: Service_Create_def new_session_def)
  with SetJSON_alive [OF s [unfolded r] session_TTL_positive] j browser_codec.roundtrip [OF valid j] show thesis
    by (intro that [of j]) simp_all
qed

text \<open>A lookup while Redis is up returns the session that is stored.\<close>

lemma lookup_stored:
  assumes "up (server st)"
  shows "fst (service_op R (OpGet now i) st) = (case session_table view st i of None \<Rightarrow> None
    | Some s \<Rightarrow> if Expired s now then None else Some s)"
proof -
  have "fst (service_op R (OpGet now i) st) = fst (table_op (OpGet now i) (session_table view st))"
    using service_step_refines [OF assms _ prod.collapse [symmetric], of "OpGet now i"] by (simp del: table_op.simps service_op.simps)
  then show ?thesis by (auto simp del: service_op.simps split: option.split)
qed

end

section \<open>Properties\<close>

lemma first_week_years: "year_in_range 0" "year_in_range session_TTL"
  by code_simp+

text \<open>
  C12: the session service is a table of sessions: for every sequence of creations, lookups and
  deletions with encodable input, while Redis is up, the service over the store answers what the
  table answers, and the store it leaves holds the table the table leaves.
\<close>
theorem sessions_refine_table:
  assumes "live_redis R view up" and "up (server st)" and "\<forall>a \<in> set acts. op_ok a"
    and "run_ops (service_op R) acts st = (outs, st')"
  shows "run_ops table_op acts (session_table view st) = (outs, session_table view st')"
  by (rule conjunct2 [OF live_redis.service_run_refines [OF assms]])

theorem sessions_refine_table_witness:
  "fst (run_ops (service_op mem_redis)
     [OpCreate 0 ''s'' \<lparr>ci_user = ''u'', ci_discord = ''d'', ci_server = '''', ci_username = ''n''\<rparr>,
      OpGet session_TTL ''s'', OpGet (session_TTL + 1) ''s'', OpGet 0 ''s''] (store_of mem_empty)) =
   (let s = new_session 0 ''s'' \<lparr>ci_user = ''u'', ci_discord = ''d'', ci_server = '''', ci_username = ''n''\<rparr> in
    [Some s, Some s, None, None])"
proof -
  let ?acts = "[OpCreate 0 ''s'' \<lparr>ci_user = ''u'', ci_discord = ''d'', ci_server = '''', ci_username = ''n''\<rparr>,
      OpGet session_TTL ''s'', OpGet (session_TTL + 1) ''s'', OpGet 0 ''s'']"
  have "\<forall>a \<in> set ?acts. op_ok a" by (simp add: input_ok_def first_week_years)
  from sessions_refine_table [OF mem_live.live_redis_axioms _ this prod.collapse [symmetric]]
  have "fst (run_ops table_op ?acts (session_table mem_view (store_of mem_empty))) =
    fst (run_ops (service_op mem_redis) ?acts (store_of mem_empty))" by simp
  then show ?thesis by (simp add: Let_def Expired_def new_session_def forget_def session_TTL_def)
qed

text \<open>
  C21: the life of a session: once the service has created a session, while Redis is up, and whatever
  waiting, lookups of any session, and creations and deletions of other sessions come in between, a
  lookup finds it as it was created exactly until seven days have passed; and once it is deleted, no
  lookup finds it, at any later moment, unless its id is created anew.
\<close>
theorem session_lifetime:
  assumes "timed_redis R view up clock expires" and "up (server st)" and "op_ok (OpCreate t i input)" and "i \<noteq> ''''"
    and "clock (server st) = t" and "service_op R (OpCreate t i input) st = (out, st1)"
    and "session_trace R view up clock expires between st1 st2"
    and "\<forall>a \<in> set between. \<not> opens i a \<and> \<not> deletes i a"
    and "service_op R (OpDelete i) st2 = (out', st3)"
    and "session_trace R view up clock expires later st3 st4" and "\<forall>a \<in> set later. \<not> opens i a"
  shows "fst (service_op R (OpGet (clock (server st2)) i) st2) =
       (if clock (server st2) < t + 7 * 24 * 3600 * sec_ns then Some (new_session t i input) else None) \<and>
     fst (service_op R (OpGet (clock (server st4)) i) st4) = None"
proof -
  note T = assms(1)
  let ?s = "new_session t i input"
  have week: "7 * 24 * 3600 * sec_ns = session_TTL" by (simp add: session_TTL_def)
  obtain res where c: "Service_Create R t i input st = (res, st1)"
    using assms(6) by (auto simp: ok_part_def prod_eq_iff)
  obtain j where j: "browser_session_of_json j = Some ?s"
    and alive: "alive_until view clock expires (KeySession i) (Some j) (t + session_TTL) (server st1)"
    using timed_redis.Service_Create_alive [OF T assms(2,3) c] assms(5) by metis
  have up1: "up (server st1)" by (rule timed_redis.service_op_up [OF T assms(2,6)])
  note up2 = timed_redis.session_trace_up [OF T assms(7) up1]
  note up3 = timed_redis.service_op_up [OF T up2 assms(9)]
  note up4 = timed_redis.session_trace_up [OF T assms(10) up3]
  have alive2: "alive_until view clock expires (KeySession i) (Some j) (t + session_TTL) (server st2)"
    by (rule timed_redis.session_alive [OF T assms(7,8) alive j]) (simp add: new_session_def)
  have "view (server st3) (KeySession i) = None"
    using live_redis.Delete_live(3) [OF timed_redis.axioms(1) [OF T] up2 prod.collapse [symmetric], of "KeySession i"] assms(4,9)
    by (simp add: Service_Delete_def)
  then have gone: "view (server st4) (KeySession i) = None"
    by (rule timed_redis.session_gone [OF T assms(10,11) up3])
  show ?thesis
    unfolding timed_redis.lookup_stored [OF T up2] timed_redis.lookup_stored [OF T up4] week
    using alive2 gone j by (simp add: session_table_def stored_def alive_until_def Expired_def new_session_def)
qed

theorem session_lifetime_witness:
  "let input = \<lparr>ci_user = ''u'', ci_discord = ''d'', ci_server = [], ci_username = ''n''\<rparr>;
       st1 = snd (service_op mem_redis (OpCreate 0 ''s'' input) (store_of mem_empty));
       late = st1\<lparr>server := mem_tick session_TTL (server st1)\<rparr>;
       early = st1\<lparr>server := mem_tick (session_TTL - 1) (server st1)\<rparr> in
     fst (service_op mem_redis (OpGet (session_TTL - 1) ''s'') early) = Some (new_session 0 ''s'' input) \<and>
     fst (service_op mem_redis (OpGet session_TTL ''s'') late) = None \<and>
     fst (service_op mem_redis (OpGet (session_TTL - 1) ''s'') (snd (service_op mem_redis (OpDelete ''s'') early))) = None"
proof -
  let ?in = "\<lparr>ci_user = ''u'', ci_discord = ''d'', ci_server = [], ci_username = ''n''\<rparr>"
  define st1 where "st1 = snd (service_op mem_redis (OpCreate 0 ''s'' ?in) (store_of mem_empty))"
  have ok: "op_ok (OpCreate 0 ''s'' ?in)" by (simp add: input_ok_def first_week_years)
  have now: "mem_now (server (store_of mem_empty)) = 0" by (simp add: mem_empty_def)
  have create: "service_op mem_redis (OpCreate 0 ''s'' ?in) (store_of mem_empty) = (fst (service_op mem_redis (OpCreate 0 ''s'' ?in) (store_of mem_empty)), st1)"
    by (simp add: st1_def del: service_op.simps)
  have st1: "mem_up (server st1)" "mem_now (server st1) = 0"
    using mem_timed.service_op_up [OF _ create] mem_timed.service_op_leaves [OF create, of "''x''"] now
    by (simp_all add: leaves_def)
  have "session_trace mem_redis mem_view mem_up mem_now mem_expires [] st1 (st1\<lparr>server := mem_tick d (server st1)\<rparr>)" if "0 \<le> d" for d
    by (rule session_trace.wait [OF session_trace.done_ _ mem_lapse [OF that]]) (simp add: mem_tick_def st1(1))
  from session_lifetime [OF mem_timed.timed_redis_axioms _ ok _ now create this _ prod.collapse [symmetric] session_trace.done_]
  have life: "0 \<le> d \<Longrightarrow> fst (service_op mem_redis (OpGet d ''s'') (st1\<lparr>server := mem_tick d (server st1)\<rparr>)) =
      (if d < session_TTL then Some (new_session 0 ''s'' ?in) else None) \<and>
    fst (service_op mem_redis (OpGet (mem_now (server (snd (service_op mem_redis (OpDelete ''s'') (st1\<lparr>server := mem_tick d (server st1)\<rparr>))))) ''s'')
      (snd (service_op mem_redis (OpDelete ''s'') (st1\<lparr>server := mem_tick d (server st1)\<rparr>)))) = None" for d
    by (simp add: mem_tick_def st1(2) session_TTL_def del: service_op.simps)
  have "mem_now (server (snd (service_op mem_redis (OpDelete ''s'') (st1\<lparr>server := mem_tick d (server st1)\<rparr>)))) = d" for d
    using mem_timed.service_op_leaves [where i = "''x''", OF prod.collapse [symmetric], of "OpDelete ''s''" "st1\<lparr>server := mem_tick d (server st1)\<rparr>"]
    by (simp add: leaves_def mem_tick_def st1(2) del: service_op.simps)
  with life [of session_TTL] life [of "session_TTL - 1"] session_TTL_positive show ?thesis
    by (simp add: Let_def st1_def [symmetric] del: service_op.simps)
qed

end
