(* ===== verification/Accounts.thy ===== *)
theory Accounts
  imports Http
begin

text \<open>
  \<open>internal/apikeys\<close> and \<open>internal/users\<close>. The database is a parameter: what the one query of each
  repository returns for a key, a row as \<open>Scan\<close> reads it, no row, or an error.
\<close>

datatype 'a query = Row 'a | NoRows | QueryError

section \<open>API keys\<close>

definition cacheTTL :: duration where
  "cacheTTL = 60 * sec_ns"

record status_cache =
  sc_active :: bool
  sc_found :: bool

definition status_json :: "status_cache \<Rightarrow> json option" where
  "status_json s = jobj [enc_bool ''active'' (sc_active s), enc_bool ''found'' (sc_found s)]"

definition status_of_json :: "json \<Rightarrow> status_cache option" where
  "status_of_json = dec_struct \<lparr>sc_active = False, sc_found = False\<rparr> (\<lambda>kvs. do {
     active \<leftarrow> dec_bool ''active'' kvs;
     found \<leftarrow> dec_bool ''found'' kvs;
     Some \<lparr>sc_active = active, sc_found = found\<rparr>
   })"

definition Repository_Active :: "(string \<Rightarrow> bool query) \<Rightarrow> string \<Rightarrow> go_error + (bool \<times> bool)" where
  "Repository_Active api_keys key =
     (case api_keys key of
        NoRows \<Rightarrow> Inr (False, False)
      | QueryError \<Rightarrow> Inl (Wrapf ''lookup api key'' (Errorf ''database''))
      | Row active \<Rightarrow> Inr (active, True))"

definition key_active ::
  "'r redis \<Rightarrow> (string \<Rightarrow> bool query) \<Rightarrow> string \<Rightarrow> 'r store \<Rightarrow> (go_error + bool) \<times> 'r store"
where
  "key_active R api_keys apiKey st =
     (let cacheKey = KeyAPIKeyStatus apiKey in
      case GetJSON R status_of_json cacheKey st of
        (Inr cached, st) \<Rightarrow> (Inr (sc_found cached \<and> sc_active cached), st)
      | (Inl _, st) \<Rightarrow>
          (case Repository_Active api_keys apiKey of
             Inl err \<Rightarrow> (Inl err, st)
           | Inr (active, found) \<Rightarrow>
               (Inr (found \<and> active),
                snd (SetJSON R status_json cacheKey \<lparr>sc_active = active, sc_found = found\<rparr> cacheTTL st))))"

definition KeyLookup ::
  "'r redis \<Rightarrow> (string \<Rightarrow> bool query) \<Rightarrow> string \<Rightarrow> 'r store \<Rightarrow> (go_error + claims option) \<times> 'r store"
where
  "KeyLookup R api_keys apiKey st =
     (case key_active R api_keys apiKey st of
        (Inl err, st) \<Rightarrow> (Inl err, st)
      | (Inr active, st) \<Rightarrow>
          if \<not> active then (Inr None, st) else (Inr (Some (no_claims\<lparr>c_api_key := True\<rparr>)), st))"

section \<open>Users\<close>

record user =
  u_id :: string
  u_discord :: string
  u_if_community :: "string option"
  u_if_api :: "string option"
  u_active :: bool
  u_username :: "string option"
  u_created :: time
  u_updated :: time
  u_otp :: "string option"

definition DisplayName :: "user \<Rightarrow> string" where
  "DisplayName u = (case u_username u of None \<Rightarrow> '''' | Some n \<Rightarrow> n)"

text \<open>\<open>sql.NullString\<close> and the columns of the query in order.\<close>

record null_string =
  ns_string :: string
  ns_valid :: bool

definition nullString :: "null_string \<Rightarrow> string option" where
  "nullString value = (if \<not> ns_valid value then None else Some (ns_string value))"

record user_row =
  row_id :: string
  row_discord :: string
  row_community :: null_string
  row_api :: null_string
  row_active :: bool
  row_username :: null_string
  row_created :: time
  row_updated :: time
  row_otp :: null_string

definition GetByDiscordID :: "(string \<Rightarrow> user_row query) \<Rightarrow> string \<Rightarrow> go_error + user option" where
  "GetByDiscordID users discordID =
     (case users discordID of
        NoRows \<Rightarrow> Inr None
      | QueryError \<Rightarrow> Inl (Wrapf ''lookup user by discord_id'' (Errorf ''database''))
      | Row r \<Rightarrow>
          Inr (Some \<lparr>u_id = row_id r, u_discord = row_discord r,
            u_if_community = nullString (row_community r), u_if_api = nullString (row_api r),
            u_active = row_active r, u_username = nullString (row_username r),
            u_created = row_created r, u_updated = row_updated r, u_otp = nullString (row_otp r)\<rparr>))"

section \<open>Lemmas\<close>

interpretation status_codec: codec status_json status_of_json "\<lambda>_. True"
proof
  fix v j
  assume "status_json v = Some j"
  then show "status_of_json j = Some v"
    by (cases v)
       (auto simp: status_json_def status_of_json_def jobj_Some_iff those_Cons_Some_iff enc_defs dec_defs field_Cons)
qed

lemma status_json_total: "\<exists>j. status_json s = Some j"
  by (simp add: status_json_def jobj_def enc_defs)

text \<open>What the database says of a key.\<close>

definition key_enabled :: "(string \<Rightarrow> bool query) \<Rightarrow> string \<Rightarrow> bool" where
  "key_enabled api_keys key \<longleftrightarrow> api_keys key = Row True"

lemma Repository_Active_ok:
  "Repository_Active api_keys key = Inr (active, found) \<Longrightarrow>
     (found \<and> active \<longleftrightarrow> key_enabled api_keys key) \<and> api_keys key \<noteq> QueryError"
  by (auto simp: Repository_Active_def key_enabled_def split: query.splits)

definition cached_status ::
  "('r \<Rightarrow> string \<Rightarrow> payload option) \<Rightarrow> string \<Rightarrow> 'r store \<Rightarrow> status_cache option"
where
  "cached_status view key st = stored view status_of_json (KeyAPIKeyStatus key) st"

context redis_service
begin

lemma key_active_ok:
  assumes "key_active R api_keys key st = (Inr b, st')"
  shows "(\<exists>c. cached_status view key st = Some c \<and> b = (sc_found c \<and> sc_active c)) \<or> b = key_enabled api_keys key"
proof -
  obtain res st1 where g: "GetJSON R status_of_json (KeyAPIKeyStatus key) st = (res, st1)" by fastforce
  show ?thesis
  proof (cases res)
    case (Inl e)
    with assms g show ?thesis
      by (auto simp: key_active_def split: sum.splits dest: Repository_Active_ok)
  next
    case (Inr c)
    with assms g GetJSON_stored [of status_of_json _ st c st1] show ?thesis
      by (auto simp: key_active_def cached_status_def)
  qed
qed

lemma KeyLookup_ok:
  "KeyLookup R api_keys key st = (Inr (Some c), st') \<Longrightarrow>
     c = no_claims\<lparr>c_api_key := True\<rparr> \<and> (\<exists>st1. key_active R api_keys key st = (Inr True, st1))"
  by (auto simp: KeyLookup_def split: sum.splits prod.splits if_splits)

lemma key_active_frame:
  assumes "key_active R api_keys key st = (res, st')" and "k \<noteq> KeyAPIKeyStatus key"
  shows "contents st' k = contents st k"
proof -
  obtain got st1 where g: "GetJSON R status_of_json (KeyAPIKeyStatus key) st = (got, st1)" by fastforce
  have "st' = st1 \<or> (\<exists>v. st' = snd (SetJSON R status_json (KeyAPIKeyStatus key) v cacheTTL st1))"
    using assms(1) g by (auto simp: key_active_def Let_def split: sum.splits)
  then show ?thesis by (auto simp: GetJSON_frame [OF g] SetJSON_other_snd [OF assms(2)])
qed

lemma KeyLookup_frame:
  "KeyLookup R api_keys key st = (res, st') \<Longrightarrow> k \<noteq> KeyAPIKeyStatus key \<Longrightarrow> contents st' k = contents st k"
  by (auto simp: KeyLookup_def split: sum.splits prod.splits if_splits dest: key_active_frame)

end

end
