(* ===== verification/Middleware.thy ===== *)
theory Middleware
  imports BrowserSessions Accounts
begin

text \<open>
  \<open>internal/transport/http/middleware\<close>: API authentication, the session gate of the dashboard, the
  role gates, CORS, rate limiting and the access log. A lookup that is nil in the source is
  \<open>None\<close>. What the gates need of the two lookups is stated as locales; the browser sessions and
  the API keys of the program satisfy them for every Redis that keeps its contract.
\<close>

section \<open>API authentication\<close>

type_synonym 's key_lookup = "request \<Rightarrow> string \<Rightarrow> 's \<Rightarrow> (go_error + claims option) \<times> 's"
type_synonym 's session_lookup = "request \<Rightarrow> 's \<Rightarrow> (go_error + claims option) \<times> 's"

definition APIKeyHeader :: string where
  "APIKeyHeader = ''X-API-Key''"

definition DiscordUserIDHeader :: string where
  "DiscordUserIDHeader = ''X-Discord-User-Id''"

definition DiscordServerIDHeader :: string where
  "DiscordServerIDHeader = ''X-Discord-Server-Id''"

definition isGameAPIPath :: "string \<Rightarrow> bool" where
  "isGameAPIPath path = prefix ''/api/v1/game/'' path"

definition AuthenticateAPI ::
  "'s key_lookup option \<Rightarrow> 's session_lookup option \<Rightarrow> 's middleware"
where
  "AuthenticateAPI lookup sessions next r w s =
     (if lookup = None \<or> \<not> prefix ''/api/v1'' (rq_path r) then next r w s
      else
        (let (session, s) =
           (case sessions of
              Some look \<Rightarrow> if isGameAPIPath (rq_path r) then look r s else (Inr None, s)
            | None \<Rightarrow> (Inr None, s)) in
         case session of
           Inl err \<Rightarrow>
             Served (WriteError 500 ''AUTH_LOOKUP_FAILED'' ''authentication lookup failed'' w) s
         | Inr (Some claims) \<Rightarrow> next (SetClaims r claims) w s
         | Inr None \<Rightarrow>
             (let apiKey = trim_space (get_header r APIKeyHeader) in
              if apiKey = '''' then Served (WriteError 401 ''UNAUTHORIZED'' ''Unauthorized'' w) s
              else
                (case the lookup r apiKey s of
                   (Inl err, s) \<Rightarrow>
                     Served (WriteError 500 ''AUTH_LOOKUP_FAILED'' ''authentication lookup failed'' w) s
                 | (Inr None, s) \<Rightarrow> Served (WriteError 401 ''UNAUTHORIZED'' ''Unauthorized'' w) s
                 | (Inr (Some claims), s) \<Rightarrow>
                     next (SetClaims r (claims\<lparr>c_api_key := True,
                         c_discord_user := trim_space (get_header r DiscordUserIDHeader),
                         c_discord_server := trim_space (get_header r DiscordServerIDHeader)\<rparr>)) w s))))"

definition APIKeyAuth :: "'s key_lookup option \<Rightarrow> 's middleware" where
  "APIKeyAuth lookup = AuthenticateAPI lookup None"

definition RequireDiscordBotContext :: "'s middleware" where
  "RequireDiscordBotContext next r w s =
     (let hasUser = (trim_space (get_header r DiscordUserIDHeader) \<noteq> '''');
          hasServer = (trim_space (get_header r DiscordServerIDHeader) \<noteq> '''') in
      if \<not> hasUser \<or> \<not> hasServer
      then Served (WriteError 403 ''MISSING_DISCORD_CONTEXT''
        ''Missing required Discord context headers: X-Discord-User-Id and X-Discord-Server-Id'' w) s
      else next r w s)"

section \<open>The dashboard and roles\<close>

definition UISessionAuth :: "'s session_lookup option \<Rightarrow> 's middleware" where
  "UISessionAuth lookup next r w s =
     (case lookup of
        None \<Rightarrow> next r w s
      | Some look \<Rightarrow>
          (case look r s of
             (Inl err, s) \<Rightarrow> Served (http_Error ''session lookup failed'' 500 w) s
           | (Inr None, s) \<Rightarrow> Served (http_Redirect r ''/auth/login'' 303 w) s
           | (Inr (Some claims), s) \<Rightarrow> next (SetClaims r claims) w s))"

definition requireRole :: "(claims \<Rightarrow> bool) \<Rightarrow> string \<Rightarrow> 's middleware" where
  "requireRole allowed label next r w s =
     (case ClaimsFromContext r of
        None \<Rightarrow> Served (WriteError 403 ''FORBIDDEN'' (''requires '' @ label @ '' role'') w) s
      | Some claims \<Rightarrow>
          if \<not> allowed claims
          then Served (WriteError 403 ''FORBIDDEN'' (''requires '' @ label @ '' role'') w) s
          else next r w s)"

definition RequireMember :: "'s middleware" where
  "RequireMember = requireRole IsMember ''member''"

definition RequireStaff :: "'s middleware" where
  "RequireStaff = requireRole IsStaff ''staff''"

definition RequireAdmin :: "'s middleware" where
  "RequireAdmin = requireRole IsAdmin ''admin''"

section \<open>CORS\<close>

definition CORS :: "string list \<Rightarrow> 's middleware" where
  "CORS allowedOrigins next r w s =
     (let origin = get_header r ''Origin'' in
      if origin = '''' then next r w s
      else
        (let exactMatch = (origin \<in> set allowedOrigins); wildcard = (''*'' \<in> set allowedOrigins) in
         if \<not> exactMatch \<and> \<not> wildcard
         then
           if rq_method r = ''OPTIONS'' then Served (http_Error ''origin is not allowed'' 403 w) s
           else next r w s
         else
           (let w = add_header ''Vary'' ''Origin'' w;
                w = set_header ''Access-Control-Allow-Origin'' origin w;
                w = set_header ''Access-Control-Allow-Methods'' ''GET, OPTIONS'' w;
                w = set_header ''Access-Control-Allow-Headers''
                  ''Accept, Authorization, Content-Type, X-API-Key, X-Discord-User-Id, X-Discord-Server-Id'' w;
                w = set_header ''Access-Control-Max-Age'' ''600'' w in
            if rq_method r = ''OPTIONS'' then Served (WriteHeader 204 w) s
            else next r w s)))"

section \<open>Rate limiting\<close>

definition RateLimitRegistration :: gint where
  "RateLimitRegistration = 5"

definition RateLimitSubmit :: gint where
  "RateLimitSubmit = 10"

definition RateLimitRead :: gint where
  "RateLimitRead = 60"

definition callerID :: "request \<Rightarrow> string" where
  "callerID r =
     (let forwarded = get_header r ''X-Forwarded-For'';
          host = (if forwarded \<noteq> '''' then forwarded else rq_remote r) in
      case ClaimsFromContext r of
        Some claims \<Rightarrow>
          if c_discord_user claims \<noteq> '''' then c_discord_user claims
          else if c_user claims \<noteq> '''' then c_user claims
          else host
      | None \<Rightarrow> host)"

text \<open>\<open>Time.Unix\<close> (instants count from 1970), and the division of Go, which truncates.\<close>

definition unix :: "time \<Rightarrow> int" where
  "unix t = t div sec_ns"

definition quotient :: "int \<Rightarrow> int \<Rightarrow> int" where
  "quotient a b = sgn a * (\<bar>a\<bar> div b)"

definition rate_key :: "string \<Rightarrow> request \<Rightarrow> int \<Rightarrow> string" where
  "rate_key bucket_group r minuteBucket =
     ''ratelimit:'' @ bucket_group @ '':'' @ callerID r @ '':'' @ show_int minuteBucket"

type_synonym 's limiter = "string \<Rightarrow> duration \<Rightarrow> 's \<Rightarrow> (go_error + gint) \<times> 's"

definition RateLimit :: "'s limiter option \<Rightarrow> string \<Rightarrow> gint \<Rightarrow> time \<Rightarrow> 's middleware" where
  "RateLimit limiter bucket_group limit now next r w s =
     (case limiter of
        None \<Rightarrow> next r w s
      | Some Incr \<Rightarrow>
          (let minuteBucket = quotient (unix now) 60 in
           case Incr (rate_key bucket_group r minuteBucket) (120 * sec_ns) s of
             (Inl err, s) \<Rightarrow> next r w s
           | (Inr count, s) \<Rightarrow>
               if sint count > sint limit
               then
                 (let nextBucket = (minuteBucket + 1) * 60; retryAfter = nextBucket - unix now;
                      w = set_header ''Retry-After'' (show_int retryAfter) w in
                  Served (WriteError 429 ''RATE_LIMIT_EXCEEDED''
                    (''Too many requests. Retry after '' @ show_int retryAfter @ '' seconds.'') w) s)
               else next r w s))"

section \<open>Access log\<close>

record http_metrics =
  m_requests :: "string \<times> string \<times> string \<Rightarrow> nat"
  m_durations :: "string \<times> string \<Rightarrow> nat"

definition count_request :: "string \<Rightarrow> string \<Rightarrow> string \<Rightarrow> http_metrics \<Rightarrow> http_metrics" where
  "count_request meth route status m =
     m\<lparr>m_requests := (m_requests m)((meth, route, status) := Suc (m_requests m (meth, route, status))),
       m_durations := (m_durations m)((meth, route) := Suc (m_durations m (meth, route)))\<rparr>"

text \<open>The pattern that the router matched is a parameter. A panic passes through, uncounted.\<close>

definition AccessLog :: "(request \<Rightarrow> string) \<Rightarrow> 's handler \<Rightarrow> (http_metrics \<times> 's) handler" where
  "AccessLog route_pattern next r w ms =
     (case next r w (snd ms) of
        Panicked w s \<Rightarrow> Panicked w (fst ms, s)
      | Served w s \<Rightarrow>
          (let route = (if route_pattern r = '''' then ''unmatched'' else route_pattern r);
               status = (case w_status w of None \<Rightarrow> 0 | Some code \<Rightarrow> code) in
           Served w (count_request (rq_method r) route (show_nat status) (fst ms), s)))"

section \<open>Contracts of the lookups\<close>

text \<open>
  What the gates rely on: a session lookup that answers with claims found a session that is valid
  for the request in the state it read; a key lookup that answers with claims found an accepted
  key, and its claims name nobody.
\<close>

locale session_provider =
  fixes look :: "'s session_lookup" and valid :: "'s \<Rightarrow> request \<Rightarrow> claims \<Rightarrow> bool"
  assumes look_valid: "look r s = (Inr (Some c), s') \<Longrightarrow> valid s r c"
begin

text \<open>The dashboard gate runs the page only for a valid session, with its claims.\<close>

lemma UISessionAuth_cases:
  obtains (err) s' where "UISessionAuth (Some look) next r w s = Served (http_Error ''session lookup failed'' 500 w) s'"
  | (login) s' where "UISessionAuth (Some look) next r w s = Served (http_Redirect r ''/auth/login'' 303 w) s'"
  | (valid) c s' where "valid s r c" "look r s = (Inr (Some c), s')"
      "UISessionAuth (Some look) next r w s = next (SetClaims r c) w s'"
proof -
  obtain res s' where l: "look r s = (res, s')" by fastforce
  consider e where "res = Inl e" | "res = Inr None" | c where "res = Inr (Some c)"
    by (cases res) (auto simp: not_None_eq [symmetric])
  then show thesis
  proof cases
    case 1
    with l show thesis by (intro err [of s']) (simp add: UISessionAuth_def)
  next
    case 2
    with l show thesis by (intro login [of s']) (simp add: UISessionAuth_def)
  next
    case (3 c)
    with l show thesis by (intro valid [of c s'] look_valid) (simp_all add: UISessionAuth_def)
  qed
qed

end

locale key_provider =
  fixes key_look :: "'s key_lookup" and accepted :: "'s \<Rightarrow> string \<Rightarrow> bool"
  assumes key_look_accepted: "key_look r k s = (Inr (Some c), s') \<Longrightarrow> accepted s k"
    and key_look_claims: "key_look r k s = (Inr (Some c), s') \<Longrightarrow> c = no_claims\<lparr>c_api_key := True\<rparr>"

text \<open>The claims of a caller with an API key: the two Discord headers, trimmed.\<close>

definition key_claims :: "request \<Rightarrow> claims" where
  "key_claims r =
     no_claims\<lparr>c_api_key := True, c_discord_user := trim_space (get_header r DiscordUserIDHeader),
       c_discord_server := trim_space (get_header r DiscordServerIDHeader)\<rparr>"

definition request_key :: "request \<Rightarrow> string" where
  "request_key r = trim_space (get_header r APIKeyHeader)"

locale api_providers = session_provider look valid + key_provider key_look accepted
  for look :: "'s session_lookup" and valid and key_look :: "'s key_lookup" and accepted
begin

text \<open>Without a session, the key decides.\<close>

lemma AuthenticateAPI_key_step:
  assumes api: "prefix ''/api/v1'' (rq_path r)"
    and f: "(if isGameAPIPath (rq_path r) then look r s else (Inr None, s)) = (Inr None, s1)"
  obtains (refused) code name msg s' where "code = 401 \<or> code = 500"
      "AuthenticateAPI (Some key_look) (Some look) next r w s = Served (WriteError code name msg w) s'"
  | (key) s' where "request_key r \<noteq> ''''" "accepted s1 (request_key r)"
      "AuthenticateAPI (Some key_look) (Some look) next r w s = next (SetClaims r (key_claims r)) w s'"
proof (cases "request_key r = ''''")
  case True
  with f api show thesis
    by (intro refused [of 401]) (simp_all add: AuthenticateAPI_def request_key_def split: if_splits)
next
  case False
  obtain res s2 where k: "key_look r (request_key r) s1 = (res, s2)" by fastforce
  have step: "AuthenticateAPI (Some key_look) (Some look) next r w s =
    (case res of
       Inl err \<Rightarrow> Served (WriteError 500 ''AUTH_LOOKUP_FAILED'' ''authentication lookup failed'' w) s2
     | Inr None \<Rightarrow> Served (WriteError 401 ''UNAUTHORIZED'' ''Unauthorized'' w) s2
     | Inr (Some claims) \<Rightarrow>
         next (SetClaims r (claims\<lparr>c_api_key := True,
             c_discord_user := trim_space (get_header r DiscordUserIDHeader),
             c_discord_server := trim_space (get_header r DiscordServerIDHeader)\<rparr>)) w s2)"
    using f api False k [unfolded request_key_def]
    by (simp add: AuthenticateAPI_def request_key_def Let_def split: if_splits sum.split option.split)
  consider e where "res = Inl e" | "res = Inr None" | c where "res = Inr (Some c)"
    by (cases res) (auto simp: not_None_eq [symmetric])
  then show thesis
  proof cases
    case 1
    with step show thesis by (intro refused [of 500]) simp_all
  next
    case 2
    with step show thesis by (intro refused [of 401]) simp_all
  next
    case (3 c)
    note found = k [unfolded 3]
    have "c = no_claims\<lparr>c_api_key := True\<rparr>" by (rule key_look_claims [OF found])
    with step 3 have "AuthenticateAPI (Some key_look) (Some look) next r w s = next (SetClaims r (key_claims r)) w s2"
      by (simp add: key_claims_def no_claims_def)
    with False key_look_accepted [OF found] show thesis by (intro key [of s2])
  qed
qed

lemma AuthenticateAPI_cases:
  assumes api: "prefix ''/api/v1'' (rq_path r)"
  obtains (refused) code name msg s' where "code = 401 \<or> code = 500"
      "AuthenticateAPI (Some key_look) (Some look) next r w s = Served (WriteError code name msg w) s'"
  | (session) c s' where "isGameAPIPath (rq_path r)" "valid s r c" "look r s = (Inr (Some c), s')"
      "AuthenticateAPI (Some key_look) (Some look) next r w s = next (SetClaims r c) w s'"
  | (key) s1 s' where "s1 = (if isGameAPIPath (rq_path r) then snd (look r s) else s)"
      "request_key r \<noteq> ''''" "accepted s1 (request_key r)"
      "AuthenticateAPI (Some key_look) (Some look) next r w s = next (SetClaims r (key_claims r)) w s'"
proof -
  let ?first = "if isGameAPIPath (rq_path r) then look r s else (Inr None, s)"
  obtain session s1 where f: "?first = (session, s1)" by fastforce
  note go = AuthenticateAPI_def [of "Some key_look" "Some look" "next" r w s]
  consider e where "session = Inl e" | "session = Inr None" | c where "session = Inr (Some c)"
    by (cases session) (auto simp: not_None_eq [symmetric])
  then show thesis
  proof cases
    case 1
    with f api show thesis by (intro refused [of 500]) (simp_all add: go split: if_splits)
  next
    case (3 c)
    with f have game: "isGameAPIPath (rq_path r)" "look r s = (Inr (Some c), s1)" by (auto split: if_splits)
    with f api 3 show thesis by (intro session [of c s1] look_valid) (simp_all add: go)
  next
    case 2
    have s1: "s1 = (if isGameAPIPath (rq_path r) then snd (look r s) else s)"
      using f by (auto split: if_splits)
    from f 2 have "?first = (Inr None, s1)" by simp
    with api show thesis
      by (rule AuthenticateAPI_key_step [where w = w and ?next = "next"]) (auto intro: refused key [OF s1])
  qed
qed

end

end
