(* ===== verification/Gates.thy ===== *)
theory Gates
  imports Middleware Tickets
begin

text \<open>
  The contracts of \<open>Middleware\<close> hold for the program's own lookups, over every Redis that keeps
  its contract, and what the gates then guarantee: who reaches the API and the dashboard, which
  origins may read responses, how many requests a caller gets per minute, what is counted.
\<close>

section \<open>The providers of the program\<close>

definition session_valid ::
  "('r \<Rightarrow> string \<Rightarrow> payload option) \<Rightarrow> time \<Rightarrow> 'r store \<Rightarrow> request \<Rightarrow> claims \<Rightarrow> bool"
where
  "session_valid view now st r c \<longleftrightarrow>
     SessionIDFromRequest r \<noteq> '''' \<and>
     (\<exists>s. session_table view st (SessionIDFromRequest r) = Some s \<and> \<not> Expired s now \<and> c = Session_Claims s)"

definition key_valid ::
  "('r \<Rightarrow> string \<Rightarrow> payload option) \<Rightarrow> (string \<Rightarrow> bool query) \<Rightarrow> 'r store \<Rightarrow> string \<Rightarrow> bool"
where
  "key_valid view api_keys st k \<longleftrightarrow>
     (\<exists>c. cached_status view k st = Some c \<and> sc_found c \<and> sc_active c) \<or> key_enabled api_keys k"

context redis_service
begin

lemma Service_Get_ok:
  assumes "Service_Get R now i st = (Inr s, st')"
  shows "session_table view st i = Some s" and "\<not> Expired s now" and "contents st' = contents st"
proof -
  obtain res st1 where g: "GetJSON R browser_session_of_json (KeySession i) st = (res, st1)" by fastforce
  with assms have "res = Inr s" "st' = st1" "\<not> Expired s now"
    by (auto simp: Service_Get_def split: sum.splits if_splits)
  with g GetJSON_stored [of browser_session_of_json "KeySession i" st s st1] GetJSON_frame [OF g]
  show "session_table view st i = Some s" "\<not> Expired s now" "contents st' = contents st"
    by (simp_all add: session_table_def)
qed

lemma Service_Lookup_ok:
  "Service_Lookup R now r st = (Inr (Some c), st') \<Longrightarrow> session_valid view now st r c"
  by (auto simp: Service_Lookup_def session_valid_def Let_def dest: Service_Get_ok
      split: if_splits prod.splits sum.splits)

lemma KeyLookup_valid: "KeyLookup R api_keys k st = (Inr (Some c), st') \<Longrightarrow> key_valid view api_keys st k"
  using KeyLookup_ok [of api_keys k st c st'] key_active_ok [of api_keys k st True]
  by (auto simp: key_valid_def)

end

sublocale redis_service \<subseteq> browser: session_provider "Service_Lookup R now" "session_valid view now" for now
  by unfold_locales (rule Service_Lookup_ok)

sublocale redis_service \<subseteq> keys: key_provider "\<lambda>_. KeyLookup R api_keys" "key_valid view api_keys" for api_keys
  by unfold_locales (auto dest: KeyLookup_valid KeyLookup_ok)

sublocale redis_service \<subseteq> api: api_providers "Service_Lookup R now" "session_valid view now"
    "\<lambda>_. KeyLookup R api_keys" "key_valid view api_keys" for now api_keys
  by unfold_locales

section \<open>The gates as the server mounts them\<close>

definition api_gate :: "'r redis \<Rightarrow> (string \<Rightarrow> bool query) \<Rightarrow> time \<Rightarrow> 'r store middleware" where
  "api_gate R api_keys now = AuthenticateAPI (Some (\<lambda>_. KeyLookup R api_keys)) (Some (Service_Lookup R now))"

definition ui_gate :: "'r redis \<Rightarrow> time \<Rightarrow> 'r store middleware" where
  "ui_gate R now = UISessionAuth (Some (Service_Lookup R now))"

context redis_service
begin

lemmas ui_gate_cases = browser.UISessionAuth_cases [folded ui_gate_def]
lemmas api_gate_cases = api.AuthenticateAPI_cases [folded api_gate_def]

end

section \<open>Role gates\<close>

lemma requireRole_cases:
  "requireRole allowed label next r w s =
     (if \<exists>c. rq_claims r = Some c \<and> allowed c then next r w s
      else Served (WriteError 403 ''FORBIDDEN'' (''requires '' @ label @ '' role'') w) s)"
  by (auto simp: requireRole_def ClaimsFromContext_def split: option.split)

section \<open>Counting requests\<close>

text \<open>
  A limiter that counts: each increment returns the number of hits of its key so far. The state
  of the run below is the limiter's with the number of requests that reached the handler.
\<close>

definition counts_hits :: "'s limiter \<Rightarrow> ('s \<Rightarrow> string \<Rightarrow> nat) \<Rightarrow> bool" where
  "counts_hits incr hits \<longleftrightarrow>
     (\<forall>k ttl s. \<exists>s'. incr k ttl s = (Inr (of_nat (Suc (hits s k))), s') \<and>
        hits s' = (hits s)(k := Suc (hits s k)))"

definition lift_limiter :: "'s limiter \<Rightarrow> ('s \<times> nat) limiter" where
  "lift_limiter incr k ttl sn = (let (res, s) = incr k ttl (fst sn) in (res, (s, snd sn)))"

definition count_handler :: "('s \<times> nat) handler" where
  "count_handler r w sn = Served w (fst sn, Suc (snd sn))"

definition limited_run ::
  "'s limiter \<Rightarrow> string \<Rightarrow> gint \<Rightarrow> (time \<times> request) list \<Rightarrow> 's \<times> nat \<Rightarrow> 's \<times> nat"
where
  "limited_run incr bucket_group limit rs sn =
     fold (\<lambda>(now, r) sn. state_of (RateLimit (Some (lift_limiter incr)) bucket_group limit now count_handler r fresh_writer sn))
       rs sn"

lemma limited_step:
  assumes "counts_hits incr hits" and key: "rate_key bucket_group r (quotient (unix now) 60) = k"
    and "Suc (hits s k) < 2 ^ 63" and "0 \<le> sint limit" and "n = min (nat (sint limit)) (hits s k)"
  shows "\<exists>s'. state_of (RateLimit (Some (lift_limiter incr)) bucket_group limit now count_handler r fresh_writer (s, n)) =
      (s', min (nat (sint limit)) (Suc (hits s k))) \<and> hits s' k = Suc (hits s k)"
proof -
  obtain s' where i: "incr k (120 * sec_ns) s = (Inr (of_nat (Suc (hits s k))), s')"
    and h: "hits s' = (hits s)(k := Suc (hits s k))"
    using assms(1) unfolding counts_hits_def by blast
  have l: "lift_limiter incr k (120 * sec_ns) (s, m) = (Inr (of_nat (Suc (hits s k))), (s', m))" for m
    by (simp add: lift_limiter_def i del: of_nat_Suc)
  have c: "sint (of_nat (Suc (hits s k)) :: gint) = int (Suc (hits s k))"
    by (rule sint_of_nat) (rule assms(3))
  define m where "m = Suc (hits s k)"
  have "state_of (RateLimit (Some (lift_limiter incr)) bucket_group limit now count_handler r fresh_writer (s, n)) =
      (s', if sint limit < int m then n else Suc n)"
    using c by (simp add: RateLimit_def key l count_handler_def Let_def m_def [symmetric])
  moreover have "(if sint limit < int m then n else Suc n) = min (nat (sint limit)) m"
    using assms(4,5) by (auto simp: m_def)
  moreover have "hits s' k = m" using h by (simp add: m_def)
  ultimately show ?thesis by (auto simp: m_def)
qed

lemma limited_run_count:
  assumes "counts_hits incr hits" and "\<forall>(now, r) \<in> set rs. rate_key bucket_group r (quotient (unix now) 60) = k"
    and "hits s k + length rs < 2 ^ 63" and "0 \<le> sint limit" and "n = min (nat (sint limit)) (hits s k)"
  shows "snd (limited_run incr bucket_group limit rs (s, n)) = min (nat (sint limit)) (hits s k + length rs)"
  using assms(2,3,5)
proof (induction rs arbitrary: s n)
  case Nil
  then show ?case by (simp add: limited_run_def)
next
  case (Cons a rs)
  obtain now r where a: "a = (now, r)" by fastforce
  obtain s' where s': "state_of (RateLimit (Some (lift_limiter incr)) bucket_group limit now count_handler r fresh_writer (s, n)) =
      (s', min (nat (sint limit)) (Suc (hits s k)))" "hits s' k = Suc (hits s k)"
    using limited_step [OF assms(1) _ _ assms(4) Cons.prems(3), of bucket_group r now] Cons.prems(1,2) a by auto
  have "snd (limited_run incr bucket_group limit rs (s', min (nat (sint limit)) (Suc (hits s k)))) =
      min (nat (sint limit)) (hits s' k + length rs)"
    by (rule Cons.IH) (use Cons.prems s' in auto)
  then show ?case using s' a by (simp add: limited_run_def)
qed

section \<open>A run of requests through the access log\<close>

definition logged ::
  "(request \<Rightarrow> string) \<Rightarrow> 's handler \<Rightarrow> request \<Rightarrow> http_metrics \<times> 's \<Rightarrow>
     (http_metrics \<times> 's) served \<times> (http_metrics \<times> 's)"
where
  "logged route next r ms =
     (let out = AccessLog route next r fresh_writer ms in (out, state_of out))"

definition request_label ::
  "(request \<Rightarrow> string) \<Rightarrow> request \<Rightarrow> 's served \<Rightarrow> (string \<times> string \<times> string) option"
where
  "request_label route r out =
     (case out of
        Panicked _ _ \<Rightarrow> None
      | Served w _ \<Rightarrow>
          Some (rq_method r, if route r = '''' then ''unmatched'' else route r,
            show_nat (case w_status w of None \<Rightarrow> 0 | Some c \<Rightarrow> c)))"

section \<open>Properties\<close>

text \<open>
  C9: who reaches the API: for a path under \<open>/api/v1\<close> the handler behind \<open>AuthenticateAPI\<close> runs
  only with the claims of an unexpired stored session whose id is in the request's cookie, on a
  game path, or with the claims of an API key that the database or its cached status accepts;
  every other request is answered with 401 or 500 and reaches no handler.
\<close>

theorem AuthenticateAPI_sound:
  assumes "redis_service R view" and "prefix ''/api/v1'' (rq_path r)"
  shows "(\<exists>code name msg st'. (code = 401 \<or> code = 500) \<and> api_gate R api_keys now next r w st = Served (WriteError code name msg w) st') \<or>
    (\<exists>c st'. isGameAPIPath (rq_path r) \<and> session_valid view now st r c \<and>
      api_gate R api_keys now next r w st = next (SetClaims r c) w st') \<or>
    (\<exists>st1 st'. (st1 = st \<or> st1 = snd (Service_Lookup R now r st)) \<and> request_key r \<noteq> '''' \<and>
      key_valid view api_keys st1 (request_key r) \<and> api_gate R api_keys now next r w st = next (SetClaims r (key_claims r)) w st')"
proof (rule redis_service.api_gate_cases [OF assms, of api_keys now "next" w st])
  fix code name msg s'
  assume "code = 401 \<or> code = 500" "api_gate R api_keys now next r w st = Served (WriteError code name msg w) s'"
  then show ?thesis by blast
next
  fix c s'
  assume "isGameAPIPath (rq_path r)" "session_valid view now st r c"
    "api_gate R api_keys now next r w st = next (SetClaims r c) w s'"
  then show ?thesis by blast
next
  fix s1 s'
  assume s1: "s1 = (if isGameAPIPath (rq_path r) then snd (Service_Lookup R now r st) else st)"
    and key: "request_key r \<noteq> ''''" "key_valid view api_keys s1 (request_key r)"
      "api_gate R api_keys now next r w st = next (SetClaims r (key_claims r)) w s'"
  from s1 have "s1 = st \<or> s1 = snd (Service_Lookup R now r st)" by simp
  with key show ?thesis by blast
qed

text \<open>
  who reaches the dashboard: the page behind \<open>UISessionAuth\<close> runs only with the claims of an
  unexpired stored session whose id is in the cookie; everyone else is redirected to
  \<open>/auth/login\<close>, or gets a 500 when the cache cannot be read.
\<close>

theorem UISessionAuth_sound:
  assumes "redis_service R view"
  shows "(\<exists>c st'. session_valid view now st r c \<and> ui_gate R now next r w st = next (SetClaims r c) w st') \<or>
    (\<exists>st'. ui_gate R now next r w st = Served (http_Redirect r ''/auth/login'' 303 w) st') \<or>
    (\<exists>st'. ui_gate R now next r w st = Served (http_Error ''session lookup failed'' 500 w) st')"
  using redis_service.ui_gate_cases [OF assms, of now "next" r w st] by metis

text \<open>
  the role gates let a request through exactly when its claims have one of the roles, and they
  are nested: who passes \<open>RequireAdmin\<close> passes \<open>RequireStaff\<close>, and who passes that passes
  \<open>RequireMember\<close>. The claims of API keys and browser sessions carry no role, so no request that
  this server authenticates passes any of them.
\<close>

theorem role_gates:
  "RequireMember next r w s =
     (if \<exists>c. rq_claims r = Some c \<and> c_role c \<in> {''pilot'', ''staff'', ''admin''} then next r w s
      else Served (WriteError 403 ''FORBIDDEN'' ''requires member role'' w) s) \<and>
   RequireStaff next r w s =
     (if \<exists>c. rq_claims r = Some c \<and> c_role c \<in> {''staff'', ''admin''} then next r w s
      else Served (WriteError 403 ''FORBIDDEN'' ''requires staff role'' w) s) \<and>
   RequireAdmin next r w s =
     (if \<exists>c. rq_claims r = Some c \<and> c_role c = ''admin'' then next r w s
      else Served (WriteError 403 ''FORBIDDEN'' ''requires admin role'' w) s) \<and>
   c_role (key_claims r) = '''' \<and> c_role (Session_Claims b) = ''''"
proof (intro conjI)
  show "RequireMember next r w s =
     (if \<exists>c. rq_claims r = Some c \<and> c_role c \<in> {''pilot'', ''staff'', ''admin''} then next r w s
      else Served (WriteError 403 ''FORBIDDEN'' ''requires member role'' w) s)"
    unfolding RequireMember_def requireRole_cases IsMember_def by (rule if_cong) auto
  show "RequireStaff next r w s =
     (if \<exists>c. rq_claims r = Some c \<and> c_role c \<in> {''staff'', ''admin''} then next r w s
      else Served (WriteError 403 ''FORBIDDEN'' ''requires staff role'' w) s)"
    unfolding RequireStaff_def requireRole_cases IsStaff_def by (rule if_cong) auto
  show "RequireAdmin next r w s =
     (if \<exists>c. rq_claims r = Some c \<and> c_role c = ''admin'' then next r w s
      else Served (WriteError 403 ''FORBIDDEN'' ''requires admin role'' w) s)"
    unfolding RequireAdmin_def requireRole_cases IsAdmin_def by (rule if_cong) auto
qed (simp_all add: key_claims_def Session_Claims_def no_claims_def)

text \<open>
  cross-origin requests: a preflight with an \<open>Origin\<close> never reaches the application; it is
  answered with 204 and the origin echoed when the origin is allowed, and refused with 403
  otherwise. Any other request reaches the application, with the origin echoed exactly when it is
  allowed.
\<close>

theorem CORS_spec:
  assumes "get_header r ''Origin'' = origin" and "w_status w = None"
    and "map_of (w_header w) ''Access-Control-Allow-Origin'' = None"
  shows "let allowed = (origin \<noteq> '''' \<and> (origin \<in> set origins \<or> ''*'' \<in> set origins)) in
    if origin \<noteq> '''' \<and> rq_method r = ''OPTIONS''
    then \<exists>w'. CORS origins next r w s = Served w' s \<and> w_status w' = Some (if allowed then 204 else 403) \<and>
      sent_header ''Access-Control-Allow-Origin'' w' = (if allowed then Some origin else None)
    else \<exists>w'. CORS origins next r w s = next r w' s \<and> w_status w' = None \<and>
      map_of (w_header w') ''Access-Control-Allow-Origin'' = (if allowed then Some origin else None)"
  using assms by (auto simp: CORS_def Let_def sent_header_def http_Error_def)

text \<open>
  C38: the rate limit: of the requests of one caller in one minute exactly the first \<open>limit\<close> reach
  the handler, when the limiter's backend answers.
\<close>

theorem RateLimit_enforced:
  assumes "counts_hits incr hits" and "\<forall>(now, r) \<in> set rs. rate_key bucket_group r (quotient (unix now) 60) = k"
    and "hits s k = 0" and "length rs < 2 ^ 63" and "0 \<le> sint limit"
  shows "snd (limited_run incr bucket_group limit rs (s, 0)) = min (nat (sint limit)) (length rs)"
  using limited_run_count [of incr hits rs bucket_group k s limit 0] assms by simp

text \<open>
  a caller that is refused is told to wait between 1 and 60 seconds, for every clock after
  1970.
\<close>

theorem RateLimit_retry_after:
  assumes "RateLimit (Some incr) bucket_group limit now next r w s = Served w' s'" and "0 \<le> unix now"
    and "incr (rate_key bucket_group r (quotient (unix now) 60)) (120 * sec_ns) s = (Inr count, s')"
    and "sint limit < sint count" and "w_status w = None"
  shows "w_status w' = Some 429 \<and>
    (\<exists>d. sent_header ''Retry-After'' w' = Some (show_int d) \<and> 1 \<le> d \<and> d \<le> 60 \<and> (unix now + d) mod 60 = 0)"
proof -
  let ?d = "(quotient (unix now) 60 + 1) * 60 - unix now"
  have q: "quotient (unix now) 60 = unix now div 60" using assms(2) by (simp add: quotient_def sgn_if)
  have range: "1 \<le> ?d" "?d \<le> 60" unfolding q by presburger+
  have boundary: "(unix now + ?d) mod 60 = 0" unfolding q by simp
  obtain msg
    where msg: "w' = WriteError 429 ''RATE_LIMIT_EXCEEDED'' msg (set_header ''Retry-After'' (show_int ?d) w)"
  proof
    show "w' = WriteError 429 ''RATE_LIMIT_EXCEEDED''
        (''Too many requests. Retry after '' @ show_int ?d @ '' seconds.'')
        (set_header ''Retry-After'' (show_int ?d) w)"
      using assms(1) unfolding RateLimit_def option.case assms(3) Let_def prod.case sum.case if_P [OF assms(4)]
        served.inject by (rule conjunct1 [THEN sym])
  qed
  have status: "w_status w' = Some 429" using assms(5) by (simp add: msg)
  have sent: "sent_header ''Retry-After'' w' = Some (show_int ?d)"
    using assms(5) by (simp add: msg sent_header_def WriteError_def WriteJSON_def Let_def)
  show ?thesis by (intro conjI exI [of _ ?d] status sent range boundary)
qed

text \<open>
  C37: the access log over any sequence of requests: the counter of a method, route and status grows
  by the number of requests answered with them (route \<open>unmatched\<close> when the router found none,
  status 0 when the handler wrote nothing). Requests whose handler panics are not counted at all.
\<close>

theorem AccessLog_counts:
  assumes "run_ops (logged route next) rs (m, s) = (outs, (m', s'))"
  shows "m_requests m' label =
    m_requests m label + length (filter (\<lambda>(r, out). request_label route r out = Some label) (zip rs outs))"
  using assms
proof (induction rs arbitrary: m s outs)
  case Nil
  then show ?case by simp
next
  case (Cons r rs)
  obtain m1 s1 where one: "state_of (AccessLog route next r fresh_writer (m, s)) = (m1, s1)" by fastforce
  obtain outs' ms where rest: "run_ops (logged route next) rs (m1, s1) = (outs', ms)" by (meson surj_pair)
  have "logged route next r (m, s) = (AccessLog route next r fresh_writer (m, s), (m1, s1))"
    by (simp add: logged_def one)
  with Cons.prems rest have outs: "outs = AccessLog route next r fresh_writer (m, s) # outs'" "ms = (m', s')"
    by auto
  have "m_requests m1 label = m_requests m label +
      (if request_label route r (AccessLog route next r fresh_writer (m, s)) = Some label then 1 else 0)"
    using one by (auto simp: AccessLog_def request_label_def count_request_def Let_def split: served.splits)
  with Cons.IH [of m1 s1 outs'] rest outs show ?case by simp
qed


section \<open>Examples\<close>

definition ex_get :: "string \<Rightarrow> request" where
  "ex_get path =
     \<lparr>rq_method = ''GET'', rq_path = path, rq_query = [], rq_headers = [], rq_cookies = [],
      rq_body = NoBody, rq_tls = False, rq_remote = ''10.0.0.1'', rq_claims = None\<rparr>"

definition ok_handler :: "'s handler" where
  "ok_handler r w s = Served (WriteHeader 200 w) s"

definition count_incr :: "(string \<Rightarrow> nat) limiter" where
  "count_incr k ttl s = (Inr (of_nat (Suc (s k))), s(k := Suc (s k)))"

lemma ex_get_simps [simp]:
  "rq_path (ex_get p) = p" "rq_method (ex_get p) = ''GET''" "rq_claims (ex_get p) = None"
  "get_header (ex_get p) n = ''''" "SessionIDFromRequest (ex_get p) = ''''" "request_key (ex_get p) = ''''"
  "callerID (ex_get p) = ''10.0.0.1''"
  by (simp_all add: ex_get_def get_header_def SessionIDFromRequest_def request_key_def callerID_def
      ClaimsFromContext_def)

lemma counts_hits_count_incr: "counts_hits count_incr (\<lambda>s k. s k)"
  by (simp add: counts_hits_def count_incr_def)

theorem AuthenticateAPI_sound_witness:
  "w_status (reply_of (api_gate mem_redis (\<lambda>_. NoRows) 0 ok_handler (ex_get ''/api/v1/game/x'') fresh_writer
      (store_of mem_empty))) \<in> {Some 401, Some 500}"
  using AuthenticateAPI_sound [OF mem.redis_service_axioms, of "ex_get ''/api/v1/game/x''" "\<lambda>_. NoRows" 0
      ok_handler fresh_writer "store_of mem_empty"]
  by (auto simp: session_valid_def)

theorem UISessionAuth_sound_witness:
  "w_status (reply_of (ui_gate mem_redis 0 ok_handler (ex_get ''/dashboard'') fresh_writer (store_of mem_empty)))
     \<in> {Some 303, Some 500}"
  using UISessionAuth_sound [OF mem.redis_service_axioms, of 0 "store_of mem_empty" "ex_get ''/dashboard''"
      ok_handler fresh_writer]
  by (auto simp: session_valid_def)

definition ex_preflight :: request where
  "ex_preflight = (ex_get ''/x'')\<lparr>rq_method := ''OPTIONS'', rq_headers := [(''Origin'', ''http://a'')]\<rparr>"

theorem CORS_spec_witness:
  "\<exists>w'. CORS [''http://a''] ok_handler ex_preflight fresh_writer () = Served w' () \<and> w_status w' = Some 204 \<and>
     sent_header ''Access-Control-Allow-Origin'' w' = Some ''http://a''"
proof -
  have o: "get_header ex_preflight ''Origin'' = ''http://a''" by code_simp
  have "rq_method ex_preflight = ''OPTIONS''" by (simp add: ex_preflight_def)
  with CORS_spec [OF o, of fresh_writer "[''http://a'']" ok_handler "()"] show ?thesis by (simp add: Let_def)
qed

theorem RateLimit_enforced_witness:
  "snd (limited_run count_incr ''read'' 2
     [(0, ex_get ''/x''), (1, ex_get ''/x''), (2, ex_get ''/y'')] ((\<lambda>_. 0), 0)) = 2"
proof -
  have u: "unix 0 = unix 1" "unix 2 = unix 0" by code_simp+
  show ?thesis
    using RateLimit_enforced [OF counts_hits_count_incr, of
        "[(0, ex_get ''/x''), (1, ex_get ''/x''), (2, ex_get ''/y'')]" "''read''"
        "rate_key ''read'' (ex_get ''/x'') (quotient (unix 0) 60)" "\<lambda>_. 0" 2]
    by (simp add: rate_key_def u)
qed

theorem RateLimit_retry_after_witness:
  "\<exists>d. sent_header ''Retry-After'' (reply_of (RateLimit (Some count_incr) ''read'' 0 (90 * sec_ns)
      ok_handler (ex_get ''/x'') fresh_writer (\<lambda>_. 0))) = Some (show_int d) \<and> 1 \<le> d \<and> d \<le> 60"
proof -
  have u: "0 \<le> unix (90 * sec_ns)" by code_simp
  let ?k = "rate_key ''read'' (ex_get ''/x'') (quotient (unix (90 * sec_ns)) 60)"
  have i: "count_incr ?k (120 * sec_ns) (\<lambda>_. 0) = (Inr 1, (\<lambda>_. 0)(?k := 1))"
    by (simp add: count_incr_def)
  obtain w' where r: "RateLimit (Some count_incr) ''read'' 0 (90 * sec_ns) ok_handler (ex_get ''/x'')
      fresh_writer (\<lambda>_. 0) = Served w' ((\<lambda>_. 0)(?k := 1))"
    using i by (simp add: RateLimit_def Let_def)
  from RateLimit_retry_after [OF r u i] r show ?thesis by auto
qed

definition ex_panicking :: "unit handler" where
  "ex_panicking r w s = (if rq_path r = ''/bad'' then Panicked w s else ok_handler r w s)"

theorem AccessLog_counts_witness:
  "m_requests (fst (snd (run_ops (logged (\<lambda>r. rq_path r) ex_panicking) [ex_get ''/bad'', ex_get ''/x'', ex_get ''/x'']
     (\<lparr>m_requests = (\<lambda>_. 0), m_durations = (\<lambda>_. 0)\<rparr>, ())))) (''GET'', ''/x'', ''200'') = 2"
proof -
  let ?m = "\<lparr>m_requests = (\<lambda>_. 0), m_durations = (\<lambda>_. 0)\<rparr> :: http_metrics"
  let ?rs = "[ex_get ''/bad'', ex_get ''/x'', ex_get ''/x'']"
  let ?run = "run_ops (logged (\<lambda>r. rq_path r) ex_panicking) ?rs (?m, ())"
  have n: "show_nat 200 = ''200''" by code_simp
  have e: "?run = (fst ?run, (fst (snd ?run), snd (snd ?run)))" by (simp only: prod.collapse)
  have "length (filter (\<lambda>(r, out). request_label (\<lambda>r. rq_path r) r out = Some (''GET'', ''/x'', ''200'')) (zip ?rs (fst ?run))) = 2"
    by (simp add: logged_def AccessLog_def ex_panicking_def ok_handler_def request_label_def n Let_def)
  with AccessLog_counts [OF e, of "(''GET'', ''/x'', ''200'')"] show ?thesis by simp
qed

end
