(* ===== verification/JsonText.thy ===== *)
theory JsonText
  imports Utf8 Encoding
begin

text \<open>
  The text of JSON, where the program sees it: \<open>json.Marshal\<close> of an object of strings (with the
  HTML escapes and the replacement of invalid UTF-8) and \<open>json.Unmarshal\<close>'s parser. The nesting
  limit of the library is left out. A printed object parses back.
\<close>

section \<open>Strings\<close>

abbreviation quote_mark :: char where
  "quote_mark \<equiv> CHR 0x22"

abbreviation backslash :: char where
  "backslash \<equiv> CHR 0x5C"

definition short_escape :: "char \<Rightarrow> char option" where
  "short_escape c =
     map_of [(quote_mark, quote_mark), (backslash, backslash), (CHR 0x08, CHR ''b''), (CHR 0x0C, CHR ''f''),
       (CHR 0x0A, CHR ''n''), (CHR 0x0D, CHR ''r''), (CHR 0x09, CHR ''t'')] c"

definition is_html :: "char \<Rightarrow> bool" where
  "is_html c \<longleftrightarrow> c = CHR ''<'' \<or> c = CHR ''>'' \<or> c = CHR ''&''"

definition line_separators :: "string list" where
  "line_separators = [[CHR 0xE2, CHR 0x80, CHR 0xA8], [CHR 0xE2, CHR 0x80, CHR 0xA9]]"

function quote_body :: "string \<Rightarrow> string" where
  "quote_body s =
     (case s of
        [] \<Rightarrow> []
      | c # r \<Rightarrow>
          if (of_char c :: nat) < 128
          then
            (case short_escape c of
               Some e \<Rightarrow> [backslash, e]
             | None \<Rightarrow>
                 if (of_char c :: nat) < 32 \<or> is_html c then [backslash, CHR ''u'', CHR ''0'', CHR ''0''] @ hex_encode [c]
                 else [c]) @ quote_body r
          else if rune_len s = 0 then [backslash] @ ''ufffd'' @ quote_body r
          else (let rune = take (rune_len s) s in
                (if rune = line_separators ! 0 then [backslash] @ ''u2028''
                 else if rune = line_separators ! 1 then [backslash] @ ''u2029''
                 else rune)) @ quote_body (drop (rune_len s) s))"
  by pat_completeness auto
termination
  by (relation "measure length") auto

definition quote :: "string \<Rightarrow> string" where
  "quote s = [quote_mark] @ quote_body s @ [quote_mark]"

definition utf8_encode :: "nat \<Rightarrow> string" where
  "utf8_encode n =
     (if n < 128 then [char_of n]
      else if n < 2048 then [char_of (192 + n div 64), char_of (128 + n mod 64)]
      else if n < 65536
      then [char_of (224 + n div 4096), char_of (128 + n div 64 mod 64), char_of (128 + n mod 64)]
      else [char_of (240 + n div 262144), char_of (128 + n div 4096 mod 64),
            char_of (128 + n div 64 mod 64), char_of (128 + n mod 64)])"

definition hex4 :: "string \<Rightarrow> nat option" where
  "hex4 s =
     (case s of
        a # b # c # d # _ \<Rightarrow>
          (case (hex_val a, hex_val b, hex_val c, hex_val d) of
             (Some w, Some x, Some y, Some z) \<Rightarrow> Some (((w * 16 + x) * 16 + y) * 16 + z)
           | _ \<Rightarrow> None)
      | _ \<Rightarrow> None)"

definition low_surrogate :: "nat \<Rightarrow> string \<Rightarrow> nat option" where
  "low_surrogate hi s =
     (if hi < 56320 \<and> take 2 s = [backslash, CHR ''u'']
      then (case hex4 (drop 2 s) of
              Some lo \<Rightarrow>
                if 56320 \<le> lo \<and> lo < 57344 then Some (65536 + (hi - 55296) * 1024 + (lo - 56320)) else None
            | None \<Rightarrow> None)
      else None)"

definition long_escape :: "char \<Rightarrow> char option" where
  "long_escape e =
     map_of [(quote_mark, quote_mark), (backslash, backslash), (CHR ''/'', CHR ''/''), (CHR ''b'', CHR 0x08),
       (CHR ''f'', CHR 0x0C), (CHR ''n'', CHR 0x0A), (CHR ''r'', CHR 0x0D), (CHR ''t'', CHR 0x09)] e"

definition prepend :: "string \<Rightarrow> (string \<times> string) option \<Rightarrow> (string \<times> string) option" where
  "prepend x p = map_option (\<lambda>(a, r). (x @ a, r)) p"

text \<open>The rest of a string literal after its opening quote: its value and what follows it.\<close>

function parse_str :: "string \<Rightarrow> (string \<times> string) option" where
  "parse_str s =
     (case s of
        [] \<Rightarrow> None
      | c # r \<Rightarrow>
          if c = quote_mark then Some ([], r)
          else if c = backslash
          then
            (case r of
               [] \<Rightarrow> None
             | e # r \<Rightarrow>
                 if e = CHR ''u''
                 then
                   (case hex4 r of
                      None \<Rightarrow> None
                    | Some u \<Rightarrow>
                        if 55296 \<le> u \<and> u < 57344
                        then
                          (case low_surrogate u (drop 4 r) of
                             Some cp \<Rightarrow> prepend (utf8_encode cp) (parse_str (drop 10 r))
                           | None \<Rightarrow> prepend replacement (parse_str (drop 4 r)))
                        else prepend (utf8_encode u) (parse_str (drop 4 r)))
                 else
                   (case long_escape e of
                      None \<Rightarrow> None
                    | Some d \<Rightarrow> prepend [d] (parse_str r)))
          else if (of_char c :: nat) < 32 then None
          else if rune_len s = 0 then prepend replacement (parse_str r)
          else prepend (take (rune_len s) s) (parse_str (drop (rune_len s) s)))"
  by pat_completeness auto
termination
  by (relation "measure length") auto

declare quote_body.simps [simp del] parse_str.simps [simp del]

section \<open>Printed strings parse back\<close>

lemma parse_str_plain:
  assumes "c \<noteq> quote_mark" "c \<noteq> backslash" "32 \<le> (of_char c :: nat)" "rune_len (c # s) = k" "k \<noteq> 0"
  shows "parse_str (take k (c # s) @ r) = prepend (take k (c # s)) (parse_str r)"
proof -
  obtain m where k: "k = Suc m" using assms(5) by (cases k) auto
  have "rune_len (c # take m s @ r) = k" using rune_len_take [of "c # s" r] assms(4,5) k by simp
  moreover have "m \<le> length s" using rune_len_le [of "c # s"] assms(4) k by simp
  ultimately show ?thesis using assms k by (subst parse_str.simps) simp
qed

lemma parse_str_escape:
  "long_escape e = Some d \<Longrightarrow> e \<noteq> CHR ''u'' \<Longrightarrow> parse_str (backslash # e # r) = prepend [d] (parse_str r)"
  by (subst parse_str.simps) simp

lemma parse_str_unicode:
  "hex4 (a # b # c # d # r) = Some u \<Longrightarrow> u < 55296 \<Longrightarrow>
     parse_str (backslash # CHR ''u'' # a # b # c # d # r) = prepend (utf8_encode u) (parse_str r)"
  by (subst parse_str.simps) simp

lemma short_escape_long: "short_escape c = Some e \<Longrightarrow> long_escape e = Some c \<and> e \<noteq> CHR ''u''"
  by (auto simp: short_escape_def long_escape_def split: if_splits)

lemma quote_body_Nil [simp]: "quote_body [] = []"
  by (simp add: quote_body.simps)

lemma parse_ascii_quoted:
  assumes ascii: "(of_char c :: nat) < 128" and rest: "parse_str (quote_body t @ quote_mark # r) = Some (t, r)"
  shows "parse_str (quote_body (c # t) @ quote_mark # r) = Some (c # t, r)"
proof -
  consider e where "short_escape c = Some e"
    | "short_escape c = None" "(of_char c :: nat) < 32 \<or> is_html c"
    | "short_escape c = None" "32 \<le> (of_char c :: nat)" "\<not> is_html c"
    by fastforce
  then show ?thesis
  proof cases
    case 1
    then show ?thesis
      using ascii rest short_escape_long [OF 1]
      by (subst quote_body.simps) (simp add: parse_str_escape prepend_def)
  next
    case 2
    have zero: "hex_val CHR ''0'' = Some 0" by code_simp
    have h: "hex4 (CHR ''0'' # CHR ''0'' # hex_encode [c] @ x) = Some (of_char c)" for x
      using ascii zero by (simp add: hex4_def hex_val_char of_char_less)
    show ?thesis
      using ascii rest 2 h
      by (subst quote_body.simps) (auto simp: parse_str_unicode prepend_def utf8_encode_def)
  next
    case 3
    have "c \<noteq> quote_mark" "c \<noteq> backslash" using 3(1) by (auto simp: short_escape_def)
    with parse_str_plain [of c t 1 "quote_body t @ quote_mark # r"] ascii rest 3
    show ?thesis by (subst quote_body.simps) (simp add: prepend_def)
  qed
qed

lemma parse_separator_escape:
  "parse_str ([backslash] @ ''u2028'' @ x) = prepend (line_separators ! 0) (parse_str x)"
  "parse_str ([backslash] @ ''u2029'' @ x) = prepend (line_separators ! 1) (parse_str x)"
proof -
  have e: "utf8_encode 8232 = line_separators ! 0" "utf8_encode 8233 = line_separators ! 1"
    by (simp_all add: utf8_encode_def line_separators_def char_of_eq_iff)
  have h: "hex4 (''2028'' @ x) = Some 8232" "hex4 (''2029'' @ x) = Some 8233" by (simp_all add: hex4_def hex_val_def)
  show "parse_str ([backslash] @ ''u2028'' @ x) = prepend (line_separators ! 0) (parse_str x)"
    using parse_str_unicode [of _ _ _ _ x 8232] e h by simp
  show "parse_str ([backslash] @ ''u2029'' @ x) = prepend (line_separators ! 1) (parse_str x)"
    using parse_str_unicode [of _ _ _ _ x 8233] e h by simp
qed

lemma parse_rune_quoted:
  assumes wide: "\<not> (of_char c :: nat) < 128" and s: "s = c # t" and k: "rune_len s \<noteq> 0"
    and rest: "parse_str (quote_body (drop (rune_len s) s) @ quote_mark # r) = Some (drop (rune_len s) s, r)"
  shows "parse_str (quote_body s @ quote_mark # r) = Some (s, r)"
proof -
  consider "take (rune_len s) s = line_separators ! 0" | "take (rune_len s) s = line_separators ! 1"
    | "take (rune_len s) s \<noteq> line_separators ! 0" "take (rune_len s) s \<noteq> line_separators ! 1"
    by blast
  then show ?thesis
  proof cases
    case 1
    then show ?thesis
      using s wide k rest parse_separator_escape(1) append_take_drop_id [of "rune_len s" s]
      by (subst quote_body.simps) (simp add: prepend_def)
  next
    case 2
    moreover have "line_separators ! 1 \<noteq> line_separators ! 0" by (simp add: line_separators_def)
    ultimately show ?thesis
      using s wide k rest parse_separator_escape(2) append_take_drop_id [of "rune_len s" s]
      by (subst quote_body.simps) (simp add: prepend_def)
  next
    case 3
    have "c \<noteq> quote_mark" "c \<noteq> backslash" "32 \<le> (of_char c :: nat)" using wide by auto
    with parse_str_plain [of c t "rune_len s" "quote_body (drop (rune_len s) s) @ quote_mark # r"] s wide k rest 3
    show ?thesis by (subst quote_body.simps) (simp add: prepend_def Let_def)
  qed
qed

lemma parse_quote_body:
  "is_utf8 s \<Longrightarrow> parse_str (quote_body s @ quote_mark # r) = Some (s, r)"
proof (induction s rule: quote_body.induct)
  case (1 s)
  show ?case
  proof (cases s)
    case Nil
    then show ?thesis by (simp add: parse_str.simps [of "quote_mark # r"])
  next
    case (Cons c t)
    show ?thesis
    proof (cases "(of_char c :: nat) < 128")
      case True
      have "is_utf8 t" using 1(4) True Cons by simp
      with parse_ascii_quoted [OF True "1.IH"(1) [OF Cons True]] Cons show ?thesis by simp
    next
      case False
      have k: "rune_len s \<noteq> 0" using 1(4) Cons is_utf8.simps [of s] by (metis list.distinct(1))
      have "is_utf8 (drop (rune_len s) s)" using 1(4) is_utf8_rune [OF k] by simp
      then have "parse_str (quote_body (drop (rune_len s) s) @ quote_mark # r) = Some (drop (rune_len s) s, r)"
        using "1.IH"(3) [OF Cons False] k Cons by simp
      with parse_rune_quoted [OF False Cons k] show ?thesis .
    qed
  qed
qed

section \<open>Values\<close>

definition json_space :: "char \<Rightarrow> bool" where
  "json_space c \<longleftrightarrow> c = CHR '' '' \<or> c = CHR 0x09 \<or> c = CHR 0x0A \<or> c = CHR 0x0D"

abbreviation skip :: "string \<Rightarrow> string" where
  "skip \<equiv> dropWhile json_space"

text \<open>A number literal: its value and the rest.\<close>

definition digits_of :: "string \<Rightarrow> string \<times> string" where
  "digits_of s = (takeWhile is_digit s, dropWhile is_digit s)"

definition exponent_of :: "string \<Rightarrow> (int option \<times> string) option" where
  "exponent_of s =
     (case s of
        e # r \<Rightarrow>
          if e = CHR ''e'' \<or> e = CHR ''E''
          then
            (let neg = (take 1 r = ''-''); r = (if take 1 r = ''-'' \<or> take 1 r = ''+'' then drop 1 r else r);
                 (ds, r) = digits_of r in
             if ds = [] then None
             else Some (Some (if neg then - int (read_digits ds) else int (read_digits ds)), r))
          else Some (None, s)
      | [] \<Rightarrow> Some (None, s))"

definition parse_number :: "string \<Rightarrow> (json \<times> string) option" where
  "parse_number s =
     (let neg = (take 1 s = ''-''); s = (if neg then drop 1 s else s); (whole, s) = digits_of s in
      if whole = [] \<or> (length whole > 1 \<and> hd whole = CHR ''0'') then None
      else
        (let (frac, s, bad) =
           (if take 1 s = ''.'' then (let (ds, r) = digits_of (drop 1 s) in (ds, r, ds = [])) else ([], s, False)) in
         if bad then None
         else
           (case exponent_of s of
              None \<Rightarrow> None
            | Some (e, r) \<Rightarrow>
                if frac = [] \<and> e = None
                then Some (JInt (if neg then - int (read_digits whole) else int (read_digits whole)), r)
                else
                  (let e10 = (case e of None \<Rightarrow> 0 | Some x \<Rightarrow> x) - int (length frac);
                       m = of_nat (read_digits (whole @ frac)) :: rat;
                       v = (if e10 \<ge> 0 then m * 10 ^ nat e10 else m / 10 ^ nat (- e10)) in
                   Some (JFloat (rnd neg v), r)))))"

definition literal :: "string \<Rightarrow> json \<Rightarrow> string \<Rightarrow> (json \<times> string) option" where
  "literal word v s = (if prefix word s then Some (v, drop (length word) s) else None)"

text \<open>The fuel bounds the number of values and separators, which the length of the text does.\<close>

fun parse_value :: "nat \<Rightarrow> string \<Rightarrow> (json \<times> string) option"
  and parse_elems :: "nat \<Rightarrow> string \<Rightarrow> (json list \<times> string) option"
  and parse_members :: "nat \<Rightarrow> string \<Rightarrow> ((string \<times> json) list \<times> string) option"
where
  "parse_value 0 s = None"
| "parse_value (Suc n) s =
     (case skip s of
        [] \<Rightarrow> None
      | c # r \<Rightarrow>
          if c = quote_mark then map_option (\<lambda>(v, r). (JStr v, r)) (parse_str r)
          else if c = CHR ''{''
          then (if take 1 (skip r) = ''}'' then Some (JObj [], drop 1 (skip r))
                else map_option (\<lambda>(kvs, r). (JObj kvs, r)) (parse_members n r))
          else if c = CHR ''[''
          then (if take 1 (skip r) = '']'' then Some (JArr [], drop 1 (skip r))
                else map_option (\<lambda>(vs, r). (JArr vs, r)) (parse_elems n r))
          else if c = CHR ''t'' then literal ''true'' (JBool True) (c # r)
          else if c = CHR ''f'' then literal ''false'' (JBool False) (c # r)
          else if c = CHR ''n'' then literal ''null'' JNull (c # r)
          else parse_number (c # r))"
| "parse_elems 0 s = None"
| "parse_elems (Suc n) s =
     (case parse_value n s of
        None \<Rightarrow> None
      | Some (v, r) \<Rightarrow>
          (case skip r of
             [] \<Rightarrow> None
           | c # r \<Rightarrow>
               if c = CHR '']'' then Some ([v], r)
               else if c = CHR '','' then map_option (\<lambda>(vs, r). (v # vs, r)) (parse_elems n r)
               else None))"
| "parse_members 0 s = None"
| "parse_members (Suc n) s =
     (case skip s of
        [] \<Rightarrow> None
      | c # r \<Rightarrow>
          if c \<noteq> quote_mark then None
          else
            (case parse_str r of
               None \<Rightarrow> None
             | Some (k, r) \<Rightarrow>
                 if take 1 (skip r) \<noteq> '':'' then None
                 else
                   (case parse_value n (drop 1 (skip r)) of
                      None \<Rightarrow> None
                    | Some (v, r) \<Rightarrow>
                        (case skip r of
                           [] \<Rightarrow> None
                         | c # r \<Rightarrow>
                             if c = CHR ''}'' then Some ([(k, v)], r)
                             else if c = CHR '','' then map_option (\<lambda>(kvs, r). ((k, v) # kvs, r)) (parse_members n r)
                             else None))))"

definition parse_json :: "string \<Rightarrow> json option" where
  "parse_json s =
     (case parse_value (2 * length s + 2) s of
        Some (v, r) \<Rightarrow> if skip r = [] then Some v else None
      | None \<Rightarrow> None)"

text \<open>An object of strings, as \<open>json.Marshal\<close> prints it.\<close>

definition print_member :: "string \<times> string \<Rightarrow> string" where
  "print_member kv = quote (fst kv) @ '':'' @ quote (snd kv)"

fun print_members :: "(string \<times> string) list \<Rightarrow> string" where
  "print_members [] = ''''"
| "print_members [kv] = print_member kv"
| "print_members (kv # kvs) = print_member kv @ '','' @ print_members kvs"

definition print_object :: "(string \<times> string) list \<Rightarrow> string" where
  "print_object kvs = ''{'' @ print_members kvs @ ''}''"

lemma skip_visible [simp]: "\<not> json_space c \<Longrightarrow> skip (c # s) = c # s"
  by simp

lemma parse_value_quote:
  "is_utf8 v \<Longrightarrow> parse_value (Suc n) (quote v @ r) = Some (JStr v, r)"
  by (simp add: quote_def parse_quote_body json_space_def)

lemma parse_print_members:
  "kvs \<noteq> [] \<Longrightarrow> \<forall>(k, v) \<in> set kvs. is_utf8 k \<and> is_utf8 v \<Longrightarrow> length kvs < n \<Longrightarrow>
     parse_members n (print_members kvs @ ''}'' @ r) = Some (map (\<lambda>(k, v). (k, JStr v)) kvs, r)"
proof (induction kvs arbitrary: n rule: print_members.induct)
  case 1
  then show ?case by simp
next
  case (2 kv)
  obtain m where n: "n = Suc (Suc m)" using 2(3) by (cases n; cases "n - 1") auto
  have v: "parse_value (Suc m) (quote (snd kv) @ x) = Some (JStr (snd kv), x)" for x
    by (rule parse_value_quote) (use 2 in auto)
  have k: "parse_str (quote_body (fst kv) @ quote_mark # x) = Some (fst kv, x)" for x
    by (rule parse_quote_body) (use 2 in auto)
  show ?case
    by (simp add: n print_member_def quote_def [of "fst kv"] k json_space_def v split_beta del: parse_value.simps)
next
  case (3 kv kv' kvs)
  obtain m where n: "n = Suc (Suc m)" using 3(4) by (cases n; cases "n - 1") auto
  have v: "parse_value (Suc m) (quote (snd kv) @ x) = Some (JStr (snd kv), x)" for x
    by (rule parse_value_quote) (use 3(3) in auto)
  have k: "parse_str (quote_body (fst kv) @ quote_mark # x) = Some (fst kv, x)" for x
    by (rule parse_quote_body) (use 3(3) in auto)
  have IH: "parse_members (Suc m) (print_members (kv' # kvs) @ ''}'' @ r) =
      Some (map (\<lambda>(k, v). (k, JStr v)) (kv' # kvs), r)"
    by (rule 3(1)) (use 3 n in auto)
  then show ?case
    by (simp add: n print_member_def quote_def [of "fst kv"] k json_space_def v split_beta
        del: parse_value.simps parse_members.simps(2))
       (subst parse_members.simps, simp add: k json_space_def v split_beta del: parse_value.simps parse_members.simps)
qed

lemma parse_print_object:
  assumes "kvs \<noteq> []" and "\<forall>(k, v) \<in> set kvs. is_utf8 k \<and> is_utf8 v"
  shows "parse_json (print_object kvs) = Some (JObj (map (\<lambda>(k, v). (k, JStr v)) kvs))"
proof -
  have len: "length kvs \<le> length (print_members kvs)"
    by (induction kvs rule: print_members.induct) (auto simp: print_member_def quote_def)
  have first: "take 1 (skip (print_members kvs @ x)) = [quote_mark]" for x
    using assms(1) by (cases kvs rule: print_members.cases) (auto simp: print_member_def quote_def json_space_def)
  have "parse_members (2 * length (print_object kvs) + 1) (print_members kvs @ ''}'' @ []) =
      Some (map (\<lambda>(k, v). (k, JStr v)) kvs, [])"
    by (rule parse_print_members [OF assms]) (use len in \<open>simp add: print_object_def\<close>)
  then show ?thesis
    using first [of "''}''"]
    by (simp add: parse_json_def print_object_def json_space_def del: parse_members.simps)
qed

end
