(* ===== verification/FlightTokens.thy ===== *)
theory FlightTokens
  imports JsonText GoCipher
begin

text \<open>
  \<open>internal/game/flights/token.go\<close>: the encrypted marker tokens that the map hands out instead of
  flight ids. The nonce is an argument, \<open>None\<close> a failed read of the random source.
\<close>

record marker_token =
  mk_flight :: string
  mk_server :: string

definition marker_text :: "marker_token \<Rightarrow> string" where
  "marker_text t = print_object [(''f'', mk_flight t), (''s'', mk_server t)]"

definition marker_of_json :: "json \<Rightarrow> marker_token option" where
  "marker_of_json = dec_struct \<lparr>mk_flight = '''', mk_server = ''''\<rparr> (\<lambda>kvs. do {
     f \<leftarrow> dec_str ''f'' kvs;
     s \<leftarrow> dec_str ''s'' kvs;
     Some \<lparr>mk_flight = f, mk_server = s\<rparr>
   })"

definition Tokens_Encode :: "string \<Rightarrow> string option \<Rightarrow> marker_token \<Rightarrow> go_error + string" where
  "Tokens_Encode secret nonce_rand token =
     (if length secret \<noteq> 32 then Inl (Errorf ''flight token secret must be 32 bytes'')
      else if mk_flight token = '''' \<or> mk_server token = ''''
      then Inl (Errorf ''flight token requires flightId and serverId'')
      else
        (let payload = marker_text token in
         case nonce_rand of
           None \<Rightarrow> Inl (Errorf ''random source'')
         | Some nonce \<Rightarrow> Inr (b64_encode (nonce @ gcm_seal secret nonce payload))))"

definition Tokens_Decode :: "string \<Rightarrow> string \<Rightarrow> go_error + marker_token" where
  "Tokens_Decode secret raw =
     (if length secret \<noteq> 32 then Inl ErrInvalidFlightToken
      else
        (case b64_decode raw of
           None \<Rightarrow> Inl ErrInvalidFlightToken
         | Some sealed \<Rightarrow>
             if length sealed < NonceSize then Inl ErrInvalidFlightToken
             else
               (case gcm_open secret (take NonceSize sealed) (drop NonceSize sealed) of
                  None \<Rightarrow> Inl ErrInvalidFlightToken
                | Some payload \<Rightarrow>
                    (case Option.bind (parse_json payload) marker_of_json of
                       None \<Rightarrow> Inl ErrInvalidFlightToken
                     | Some token \<Rightarrow>
                         if mk_flight token = '''' \<or> mk_server token = '''' then Inl ErrInvalidFlightToken
                         else Inr token))))"

section \<open>Lemmas\<close>

definition marker_ok :: "marker_token \<Rightarrow> bool" where
  "marker_ok t \<longleftrightarrow> mk_flight t \<noteq> '''' \<and> mk_server t \<noteq> '''' \<and> is_utf8 (mk_flight t) \<and> is_utf8 (mk_server t)"

lemma marker_roundtrip:
  "marker_ok t \<Longrightarrow> Option.bind (parse_json (marker_text t)) marker_of_json = Some t"
  by (simp add: marker_ok_def marker_text_def parse_print_object marker_of_json_def dec_defs field_Cons)

lemma Encode_Some:
  "marker_ok t \<Longrightarrow> length secret = 32 \<Longrightarrow>
     Tokens_Encode secret (Some nonce) t = Inr (b64_encode (nonce @ gcm_seal secret nonce (marker_text t)))"
  by (simp add: Tokens_Encode_def marker_ok_def)

lemma Decode_Encode:
  assumes "marker_ok t" and "length nonce = NonceSize" and "Tokens_Encode secret (Some nonce) t = Inr raw"
  shows "Tokens_Decode secret raw = Inr t"
proof -
  have "length secret = 32" using assms(3) by (auto simp: Tokens_Encode_def split: if_splits)
  with assms(3) Encode_Some [OF assms(1)] have raw: "raw = b64_encode (nonce @ gcm_seal secret nonce (marker_text t))"
    by simp
  with assms(1,2) \<open>length secret = 32\<close> marker_roundtrip [OF assms(1)] show ?thesis
    by (simp add: Tokens_Decode_def marker_ok_def)
qed

lemma Decode_sealed:
  assumes "Tokens_Decode secret raw = Inr t"
  shows "length secret = 32 \<and> mk_flight t \<noteq> '''' \<and> mk_server t \<noteq> '''' \<and>
    (\<exists>nonce payload. length nonce = NonceSize \<and> b64_decode raw = Some (nonce @ gcm_seal secret nonce payload) \<and>
      Option.bind (parse_json payload) marker_of_json = Some t)"
proof -
  obtain sealed payload where s: "length secret = 32" "b64_decode raw = Some sealed" "NonceSize \<le> length sealed"
    "gcm_open secret (take NonceSize sealed) (drop NonceSize sealed) = Some payload"
    "Option.bind (parse_json payload) marker_of_json = Some t" "mk_flight t \<noteq> ''''" "mk_server t \<noteq> ''''"
    using assms by (auto simp: Tokens_Decode_def split: if_splits option.splits)
  then have "drop NonceSize sealed = gcm_seal secret (take NonceSize sealed) payload"
    by (simp add: gcm_open_iff)
  then have "sealed = take NonceSize sealed @ gcm_seal secret (take NonceSize sealed) payload"
    by (metis append_take_drop_id)
  with s show ?thesis
    by (intro conjI exI [of _ "take NonceSize sealed"] exI [of _ payload]) simp_all
qed

section \<open>Properties\<close>

text \<open>
  a marker token decodes to the flight and server it was made for, for every 32 byte secret,
  every nonce and all ids of valid UTF-8, whatever quotes, control characters or HTML they contain.
\<close>

theorem Tokens_roundtrip:
  assumes "length secret = 32" and "length nonce = NonceSize" and "is_utf8 flight" and "is_utf8 srv"
    and "flight \<noteq> ''''" and "srv \<noteq> ''''"
  shows "\<exists>raw. Tokens_Encode secret (Some nonce) \<lparr>mk_flight = flight, mk_server = srv\<rparr> = Inr raw \<and>
    Tokens_Decode secret raw = Inr \<lparr>mk_flight = flight, mk_server = srv\<rparr>"
proof -
  let ?t = "\<lparr>mk_flight = flight, mk_server = srv\<rparr>"
  have ok: "marker_ok ?t" using assms by (simp add: marker_ok_def)
  from Encode_Some [OF ok assms(1)] Decode_Encode [OF ok assms(2)] show ?thesis by blast
qed

text \<open>
  forged marker tokens are refused: \<open>Decode\<close> returns a token only for the base64 of a nonce and
  an AES-GCM box sealed with the server's secret around a JSON object with both ids non-empty, and
  every other input gives the one error \<open>ErrInvalidFlightToken\<close>.
\<close>

theorem Tokens_Decode_only_sealed:
  "(case Tokens_Decode secret raw of
      Inl err \<Rightarrow> err = ErrInvalidFlightToken
    | Inr t \<Rightarrow> mk_flight t \<noteq> '''' \<and> mk_server t \<noteq> '''' \<and>
        (\<exists>nonce payload. length nonce = NonceSize \<and>
          b64_decode raw = Some (nonce @ gcm_seal secret nonce payload) \<and>
          Option.bind (parse_json payload) marker_of_json = Some t))"
proof (cases "Tokens_Decode secret raw")
  case (Inl err)
  then show ?thesis by (auto simp: Tokens_Decode_def split: if_splits option.splits)
next
  case (Inr t)
  with Decode_sealed [OF Inr] show ?thesis by simp
qed

theorem Tokens_roundtrip_witness:
  "\<exists>raw. Tokens_Encode (replicate 32 CHR ''k'') (Some (replicate 12 CHR ''n''))
      \<lparr>mk_flight = [CHR 0x22, CHR ''<''], mk_server = ''casual_server''\<rparr> = Inr raw \<and>
    Tokens_Decode (replicate 32 CHR ''k'') raw = Inr \<lparr>mk_flight = [CHR 0x22, CHR ''<''], mk_server = ''casual_server''\<rparr>"
  by (rule Tokens_roundtrip) (simp_all add: NonceSize_def)

end
