(* ===== verification/CachedResponse.thy ===== *)
theory CachedResponse
  imports Http
begin

text \<open>
  \<open>internal/transport/http/api/cachedresponse\<close>: the body of the endpoints that serve cached data,
  with its JSON form. The element type is a parameter with its encoder.
\<close>

record api_filter =
  fl_name :: string
  fl_type :: string
  fl_desc :: string
  fl_current :: json
  fl_default :: json
  fl_options :: "string slice"

record api_meta =
  mt_cached :: time
  mt_refresh_mins :: gint

record api_pagination =
  pg_total :: gint
  pg_length :: gint
  pg_number :: gint

text \<open>The elements of \<open>History\<close> have any type; they are given already encoded.\<close>

record 'a cached_data =
  cd_filters :: "api_filter slice"
  cd_result :: "'a slice"
  cd_history :: "json option slice option"
  cd_meta :: api_meta
  cd_pagination :: "api_pagination option"

definition filter_json :: "api_filter \<Rightarrow> json option" where
  "filter_json f =
     jobj [enc_str ''name'' (fl_name f), enc_str ''type'' (fl_type f), enc_str ''desc'' (fl_desc f),
       fld ''current'' (fl_current f), fld ''default'' (fl_default f),
       fld_omit ''options'' (elems (fl_options f) = []) (enc_slice (\<lambda>s. Some (JStr s)) (fl_options f))]"

definition meta_json :: "api_meta \<Rightarrow> json option" where
  "meta_json m =
     jobj [enc_time ''lastCached'' (mt_cached m), enc_int ''refreshIntervalMins'' (mt_refresh_mins m)]"

definition pagination_json :: "api_pagination \<Rightarrow> json option" where
  "pagination_json p =
     jobj [enc_int ''totalLength'' (pg_total p), enc_int ''pageLength'' (pg_length p),
       enc_int ''pageNumber'' (pg_number p)]"

definition data_json :: "('a \<Rightarrow> json option) \<Rightarrow> 'a cached_data \<Rightarrow> json option" where
  "data_json enc d =
     jobj [fld_opt ''availableFilters'' (enc_slice filter_json (cd_filters d)),
       fld_opt ''result'' (enc_slice enc (cd_result d)),
       (case cd_history d of None \<Rightarrow> Some [] | Some h \<Rightarrow> fld_opt ''history'' (enc_slice (\<lambda>x. x) h)),
       fld_opt ''meta'' (meta_json (cd_meta d)),
       (case cd_pagination d of None \<Rightarrow> Some [] | Some p \<Rightarrow> fld_opt ''pagination'' (pagination_json p))]"

definition response_json :: "('a \<Rightarrow> json option) \<Rightarrow> 'a cached_data \<Rightarrow> json option" where
  "response_json enc d = jobj [fld_opt ''data'' (data_json enc d)]"

end
