(* ===== verification/SessionsApi.thy ===== *)
theory SessionsApi
  imports CachedResponse SessionsJob
begin

text \<open>
  \<open>internal/transport/http/api/gamesessions\<close>: the endpoint that serves the snapshot the sessions job
  keeps. Logging is left out.
\<close>

definition sessions_RefreshInterval :: duration where
  "sessions_RefreshInterval = 5 * 60 * sec_ns"

definition sessions_unavailable :: "nat \<Rightarrow> writer \<Rightarrow> writer" where
  "sessions_unavailable status w =
     WriteError status ''ACTIVE_SESSIONS_CACHE_UNAVAILABLE'' ''active sessions cache is unavailable'' w"

definition sessions_body :: "bool \<Rightarrow> session_snapshot \<Rightarrow> session cached_data" where
  "sessions_body includeHistory snapshot =
     (let result = (case snap_result snapshot of None \<Rightarrow> Some [] | Some xs \<Rightarrow> Some xs);
          historyResult =
            (if includeHistory
             then map (\<lambda>h. snapshot_json (drop_history h)) (elems (snap_history snapshot))
             else []) in
      \<lparr>cd_filters =
         Some [\<lparr>fl_name = ''history'', fl_type = ''boolean'', fl_desc = ''Show last 50 records'',
           fl_current = JBool includeHistory, fl_default = JBool False, fl_options = None\<rparr>],
       cd_result = result, cd_history = Some (Some historyResult),
       cd_meta = \<lparr>mt_cached = snap_cached snapshot,
         mt_refresh_mins = word_of_int (sessions_RefreshInterval div (60 * sec_ns))\<rparr>,
       cd_pagination = None\<rparr>)"

definition GetActiveSessions :: "'r redis \<Rightarrow> bool option \<Rightarrow> 'r store handler" where
  "GetActiveSessions R history r w st =
     (case GetJSON R snapshot_of_json KeyActiveSessions st of
        (Inl err, st) \<Rightarrow>
          (let status = (if errors_is err ErrMiss then 503 else 500) in
           Served (sessions_unavailable status w) st)
      | (Inr snapshot, st) \<Rightarrow>
          if is_zero_time (snap_cached snapshot) then Served (sessions_unavailable 500 w) st
          else
            (let includeHistory = (history = Some True) in
             Served (WriteJSON 200 (response_json session_json (sessions_body includeHistory snapshot)) w) st))"

section \<open>What the endpoint serves\<close>

context redis_service
begin

lemma GetActiveSessions_cases:
  assumes "w_status w = None"
  shows "\<exists>w' st'. GetActiveSessions R history r w st = Served w' st' \<and> contents st' = contents st \<and>
    w_status w' \<in> {Some 200, Some 500, Some 503} \<and>
    (w_status w' = Some 503 \<longrightarrow> w' = sessions_unavailable 503 w) \<and>
    (w_status w' = Some 200 \<longrightarrow>
      (\<exists>snap. stored view snapshot_of_json KeyActiveSessions st = Some snap \<and> \<not> is_zero_time (snap_cached snap) \<and>
        w' = WriteJSON 200 (response_json session_json (sessions_body (history = Some True) snap)) w))"
proof -
  obtain res st' where g: "GetJSON R snapshot_of_json KeyActiveSessions st = (res, st')" by fastforce
  note frame = GetJSON_frame [OF g]
  show ?thesis
  proof (cases res)
    case (Inl err)
    with g frame assms show ?thesis by (simp add: GetActiveSessions_def sessions_unavailable_def)
  next
    case (Inr snap)
    with g have "stored view snapshot_of_json KeyActiveSessions st = Some snap" by (simp add: GetJSON_stored)
    with g frame Inr assms show ?thesis
      by (cases "is_zero_time (snap_cached snap)") (simp_all add: GetActiveSessions_def sessions_unavailable_def)
  qed
qed

end

context live_redis
begin

lemma GetActiveSessions_live:
  assumes up: "up (server st)" and s: "stored view snapshot_of_json KeyActiveSessions st = Some snap"
    and "\<not> is_zero_time (snap_cached snap)"
  shows "\<exists>st'. GetActiveSessions R history r w st =
    Served (WriteJSON 200 (response_json session_json (sessions_body (history = Some True) snap)) w) st'"
proof -
  obtain res st' where g: "GetJSON R snapshot_of_json KeyActiveSessions st = (res, st')" by fastforce
  with GetJSON_live(2) [OF up g s] assms(3) show ?thesis by (simp add: GetActiveSessions_def)
qed

end

text \<open>
  every outcome of the sessions endpoint: 200 with the stored snapshot, 503 when there is none,
  500 when it cannot be read or has no time; it never writes the cache and never panics.
\<close>

theorem GetActiveSessions_outcomes:
  assumes "redis_service R view" and "w_status w = None"
  shows "\<exists>w' st'. GetActiveSessions R history r w st = Served w' st' \<and> view (server st') = view (server st) \<and>
    w_status w' \<in> {Some 200, Some 500, Some 503} \<and>
    (w_status w' = Some 200 \<longrightarrow>
      (\<exists>snap. stored view snapshot_of_json KeyActiveSessions st = Some snap \<and> \<not> is_zero_time (snap_cached snap) \<and>
        w' = WriteJSON 200 (response_json session_json (sessions_body (history = Some True) snap)) w))"
  using redis_service.GetActiveSessions_cases [OF assms, of history r st] by blast

text \<open>
  C26: from the sessions job to its endpoint: after a successful run, the endpoint answers 200 with
  one session per identity, the last that upstream reported, and with the history window exactly
  when the caller asks for it.
\<close>

theorem sessions_job_feeds_endpoint:
  assumes "live_redis R view up" and "up (server st1)" and "\<not> is_zero_time now"
    and "sessions_Run R uni (Inr upstream) now st = (Inr u, st1)"
  shows "\<exists>body st2. GetActiveSessions R history r w st1 =
      Served (WriteJSON 200 (response_json session_json body) w) st2 \<and>
    cd_result body = Some (last_per_key session_identity (map (stamp_session uni now) upstream)) \<and>
    mt_cached (cd_meta body) = now \<and>
    cd_history body = Some (Some (if history = Some True
      then map (\<lambda>h. snapshot_json (drop_history h))
        (elems (next_snapshot_history (fst (GetJSON R snapshot_of_json KeyActiveSessions st))))
      else []))"
proof -
  let ?snap = "run_snapshot uni upstream now (fst (GetJSON R snapshot_of_json KeyActiveSessions st))"
  have s: "stored view snapshot_of_json KeyActiveSessions st1 = Some ?snap"
    by (rule redis_service.sessions_Run_snapshot(1) [OF live_redis.axioms(1) [OF assms(1)] assms(4)])
  have t: "\<not> is_zero_time (snap_cached ?snap)" using assms(3) by (simp add: run_snapshot_def)
  from live_redis.GetActiveSessions_live [OF assms(1,2) s t]
  obtain st2 where "GetActiveSessions R history r w st1 =
      Served (WriteJSON 200 (response_json session_json (sessions_body (history = Some True) ?snap)) w) st2"
    by blast
  then show ?thesis
    by (intro exI [of _ "sessions_body (history = Some True) ?snap"] exI [of _ st2])
       (simp add: sessions_body_def run_snapshot_def Let_def prepareCurrentSessions_place_all place_all_last_per_key)
qed

definition ex_list_request :: request where
  "ex_list_request =
     \<lparr>rq_method = ''GET'', rq_path = ''/api/v1/game/sessions/active'', rq_query = [], rq_headers = [], rq_cookies = [],
      rq_body = NoBody, rq_tls = False, rq_remote = '''', rq_claims = None\<rparr>"

theorem GetActiveSessions_outcomes_witness:
  "\<exists>w' st'. GetActiveSessions mem_redis None ex_list_request fresh_writer (store_of mem_empty) = Served w' st' \<and>
     w_status w' \<in> {Some 500, Some 503}"
  using GetActiveSessions_outcomes [OF mem.redis_service_axioms, of fresh_writer None ex_list_request "store_of mem_empty"]
  by (auto simp: stored_empty)

theorem sessions_job_feeds_endpoint_witness:
  "\<exists>body st2. GetActiveSessions mem_redis None ex_list_request fresh_writer (snd ex_run) =
      Served (WriteJSON 200 (response_json session_json body) fresh_writer) st2 \<and> cd_history body = Some (Some [])"
proof -
  have run: "sessions_Run mem_redis id (Inr [ex_session]) 0 (store_of mem_empty) = (Inr (), snd ex_run)"
    using ex_run_ok by (simp add: ex_run_def)
  have up: "mem_up (server (snd ex_run))" by (rule mem_live.sessions_Run_live(2) [OF _ _ _ run]) simp_all
  have "\<not> is_zero_time 0" by (simp add: is_zero_time_def zero_time_value)
  from sessions_job_feeds_endpoint [OF mem_live.live_redis_axioms up this run, of None ex_list_request fresh_writer]
  show ?thesis by auto
qed

end
