(* ===== verification/FlightsApi.thy ===== *)
theory FlightsApi
  imports CachedResponse Flights FlightTokens
begin

text \<open>
  \<open>internal/transport/http/api/gameflights\<close>: the three endpoints over the cached snapshot of a
  server's flights: the paged list, the trimmed markers for the map, and the flight behind a marker.
  A helper that has already written an error response returns it as \<open>Inl\<close>. Logging is left out.
\<close>

record flights_query =
  q_server :: string
  q_pilot_states :: "string slice"
  q_user_name :: string
  q_call_sign :: string
  q_page_number :: gint
  q_page_length :: gint

record trimmed_flight =
  tf_flight :: string
  tf_callsign :: string
  tf_latitude :: float64
  tf_longitude :: float64
  tf_heading :: float64

definition trimmed_json :: "trimmed_flight \<Rightarrow> json option" where
  "trimmed_json t =
     jobj [enc_str ''flightId'' (tf_flight t), enc_str ''callsign'' (tf_callsign t),
       enc_float ''latitude'' (tf_latitude t), enc_float ''longitude'' (tf_longitude t),
       enc_float ''heading'' (tf_heading t)]"

record loaded_flights =
  ld_result :: "flight list"
  ld_selected :: "string list"
  ld_filters :: "api_filter list"
  ld_meta :: api_meta

definition flights_RefreshInterval :: duration where
  "flights_RefreshInterval = 60 * sec_ns"

definition flights_meta :: "flights_snapshot \<Rightarrow> api_meta" where
  "flights_meta snapshot =
     \<lparr>mt_cached = fs_cached snapshot,
      mt_refresh_mins = word_of_int (flights_RefreshInterval div (60 * sec_ns))\<rparr>"

definition bad_query :: "string \<Rightarrow> writer \<Rightarrow> writer" where
  "bad_query msg w = WriteError 400 ''INVALID_QUERY_FILTER'' msg w"

definition flights_unavailable :: "nat \<Rightarrow> writer \<Rightarrow> writer" where
  "flights_unavailable status w =
     WriteError status ''ACTIVE_FLIGHTS_CACHE_UNAVAILABLE'' ''active flights cache is unavailable'' w"

definition knownServer :: "'r redis \<Rightarrow> string \<Rightarrow> writer \<Rightarrow> 'r store \<Rightarrow> (writer + unit) \<times> 'r store" where
  "knownServer R serverID w st =
     (case GetJSON R names_of_json KeySessionNames st of
        (Inl err, st) \<Rightarrow>
          if errors_is err ErrMiss then (Inr (), st) else (Inl (flights_unavailable 500 w), st)
      | (Inr names, st) \<Rightarrow>
          if serverID \<in> set (elems names) then (Inr (), st)
          else (Inl (bad_query ''unknown serverId'' w), st))"

definition readSnapshot ::
  "'r redis \<Rightarrow> string \<Rightarrow> writer \<Rightarrow> 'r store \<Rightarrow> (writer + flights_snapshot) \<times> 'r store" where
  "readSnapshot R serverID w st =
     (case GetJSON R flights_snapshot_of_json (KeyActiveFlights serverID) st of
        (Inl err, st) \<Rightarrow>
          (let status = (if errors_is err ErrMiss then 503 else 500) in
           (Inl (flights_unavailable status w), st))
      | (Inr snapshot, st) \<Rightarrow>
          if is_zero_time (fs_cached snapshot) then (Inl (flights_unavailable 500 w), st)
          else (Inr (snapshot\<lparr>fs_result := Some (elems (fs_result snapshot))\<rparr>), st))"

definition flightFilters :: "string list \<Rightarrow> string \<Rightarrow> string \<Rightarrow> api_filter list" where
  "flightFilters selected userName callSign =
     [\<lparr>fl_name = ''pilotState'', fl_type = ''multi'',
        fl_desc = ''Restrict results to one or more pilot states'',
        fl_current = JArr (map JStr selected), fl_default = JArr [], fl_options = Some PilotStateNames\<rparr>,
      \<lparr>fl_name = ''userName'', fl_type = ''string'',
        fl_desc = ''Restrict results to flights whose username contains this value'',
        fl_current = JStr (utf8_fix userName), fl_default = JStr '''', fl_options = None\<rparr>,
      \<lparr>fl_name = ''callSign'', fl_type = ''string'',
        fl_desc = ''Restrict results to flights whose callsign contains this value'',
        fl_current = JStr (utf8_fix callSign), fl_default = JStr '''', fl_options = None\<rparr>]"

text \<open>The loop over the requested pilot states, with the set \<open>seen\<close> and the slice \<open>selected\<close>;
  \<open>None\<close> when a name does not parse.\<close>

fun select_states :: "string list \<Rightarrow> string set \<Rightarrow> string list \<Rightarrow> (string set \<times> string list) option" where
  "select_states [] seen selected = Some (seen, selected)"
| "select_states (name # names) seen selected =
     (case ParsePilotStateName name of
        (parsed, ok) \<Rightarrow>
          if \<not> ok then None
          else if parsed \<in> seen then select_states names seen selected
          else select_states names (insert parsed seen) (selected @ [parsed]))"

definition keep_flight ::
  "(string \<Rightarrow> string) \<Rightarrow> string list \<Rightarrow> string set \<Rightarrow> string \<Rightarrow> string \<Rightarrow> flight \<Rightarrow> bool" where
  "keep_flight uni selected seen userName callSign f =
     (if selected \<noteq> [] \<and> n_pilot_state (f_normalized (fdata f)) \<notin> seen then False
      else if \<not> ContainsFold uni (Username f) userName then False
      else if \<not> ContainsFold uni (f_callsign (fdata f)) callSign then False
      else True)"

definition filter_flights ::
  "(string \<Rightarrow> string) \<Rightarrow> string list \<Rightarrow> string set \<Rightarrow> string \<Rightarrow> string \<Rightarrow> flight list \<Rightarrow> flight list" where
  "filter_flights uni selected seen userName callSign result =
     (if selected \<noteq> [] \<or> userName \<noteq> '''' \<or> callSign \<noteq> ''''
      then filter (keep_flight uni selected seen userName callSign) result
      else result)"

definition loadFiltered ::
  "(string \<Rightarrow> string) \<Rightarrow> 'r redis \<Rightarrow> flights_query \<Rightarrow> writer \<Rightarrow> 'r store \<Rightarrow>
     (writer + loaded_flights) \<times> 'r store"
where
  "loadFiltered uni R query w st =
     (if q_server query = '''' then (Inl (bad_query ''serverId is required'' w), st)
      else
        (case select_states (elems (q_pilot_states query)) {} [] of
           None \<Rightarrow> (Inl (bad_query ''invalid pilotState value'' w), st)
         | Some (seen, selected) \<Rightarrow>
             (let userName = trim_space (q_user_name query); callSign = trim_space (q_call_sign query) in
              case knownServer R (q_server query) w st of
                (Inl w, st) \<Rightarrow> (Inl w, st)
              | (Inr _, st) \<Rightarrow>
                  (case readSnapshot R (q_server query) w st of
                     (Inl w, st) \<Rightarrow> (Inl w, st)
                   | (Inr snapshot, st) \<Rightarrow>
                       (let result = filter_flights uni selected seen userName callSign (elems (fs_result snapshot)) in
                        (Inr \<lparr>ld_result = result, ld_selected = selected,
                           ld_filters = flightFilters selected userName callSign,
                           ld_meta = flights_meta snapshot\<rparr>, st))))))"

definition drop_flight_history :: "flight \<Rightarrow> flight" where
  "drop_flight_history f = Flight (fdata f) None"

definition flights_body :: "flights_query \<Rightarrow> loaded_flights \<Rightarrow> flight list \<Rightarrow> flight cached_data" where
  "flights_body query loaded paged =
     \<lparr>cd_filters = Some (ld_filters loaded), cd_result = Some (map drop_flight_history paged),
      cd_history = None, cd_meta = ld_meta loaded,
      cd_pagination = Some \<lparr>pg_total = of_nat (length (ld_result loaded)),
        pg_length = q_page_length query, pg_number = q_page_number query\<rparr>\<rparr>"

definition GetActiveFlights ::
  "(string \<Rightarrow> string) \<Rightarrow> 'r redis \<Rightarrow> flights_query \<Rightarrow> 'r store handler"
where
  "GetActiveFlights uni R query r w st =
     (if sint (q_page_number query) < 1 then Served (bad_query ''pageNumber must be at least 1'' w) st
      else if sint (q_page_length query) < 1 then Served (bad_query ''pageLength must be at least 1'' w) st
      else
        (case loadFiltered uni R query w st of
           (Inl w, st) \<Rightarrow> Served w st
         | (Inr loaded, st) \<Rightarrow>
             (case Paginate (Some (ld_result loaded)) (q_page_number query) (q_page_length query) of
                None \<Rightarrow> Panicked w st
              | Some paged \<Rightarrow>
                  Served (WriteJSON 200 (response_json flight_json (flights_body query loaded paged)) w) st)))"

text \<open>The loop that encrypts a marker per flight; \<open>nonces\<close> are the reads of the random source.\<close>

fun trim_flights ::
  "string \<Rightarrow> string \<Rightarrow> (nat \<Rightarrow> string option) \<Rightarrow> nat \<Rightarrow> flight list \<Rightarrow> go_error + trimmed_flight list"
where
  "trim_flights secret serverID nonces n [] = Inr []"
| "trim_flights secret serverID nonces n (f # fs) =
     (case Tokens_Encode secret (nonces n) \<lparr>mk_flight = flight_id f, mk_server = serverID\<rparr> of
        Inl err \<Rightarrow> Inl err
      | Inr token \<Rightarrow>
          (case trim_flights secret serverID nonces (Suc n) fs of
             Inl err \<Rightarrow> Inl err
           | Inr rest \<Rightarrow>
               Inr (\<lparr>tf_flight = token, tf_callsign = f_callsign (fdata f), tf_latitude = f_latitude (fdata f),
                 tf_longitude = f_longitude (fdata f), tf_heading = f_heading (fdata f)\<rparr> # rest)))"

definition trimmed_body :: "loaded_flights \<Rightarrow> trimmed_flight list \<Rightarrow> json option" where
  "trimmed_body loaded trimmed =
     jobj [fld_opt ''data''
       (jobj [fld_opt ''availableFilters'' (enc_list filter_json (ld_filters loaded)),
          enc_int ''count'' (of_nat (length trimmed)), fld_opt ''meta'' (meta_json (ld_meta loaded)),
          fld_opt ''result'' (enc_list trimmed_json trimmed)])]"

definition GetTrimmedActiveFlights ::
  "(string \<Rightarrow> string) \<Rightarrow> 'r redis \<Rightarrow> string \<Rightarrow> (nat \<Rightarrow> string option) \<Rightarrow> flights_query \<Rightarrow> 'r store handler"
where
  "GetTrimmedActiveFlights uni R secret nonces query r w st =
     (case loadFiltered uni R query w st of
        (Inl w, st) \<Rightarrow> Served w st
      | (Inr loaded, st) \<Rightarrow>
          (case trim_flights secret (q_server query) nonces 0 (ld_result loaded) of
             Inl err \<Rightarrow>
               Served (WriteError 500 ''FLIGHT_TOKEN_FAILED'' ''failed to encode flight markers'' w) st
           | Inr trimmed \<Rightarrow> Served (WriteJSON 200 (trimmed_body loaded trimmed) w) st))"

definition flight_body :: "flights_snapshot \<Rightarrow> flight \<Rightarrow> json option" where
  "flight_body snapshot f =
     jobj [fld_opt ''data''
       (jobj [fld_opt ''meta'' (meta_json (flights_meta snapshot)),
          fld_opt ''result'' (flight_json (drop_flight_history f))])]"

definition GetActiveFlight :: "'r redis \<Rightarrow> string \<Rightarrow> string \<Rightarrow> 'r store handler" where
  "GetActiveFlight R secret flightToken r w st =
     (case Tokens_Decode secret (trim_space flightToken) of
        Inl err \<Rightarrow> Served (WriteError 400 ''INVALID_FLIGHT_ID'' ''invalid flight id'' w) st
      | Inr token \<Rightarrow>
          (case readSnapshot R (mk_server token) w st of
             (Inl w, st) \<Rightarrow> Served w st
           | (Inr snapshot, st) \<Rightarrow>
               (case find (\<lambda>f. flight_id f = mk_flight token) (elems (fs_result snapshot)) of
                  Some f \<Rightarrow> Served (WriteJSON 200 (flight_body snapshot f) w) st
                | None \<Rightarrow>
                    Served (WriteError 404 ''FLIGHT_NOT_FOUND'' ''flight is not in the current snapshot'' w) st)))"

end
