(* ===== verification/FlightsApiSpec.thy ===== *)
theory FlightsApiSpec
  imports FlightsApi FlightsJob Gates
begin

text \<open>
  What the flight endpoints serve: the flights of the cached snapshot that match the query, one page
  of them; markers that lead back to their flight; every other outcome with its status. No read
  endpoint changes the cache.
\<close>

section \<open>The query\<close>

definition pilot_state_of :: "flight \<Rightarrow> string" where
  "pilot_state_of f = n_pilot_state (f_normalized (fdata f))"

definition flight_matches :: "(string \<Rightarrow> string) \<Rightarrow> flights_query \<Rightarrow> flight \<Rightarrow> bool" where
  "flight_matches uni query f \<longleftrightarrow>
     (elems (q_pilot_states query) = [] \<or> pilot_state_of f \<in> set (elems (q_pilot_states query))) \<and>
     ContainsFold uni (Username f) (q_user_name query) \<and>
     ContainsFold uni (f_callsign (fdata f)) (q_call_sign query)"

definition matching_flights :: "(string \<Rightarrow> string) \<Rightarrow> flights_query \<Rightarrow> flights_snapshot \<Rightarrow> flight list" where
  "matching_flights uni query snap = filter (flight_matches uni query) (elems (fs_result snap))"

definition query_ok :: "flights_query \<Rightarrow> bool" where
  "query_ok query \<longleftrightarrow> q_server query \<noteq> '''' \<and> set (elems (q_pilot_states query)) \<subseteq> set PilotStateNames"

lemma select_states_step:
  "set names \<subseteq> set PilotStateNames \<Longrightarrow>
     select_states names (set ks) (first_keys ks) = Some (set (ks @ names), first_keys (ks @ names))"
proof (induction names arbitrary: ks)
  case (Cons n names)
  have "ParsePilotStateName n = (n, True)" using ParsePilotStateName_iff [of n] Cons.prems by auto
  moreover have "insert n (set ks) = set (ks @ [n])" by simp
  moreover have "n \<in> set ks \<Longrightarrow> set (ks @ [n]) = set ks" by auto
  ultimately show ?case using Cons.IH [of "ks @ [n]"] Cons.prems by (auto simp: insert_absorb)
qed simp

lemma select_states_ok:
  "set names \<subseteq> set PilotStateNames \<Longrightarrow> select_states names {} [] = Some (set names, first_keys names)"
  using select_states_step [of names "[]"] by simp

lemma select_states_bad:
  "\<not> set names \<subseteq> set PilotStateNames \<Longrightarrow> select_states names seen sel = None"
proof (induction names arbitrary: seen sel)
  case (Cons n names)
  show ?case
  proof (cases "n \<in> set PilotStateNames")
    case True
    with Cons ParsePilotStateName_iff [of n] show ?thesis by auto
  next
    case False
    with ParsePilotStateName_iff [of n] show ?thesis by auto
  qed
qed simp

lemma first_keys_Nil_iff [simp]: "first_keys ks = [] \<longleftrightarrow> ks = []"
  by (metis set_empty set_first_keys)

lemma keep_flight_matches:
  "keep_flight uni (first_keys states) (set states) (trim_space user) (trim_space call) f \<longleftrightarrow>
     (states = [] \<or> pilot_state_of f \<in> set states) \<and> ContainsFold uni (Username f) user \<and>
     ContainsFold uni (f_callsign (fdata f)) call"
  by (simp add: keep_flight_def pilot_state_of_def)

lemma filter_flights_matches:
  "filter_flights uni (first_keys (elems (q_pilot_states query))) (set (elems (q_pilot_states query)))
     (trim_space (q_user_name query)) (trim_space (q_call_sign query)) fs = filter (flight_matches uni query) fs"
  by (auto simp: filter_flights_def keep_flight_matches flight_matches_def ContainsFold_blank
      intro!: filter_cong [symmetric] filter_True [symmetric])

section \<open>Loading\<close>

definition loaded_of :: "(string \<Rightarrow> string) \<Rightarrow> flights_query \<Rightarrow> flights_snapshot \<Rightarrow> loaded_flights" where
  "loaded_of uni query snap =
     \<lparr>ld_result = matching_flights uni query snap, ld_selected = first_keys (elems (q_pilot_states query)),
      ld_filters = flightFilters (first_keys (elems (q_pilot_states query)))
        (trim_space (q_user_name query)) (trim_space (q_call_sign query)),
      ld_meta = flights_meta snap\<rparr>"

lemma loadFiltered_unfold:
  assumes "query_ok query"
  shows "loadFiltered uni R query w st =
    (case knownServer R (q_server query) w st of
       (Inl w, st) \<Rightarrow> (Inl w, st)
     | (Inr _, st) \<Rightarrow>
         (case readSnapshot R (q_server query) w st of
            (Inl w, st) \<Rightarrow> (Inl w, st)
          | (Inr snapshot, st) \<Rightarrow> (Inr (loaded_of uni query snapshot), st)))"
  using assms
  by (simp add: query_ok_def loadFiltered_def select_states_ok filter_flights_matches loaded_of_def
      matching_flights_def Let_def split: prod.split sum.split)

lemma loadFiltered_bad:
  "\<not> query_ok query \<Longrightarrow> \<exists>msg. loadFiltered uni R query w st = (Inl (bad_query msg w), st)"
  by (cases "q_server query = ''''") (auto simp: query_ok_def loadFiltered_def select_states_bad subset_eq)

context redis_service
begin

lemma knownServer_frame: "knownServer R s w st = (res, st') \<Longrightarrow> contents st' = contents st"
  by (auto simp: knownServer_def split: prod.splits sum.splits if_splits dest: GetJSON_frame)

lemma knownServer_reply:
  "knownServer R s w st = (Inl w', st') \<Longrightarrow>
     \<exists>status code msg. w' = WriteError status code msg w \<and> status \<in> {400, 500}"
  by (auto simp: knownServer_def bad_query_def flights_unavailable_def split: prod.splits sum.splits if_splits)

lemma readSnapshot_frame: "readSnapshot R s w st = (res, st') \<Longrightarrow> contents st' = contents st"
  by (auto simp: readSnapshot_def Let_def split: prod.splits sum.splits if_splits dest: GetJSON_frame)

lemma readSnapshot_reply:
  "readSnapshot R s w st = (Inl w', st') \<Longrightarrow>
     \<exists>status code msg. w' = WriteError status code msg w \<and> status \<in> {500, 503}"
  by (auto simp: readSnapshot_def flights_unavailable_def Let_def split: prod.splits sum.splits if_splits)

lemma readSnapshot_stored:
  "readSnapshot R s w st = (Inr snap', st') \<Longrightarrow>
     \<exists>snap. stored view flights_snapshot_of_json (KeyActiveFlights s) st = Some snap \<and>
       \<not> is_zero_time (fs_cached snap) \<and> snap' = snap\<lparr>fs_result := Some (elems (fs_result snap))\<rparr>"
  by (auto simp: readSnapshot_def split: prod.splits sum.splits if_splits dest: GetJSON_stored)

lemma loadFiltered_frame:
  assumes "loadFiltered uni R query w st = (res, st')"
  shows "contents st' = contents st"
proof (cases "query_ok query")
  case True
  with assms show ?thesis
    by (auto simp: loadFiltered_unfold split: prod.splits sum.splits
        dest!: knownServer_frame readSnapshot_frame)
next
  case False
  with assms loadFiltered_bad [OF False, of uni R w st] show ?thesis by auto
qed

lemma loadFiltered_reply:
  assumes "loadFiltered uni R query w st = (Inl w', st')"
  shows "\<exists>status code msg. w' = WriteError status code msg w \<and> status \<in> {400, 500, 503} \<and>
    (\<not> query_ok query \<longrightarrow> status = 400)"
proof (cases "query_ok query")
  case True
  with assms show ?thesis
    by (auto simp: loadFiltered_unfold split: prod.splits sum.splits
        dest!: knownServer_reply readSnapshot_reply)
next
  case False
  with assms loadFiltered_bad [OF False, of uni R w st] show ?thesis by (auto simp: bad_query_def)
qed

lemma loadFiltered_loaded:
  assumes "loadFiltered uni R query w st = (Inr loaded, st')"
  shows "query_ok query \<and>
    (\<exists>snap. stored view flights_snapshot_of_json (KeyActiveFlights (q_server query)) st = Some snap \<and>
      \<not> is_zero_time (fs_cached snap) \<and> loaded = loaded_of uni query snap)"
proof (cases "query_ok query")
  case True
  obtain known st1 where k: "knownServer R (q_server query) w st = (known, st1)" by fastforce
  obtain snap' where "readSnapshot R (q_server query) w st1 = (Inr snap', st')" "loaded = loaded_of uni query snap'"
    using assms True k by (auto simp: loadFiltered_unfold split: prod.splits sum.splits)
  with readSnapshot_stored [of "q_server query" w st1 snap' st'] knownServer_frame [OF k] True
  show ?thesis by (auto simp: stored_def loaded_of_def matching_flights_def flights_meta_def)
next
  case False
  with assms loadFiltered_bad [OF False, of uni R w st] show ?thesis by auto
qed

end

text \<open>The servers a query may name: those of the list of names, or any while there is no list.\<close>

definition server_known ::
  "('r \<Rightarrow> string \<Rightarrow> payload option) \<Rightarrow> string \<Rightarrow> 'r store \<Rightarrow> bool"
where
  "server_known view s st \<longleftrightarrow> view (server st) KeySessionNames = None \<or>
     (\<exists>names. stored view names_of_json KeySessionNames st = Some names \<and> s \<in> set (elems names))"

context live_redis
begin

lemma readSnapshot_live:
  assumes up: "up (server st)" and s: "stored view flights_snapshot_of_json (KeyActiveFlights s) st = Some snap"
    and "\<not> is_zero_time (fs_cached snap)"
  obtains st' where "readSnapshot R s w st = (Inr (snap\<lparr>fs_result := Some (elems (fs_result snap))\<rparr>), st')"
    "up (server st')"
proof -
  obtain res st' where g: "GetJSON R flights_snapshot_of_json (KeyActiveFlights s) st = (res, st')" by fastforce
  note live = GetJSON_live [OF up g]
  with s g assms(3) show thesis by (intro that [of st']) (simp_all add: readSnapshot_def)
qed

lemma knownServer_live:
  assumes up: "up (server st)" and "server_known view s st"
  obtains st' where "knownServer R s w st = (Inr (), st')" "up (server st')"
proof -
  obtain res st' where g: "GetJSON R names_of_json KeySessionNames st = (res, st')" by fastforce
  note live = GetJSON_live [OF up g] GetJSON_live_miss [OF up g]
  with assms(2) g show thesis by (intro that [of st']) (auto simp: knownServer_def server_known_def)
qed

lemma loadFiltered_live:
  assumes up: "up (server st)" and q: "query_ok query" and known: "server_known view (q_server query) st"
    and s: "stored view flights_snapshot_of_json (KeyActiveFlights (q_server query)) st = Some snap"
    and t: "\<not> is_zero_time (fs_cached snap)"
  obtains st' where "loadFiltered uni R query w st = (Inr (loaded_of uni query snap), st')" "up (server st')"
proof -
  obtain st1 where k: "knownServer R (q_server query) w st = (Inr (), st1)" "up (server st1)"
    by (rule knownServer_live [OF up known])
  have "stored view flights_snapshot_of_json (KeyActiveFlights (q_server query)) st1 = Some snap"
    using s knownServer_frame [OF k(1)] by (simp add: stored_def)
  from readSnapshot_live [OF k(2) this t]
  obtain st2 where "readSnapshot R (q_server query) w st1 = (Inr (snap\<lparr>fs_result := Some (elems (fs_result snap))\<rparr>), st2)"
    "up (server st2)" by blast
  with k(1) show thesis
    by (intro that [of st2])
       (simp_all add: loadFiltered_unfold [OF q] loaded_of_def matching_flights_def flights_meta_def)
qed

end

section \<open>Pages\<close>

lemma Paginate_None:
  assumes "Paginate (Some xs) pn pl = None" and "1 \<le> sint pn" and "1 \<le> sint pl" and "length xs < 2 ^ 63"
  shows "2 ^ 63 \<le> sint pn * sint pl"
proof (rule ccontr)
  assume small: "\<not> 2 ^ 63 \<le> sint pn * sint pl"
  define n l where "n = nat (sint pn)" and "l = nat (sint pl)"
  have "pn = of_nat n" "pl = of_nat l" using assms(2,3) by (simp_all add: n_def l_def)
  moreover have "int (n * l) < 2 ^ 63" using small assms(2,3) by (simp add: n_def l_def)
  then have "n * l < 2 ^ 63" by (simp only: of_nat_less_numeral_power_cancel_iff)
  moreover have "1 \<le> n" using assms(2) by (simp add: n_def)
  ultimately show False using Paginate_page [of n l xs] assms(1,4) by simp
qed

lemma Paginate_ints:
  assumes "1 \<le> sint pn" and "1 \<le> sint pl" and "sint pn * sint pl < 2 ^ 63" and "length xs < 2 ^ 63"
  shows "Paginate (Some xs) pn pl =
    Some (take (nat (sint pl)) (drop ((nat (sint pn) - 1) * nat (sint pl)) xs))"
proof -
  define n l where "n = nat (sint pn)" and "l = nat (sint pl)"
  have eq: "pn = of_nat n" "pl = of_nat l" using assms(1,2) by (simp_all add: n_def l_def)
  have "int (n * l) < 2 ^ 63" using assms(1-3) by (simp add: n_def l_def)
  then have "n * l < 2 ^ 63" by (simp only: of_nat_less_numeral_power_cancel_iff)
  moreover have "1 \<le> n" using assms(1) by (simp add: n_def)
  ultimately have "Paginate (Some xs) pn pl = Some (take l (drop ((n - 1) * l) xs))"
    using Paginate_page [of n l xs] assms(4) eq by simp
  then show ?thesis by (simp add: n_def l_def)
qed

section \<open>Markers\<close>


lemma trim_flights_empty_id:
  "f \<in> set fs \<Longrightarrow> flight_id f = '''' \<Longrightarrow> \<exists>err. trim_flights secret srv nonces n fs = Inl err"
proof (induction fs arbitrary: n)
  case (Cons g fs)
  show ?case
  proof (cases "flight_id g = ''''")
    case True
    then show ?thesis by (auto simp: Tokens_Encode_def)
  next
    case False
    with Cons obtain err where "trim_flights secret srv nonces (Suc n) fs = Inl err" by auto
    then show ?thesis by (auto split: sum.split)
  qed
qed simp

lemma length_matching: "length (elems (fs_result snap)) < m \<Longrightarrow> length (matching_flights uni query snap) < m"
  unfolding matching_flights_def by (rule le_less_trans [OF length_filter_le])

section \<open>Properties\<close>

text \<open>
  C5: the paged endpoint: while Redis is up, a valid query on a known server with a dated snapshot,
  whose page number and length are positive with a product that fits in an \<open>int\<close>, is answered with
  200 and a document whose items are exactly the flights of the requested page of those that match,
  in snapshot order and without their histories, whose total is the number of all that match, and
  whose page and time are those of the query and the snapshot; the cache is left alone.
\<close>

theorem GetActiveFlights_serves_page:
  assumes "live_redis R view up" and "up (server st)" and "query_ok query"
    and "server_known view (q_server query) st"
    and "stored view flights_snapshot_of_json (KeyActiveFlights (q_server query)) st = Some snap"
    and "\<not> is_zero_time (fs_cached snap)"
    and "1 \<le> sint (q_page_number query)" and "1 \<le> sint (q_page_length query)"
    and "sint (q_page_number query) * sint (q_page_length query) < 2 ^ 63"
    and "length (elems (fs_result snap)) < 2 ^ 63"
  shows "let n = nat (sint (q_page_number query)); l = nat (sint (q_page_length query));
      matches = matching_flights uni query snap in
    \<exists>st' body. GetActiveFlights uni R query r w st = Served (WriteJSON 200 (response_json flight_json body) w) st' \<and>
      cd_result body = Some (map (\<lambda>f. Flight (fdata f) None) (take l (drop ((n - 1) * l) matches))) \<and>
      cd_history body = None \<and>
      cd_pagination body = Some \<lparr>pg_total = of_nat (length matches), pg_length = q_page_length query,
        pg_number = q_page_number query\<rparr> \<and>
      cd_meta body = \<lparr>mt_cached = fs_cached snap, mt_refresh_mins = 1\<rparr> \<and>
      view (server st') = view (server st)"
proof -
  obtain st' where l: "loadFiltered uni R query w st = (Inr (loaded_of uni query snap), st')"
    by (rule live_redis.loadFiltered_live [OF assms(1-6)])
  note page = Paginate_ints [OF assms(7-9) length_matching [OF assms(10), of uni query]]
  have same: "view (server st') = view (server st)"
    by (rule redis_service.loadFiltered_frame [OF _ l]) (rule live_redis.axioms(1) [OF assms(1)])
  have mins: "(word_of_int (flights_RefreshInterval div (60 * sec_ns)) :: gint) = 1"
    by (simp add: flights_RefreshInterval_def sec_ns_def)
  let ?page = "take (nat (sint (q_page_length query))) (drop ((nat (sint (q_page_number query)) - 1) * nat (sint (q_page_length query)))
    (matching_flights uni query snap))"
  have "GetActiveFlights uni R query r w st =
      Served (WriteJSON 200 (response_json flight_json (flights_body query (loaded_of uni query snap) ?page)) w) st'"
    using l page assms(7,8) by (simp add: GetActiveFlights_def loaded_of_def)
  with same show ?thesis
    unfolding Let_def
    by (intro exI [of _ st'] exI [of _ "flights_body query (loaded_of uni query snap) ?page"] conjI)
       (simp_all add: flights_body_def loaded_of_def flights_meta_def mins drop_flight_history_def)
qed

text \<open>
  C27: every outcome of the paged endpoint: a 400 for a page below 1, a missing server or a pilot
  state that is not offered; otherwise 200, 400 (unknown server), 500 or 503, the 200 only when a
  snapshot with its time is stored; or a panic, which needs a page number and length whose product
  does not fit in an int. The cache is never written.
\<close>

theorem GetActiveFlights_outcomes:
  assumes "redis_service R view" and "w_status w = None"
    and small: "\<And>snap. stored view flights_snapshot_of_json (KeyActiveFlights (q_server query)) st = Some snap \<Longrightarrow>
      length (elems (fs_result snap)) < 2 ^ 63"
  shows "view (server (state_of (GetActiveFlights uni R query r w st))) = view (server st) \<and>
    (case GetActiveFlights uni R query r w st of
       Panicked _ _ \<Rightarrow> 2 ^ 63 \<le> sint (q_page_number query) * sint (q_page_length query)
     | Served w' _ \<Rightarrow>
         if sint (q_page_number query) < 1 \<or> sint (q_page_length query) < 1 \<or> \<not> query_ok query
         then w_status w' = Some 400
         else w_status w' \<in> {Some 200, Some 400, Some 500, Some 503} \<and>
           (w_status w' = Some 200 \<longrightarrow>
             (\<exists>snap. stored view flights_snapshot_of_json (KeyActiveFlights (q_server query)) st = Some snap \<and>
               \<not> is_zero_time (fs_cached snap))))"
proof (cases "sint (q_page_number query) < 1 \<or> sint (q_page_length query) < 1")
  case True
  with assms(2) show ?thesis by (auto simp: GetActiveFlights_def bad_query_def)
next
  case False
  obtain res st' where l: "loadFiltered uni R query w st = (res, st')" by fastforce
  note frame = redis_service.loadFiltered_frame [OF assms(1) l]
  show ?thesis
  proof (cases res)
    case (Inl w')
    from redis_service.loadFiltered_reply [OF assms(1) l [unfolded Inl]] assms(2) False frame l Inl
    show ?thesis by (auto simp: GetActiveFlights_def)
  next
    case (Inr loaded)
    from redis_service.loadFiltered_loaded [OF assms(1) l [unfolded Inr]] obtain snap
      where q: "query_ok query"
      and s: "stored view flights_snapshot_of_json (KeyActiveFlights (q_server query)) st = Some snap"
        "\<not> is_zero_time (fs_cached snap)" "loaded = loaded_of uni query snap" by blast
    have "length (ld_result loaded) < 2 ^ 63"
      unfolding s(3) loaded_of_def by (simp add: length_matching [OF small [OF s(1)], simplified])
    with Paginate_None [of "ld_result loaded" "q_page_number query" "q_page_length query"] False frame l Inr q s(1,2) assms(2)
    show ?thesis by (auto simp: GetActiveFlights_def split: option.split)
  qed
qed


text \<open>
  C39: one flight without an id takes the whole map down: when any flight that matches the query has
  an empty id, the trimmed endpoint answers 500 and no marker at all.
\<close>

theorem trimmed_fails_on_empty_id:
  assumes "live_redis R view up" and "up (server st)" and "query_ok query"
    and "server_known view (q_server query) st"
    and "stored view flights_snapshot_of_json (KeyActiveFlights (q_server query)) st = Some snap"
    and "\<not> is_zero_time (fs_cached snap)" and "f \<in> set (matching_flights uni query snap)" and "flight_id f = ''''"
  shows "\<exists>st'. GetTrimmedActiveFlights uni R secret nonces query r w st =
    Served (WriteError 500 ''FLIGHT_TOKEN_FAILED'' ''failed to encode flight markers'' w) st'"
proof -
  obtain st' where l: "loadFiltered uni R query w st = (Inr (loaded_of uni query snap), st')"
    by (rule live_redis.loadFiltered_live [OF assms(1-6)])
  obtain err where "trim_flights secret (q_server query) nonces 0 (matching_flights uni query snap) = Inl err"
    using trim_flights_empty_id [OF assms(7,8)] by blast
  with l show ?thesis by (simp add: GetTrimmedActiveFlights_def loaded_of_def)
qed

section \<open>From the job to the page\<close>

context live_redis
begin

lemma refresh_sessions_up:
  "refresh_sessions R oob fetch now sessions liveries counted st = (n, st') \<Longrightarrow> up (server st) \<Longrightarrow> up (server st')"
proof (induction sessions arbitrary: liveries counted st)
  case (Cons s sessions)
  obtain res m1 st1 where 1: "refreshSession R oob (fetch (s_id s)) s now liveries st = (res, m1, st1)"
    by (metis prod_cases3)
  note up1 = refreshSession_up [OF Cons.prems(2) 1]
  show ?case
  proof (cases "s_id s = '''' \<or> s_normalized s = ''''")
    case True
    with Cons.prems(1) have "refresh_sessions R oob fetch now sessions liveries counted st = (n, st')"
      by (auto simp: refresh_sessions_Cons eligible_def)
    then show ?thesis using Cons.prems(2) by (rule Cons.IH)
  next
    case False
    with Cons.prems(1) 1 obtain c where "refresh_sessions R oob fetch now sessions m1 c st1 = (n, st')"
      by (auto simp: refresh_sessions_Cons eligible_def)
    then show ?thesis using up1 by (rule Cons.IH)
  qed
qed simp

lemma flights_Run_up:
  assumes r: "flights_Run R oob fetch now st = (res, st')" and up: "up (server st)"
  shows "up (server st')"
  using r
proof (cases rule: flights_Run_cases)
  case (1 err)
  then show ?thesis by (rule GetJSON_live(1) [OF up])
next
  case (2 snap st1 counted)
  show ?thesis by (rule refresh_sessions_up [OF 2(2) GetJSON_live(1) [OF up 2(1)]])
qed

lemma flights_Run_names:
  assumes r: "flights_Run R oob fetch now st = (res, st')"
  shows "contents st' KeySessionNames = contents st KeySessionNames"
  by (rule flights_Run_frame [OF r]) (simp_all add: writes_to_def key_neq [symmetric])

end

text \<open>What a reader finds after a run of the job, in any state with the same contents.\<close>

lemma job_feeds_reader:
  assumes live: "live_redis R view up" and up: "up (server st)" and run: "flights_Run R oob fetch now st = (res, st1)"
    and "stored view snapshot_of_json KeyActiveSessions st = Some snap"
    and "session \<in> set (elems (snap_result snap))" and "eligible session"
    and "distinct (map s_normalized (elems (snap_result snap)))"
    and "fetch (s_id session) = Inr upstream"
    and "\<forall>item \<in> set upstream. encodable_item item now" and "year_in_range now" and "\<not> is_zero_time now"
    and "server_known view (s_normalized session) st" and "length upstream < 2 ^ 63"
    and "1 \<le> sint len" and same: "view (server st2) = view (server st1)" "up (server st2)"
  defines "query \<equiv> \<lparr>q_server = s_normalized session, q_pilot_states = None, q_user_name = '''', q_call_sign = '''',
      q_page_number = 1, q_page_length = len\<rparr>"
    and "existing \<equiv> current_flights view (s_normalized session) st"
  obtains mapped st' where
    "list_all2 (mapped_with view oob session (index_flights existing) now st) upstream mapped"
    "GetActiveFlights uni R query r w st2 =
      Served (WriteJSON 200 (response_json flight_json
        (flights_body query (loaded_of uni query (next_flights existing mapped now))
          (take (nat (sint len)) (UpsertFlights existing mapped)))) w) st'"
proof -
  from live_redis.flights_Run_live [where fetch = fetch, OF live run up assms(4-10)]
  obtain mapped where m: "list_all2 (mapped_with view oob session (index_flights existing) now st) upstream mapped"
    and s: "stored view flights_snapshot_of_json (KeyActiveFlights (s_normalized session)) st1 =
      Some (next_flights existing mapped now)"
    by (auto simp: refreshed_def Let_def existing_def)
  let ?snap = "next_flights existing mapped now"
  have q: "query_ok query" using assms(6) by (simp add: query_ok_def eligible_def query_def)
  have known: "server_known view (q_server query) st2"
    using assms(12) live_redis.flights_Run_names [OF live run] same(1)
    by (simp add: server_known_def stored_def query_def)
  obtain st' where l: "loadFiltered uni R query w st2 = (Inr (loaded_of uni query ?snap), st')"
    by (rule live_redis.loadFiltered_live [OF live same(2) q known, of ?snap])
       (use s assms(11) same(1) in \<open>simp_all add: query_def stored_def\<close>)
  have all: "matching_flights uni query ?snap = UpsertFlights existing mapped"
    by (simp add: matching_flights_def flight_matches_def ContainsFold_blank query_def)
  have "length (UpsertFlights existing mapped) \<le> length mapped"
    by (simp add: UpsertFlights_last_per_key length_last_per_key [THEN order_trans])
  then have "length (UpsertFlights existing mapped) < 2 ^ 63"
    using m assms(13) by (simp add: list_all2_lengthD)
  moreover have "sint len < 2 ^ 63" using sint_lt [of len] by simp
  ultimately have "Paginate (Some (UpsertFlights existing mapped)) 1 len =
      Some (take (nat (sint len)) (UpsertFlights existing mapped))"
    using Paginate_ints [of 1 len "UpsertFlights existing mapped"] assms(14) by simp
  with l all assms(14) have "GetActiveFlights uni R query r w st2 =
      Served (WriteJSON 200 (response_json flight_json
        (flights_body query (loaded_of uni query ?snap) (take (nat (sint len)) (UpsertFlights existing mapped)))) w) st'"
    by (simp add: GetActiveFlights_def loaded_of_def query_def)
  with m show thesis by (rule that)
qed

text \<open>
  from the job to the reader: after a run of the flights job that fetched the flights of a
  session, the first page of that server, with no filter, is the upstream flights, mapped one by one
  and merged by id, in upstream order, with their histories left out.
\<close>

theorem job_feeds_page:
  assumes "live_redis R view up" and "up (server st)"
    and "stored view snapshot_of_json KeyActiveSessions st = Some snap"
    and "session \<in> set (elems (snap_result snap))" and "eligible session"
    and "distinct (map s_normalized (elems (snap_result snap)))"
    and "fetch (s_id session) = Inr upstream"
    and "\<forall>item \<in> set upstream. encodable_item item now" and "year_in_range now" and "\<not> is_zero_time now"
    and "server_known view (s_normalized session) st" and "length upstream < 2 ^ 63"
    and "1 \<le> sint len"
  shows "\<exists>mapped st'.
    list_all2 (mapped_with view oob session (index_flights (current_flights view (s_normalized session) st)) now st)
      upstream mapped \<and>
    (let query = \<lparr>q_server = s_normalized session, q_pilot_states = None, q_user_name = '''', q_call_sign = '''',
          q_page_number = 1, q_page_length = len\<rparr>;
         snapshot = next_flights (current_flights view (s_normalized session) st) mapped now in
     GetActiveFlights uni R query r w (snd (flights_Run R oob fetch now st)) =
       Served (WriteJSON 200 (response_json flight_json
         (flights_body query (loaded_of uni query snapshot)
           (take (nat (sint len)) (UpsertFlights (current_flights view (s_normalized session) st) mapped)))) w) st')"
proof -
  obtain res st1 where run: "flights_Run R oob fetch now st = (res, st1)" by fastforce
  have up1: "up (server st1)" by (rule live_redis.flights_Run_up [OF assms(1) run assms(2)])
  show ?thesis
    by (rule job_feeds_reader [OF assms(1,2) run assms(3-13) refl up1, of uni r w])
       (auto simp: run Let_def)
qed

section \<open>Examples\<close>

definition ex_query :: flights_query where
  "ex_query =
     \<lparr>q_server = s_normalized ex_cached_session, q_pilot_states = None, q_user_name = '''', q_call_sign = '''',
      q_page_number = 1, q_page_length = 50\<rparr>"

lemma ex_query_simps [simp]:
  "q_server ex_query = s_normalized ex_cached_session" "sint (q_page_number ex_query) = 1"
  "sint (q_page_length ex_query) = 50"
  by (simp_all add: ex_query_def)

lemma ex_query_ok: "query_ok ex_query"
  using ex_eligible by (simp add: query_ok_def eligible_def ex_query_def)

lemma ex_matching: "matching_flights uni ex_query \<lparr>fs_result = Some fs, fs_cached = t\<rparr> = fs"
  by (simp add: matching_flights_def flight_matches_def ex_query_def ContainsFold_blank)

lemma ex_time: "\<not> is_zero_time 0"
  by (simp add: is_zero_time_def zero_time_value)

lemma ex_known: "server_known mem_view (s_normalized ex_cached_session) ex_server"
  by (simp add: server_known_def ex_server_def)

lemma ex_served:
  "stored mem_view flights_snapshot_of_json (KeyActiveFlights (q_server ex_query)) ex_server =
     Some \<lparr>fs_result = Some [ex_mapped], fs_cached = 0\<rparr>"
  by (simp add: ex_server_stored ex_snapshot_def)

theorem GetActiveFlights_serves_page_witness:
  "\<exists>st' body. GetActiveFlights id mem_redis ex_query (ex_get ''/x'') fresh_writer ex_server =
     Served (WriteJSON 200 (response_json flight_json body) fresh_writer) st' \<and>
     cd_result body = Some [Flight (fdata ex_mapped) None] \<and>
     cd_pagination body = Some \<lparr>pg_total = 1, pg_length = 50, pg_number = 1\<rparr>"
proof -
  have "q_page_length ex_query = 50" "q_page_number ex_query = 1" by (simp_all add: ex_query_def)
  then show ?thesis
    using GetActiveFlights_serves_page [OF mem_live.live_redis_axioms ex_server_facts(1) ex_query_ok _ ex_served,
        of id "ex_get ''/x''" fresh_writer] ex_known ex_time
    by (auto simp: ex_matching Let_def)
qed

theorem GetActiveFlights_outcomes_witness:
  "w_status (reply_of (GetActiveFlights id mem_redis (ex_query\<lparr>q_page_number := 0\<rparr>) (ex_get ''/x'') fresh_writer ex_server))
     = Some 400"
  using GetActiveFlights_outcomes [OF mem.redis_service_axioms, of fresh_writer "ex_query\<lparr>q_page_number := 0\<rparr>"
      ex_server id "ex_get ''/x''"]
  by (auto simp: ex_server_stored ex_snapshot_def split: served.splits)


definition ex_nameless :: flight where
  "ex_nameless = Flight ((fdata ex_mapped)\<lparr>f_flight_id := ''''\<rparr>) None"

definition ex_nameless_server :: "mem store" where
  "ex_nameless_server = store_of (mem_store mem_empty (KeyActiveFlights (s_normalized ex_cached_session))
     (the (flights_snapshot_json \<lparr>fs_result = Some [ex_nameless], fs_cached = 0\<rparr>)) 0)"

theorem trimmed_fails_on_empty_id_witness:
  "\<exists>st'. GetTrimmedActiveFlights id mem_redis (replicate 32 CHR ''k'') (\<lambda>_. None) ex_query (ex_get ''/x'') fresh_writer
      ex_nameless_server =
    Served (WriteError 500 ''FLIGHT_TOKEN_FAILED'' ''failed to encode flight markers'' fresh_writer) st'"
proof -
  let ?snap = "\<lparr>fs_result = Some [ex_nameless], fs_cached = 0\<rparr>"
  have fin: "finite_flight (fdata ex_nameless)" "fhistory ex_nameless = None"
    using ex_mapped_facts(3) by (simp_all add: ex_nameless_def finite_flight_def)
  obtain j where j: "flights_snapshot_json ?snap = Some j"
    using flights_snapshot_encodes [of 0 "[ex_nameless]"] fin by auto
  have "flights_ok (fs_result ?snap)" by (simp add: flights_ok_def flight_ok_flat fin)
  note dec = flights_snapshot_codec.roundtrip [OF this j]
  have s: "stored mem_view flights_snapshot_of_json (KeyActiveFlights (q_server ex_query)) ex_nameless_server = Some ?snap"
    by (simp add: stored_def ex_nameless_server_def j dec)
  have k: "server_known mem_view (q_server ex_query) ex_nameless_server"
    by (simp add: server_known_def ex_nameless_server_def)
  show ?thesis
    by (rule trimmed_fails_on_empty_id [OF mem_live.live_redis_axioms _ ex_query_ok k s])
       (simp_all add: ex_nameless_server_def ex_time ex_matching, simp add: ex_nameless_def)
qed

theorem job_feeds_page_witness:
  "\<exists>body st'. GetActiveFlights id mem_redis ex_query (ex_get ''/x'') fresh_writer
      (snd (flights_Run mem_redis (\<lambda>_. 0) (\<lambda>_. Inr [ex_upstream]) 0 (snd ex_run))) =
    Served (WriteJSON 200 body fresh_writer) st'"
proof -
  have run: "sessions_Run mem_redis id (Inr [ex_session]) 0 (store_of mem_empty) = (Inr (), snd ex_run)"
    using ex_run_ok by (simp add: ex_run_def)
  have known: "server_known mem_view (s_normalized ex_cached_session) (snd ex_run)"
    using mem.sessions_Run_snapshot(2) [OF run] by (simp add: server_known_def ex_prepared)
  show ?thesis
    using job_feeds_page [OF mem_live.live_redis_axioms ex_store(1,2) _ ex_eligible, of "\<lambda>_. Inr [ex_upstream]" "[ex_upstream]" 0
      50 "\<lambda>_. 0" id "ex_get ''/x''" fresh_writer]
      known ex_encodable ex_time by (auto simp: ex_query_def Let_def)
qed

end
