(* ===== verification/LoginApi.thy ===== *)
theory LoginApi
  imports Gates SessionStore
begin

text \<open>
  \<open>internal/transport/http/api/signedlink\<close> and \<open>internal/transport/http/ui\<close>: minting a sign-in link
  for a Discord user, signing in with it, signing out, and the pages behind the session gate. The
  random bytes, the new session id and the clock are arguments; logging is left out.
\<close>

section \<open>Links\<close>

definition link_body_of_json :: "json \<Rightarrow> string option" where
  "link_body_of_json = dec_struct '''' (\<lambda>kvs. dec_str ''redirectTo'' kvs)"

text \<open>The decoded body; an absent or empty one is the zero value, \<open>None\<close> is a decoding error.\<close>

definition requested_redirect :: "body \<Rightarrow> string option" where
  "requested_redirect b =
     (case b of
        NoBody \<Rightarrow> Some '''' | EmptyBody \<Rightarrow> Some '''' | MalformedBody \<Rightarrow> None
      | JsonBody j \<Rightarrow> link_body_of_json j)"

definition link_json :: "string \<Rightarrow> string \<Rightarrow> json option" where
  "link_json url redirectTo =
     jobj [fld_opt ''data''
       (jobj [enc_int ''expiresIn'' (word_of_int (TicketTTL div sec_ns)), enc_text ''redirectTo'' redirectTo,
          enc_text ''url'' url])]"

definition link_ticket :: "claims \<Rightarrow> user \<Rightarrow> string \<Rightarrow> login_ticket" where
  "link_ticket claims user redirectTo =
     \<lparr>t_user = u_id user, t_discord_user = u_discord user, t_discord_server = c_discord_server claims,
      t_username = DisplayName user, t_redirect = redirectTo\<rparr>"

definition GenerateSignedLink ::
  "'r redis \<Rightarrow> (string \<Rightarrow> user_row query) \<Rightarrow> string \<Rightarrow> string \<Rightarrow> string option \<Rightarrow> string option \<Rightarrow> 'r store handler"
where
  "GenerateSignedLink R users secret uiBaseURL id_rand nonce_rand r w st =
     (case ClaimsFromContext r of
        None \<Rightarrow> Served (WriteError 401 ''UNAUTHORIZED'' ''Unauthorized'' w) st
      | Some claims \<Rightarrow>
          if c_discord_user claims = ''''
          then Served (WriteError 403 ''MISSING_DISCORD_CONTEXT''
            ''Missing required Discord context header: X-Discord-User-Id'' w) st
          else
            (case requested_redirect (rq_body r) of
               None \<Rightarrow> Served (WriteError 400 ''INVALID_REQUEST'' ''Invalid request body'' w) st
             | Some wanted \<Rightarrow>
                 (case NormalizeRedirect wanted of
                    Inl err \<Rightarrow>
                      Served (WriteError 400 ''INVALID_REDIRECT'' ''redirectTo must be a relative path'' w) st
                  | Inr redirectTo \<Rightarrow>
                      (case GetByDiscordID users (c_discord_user claims) of
                         Inl err \<Rightarrow> Served (WriteError 500 ''USER_LOOKUP_FAILED'' ''user lookup failed'' w) st
                       | Inr None \<Rightarrow> Served (WriteError 404 ''USER_NOT_FOUND'' ''user not found'' w) st
                       | Inr (Some user) \<Rightarrow>
                           (case Issue R secret id_rand nonce_rand (link_ticket claims user redirectTo) st of
                              (Inl err, st) \<Rightarrow>
                                Served (WriteError 500 ''GENERATION_FAILED'' ''failed to generate signed link'' w) st
                            | (Inr token, st) \<Rightarrow>
                                Served (WriteJSON 200 (link_json (FormatLoginURL uiBaseURL token) redirectTo) w) st)))))"

section \<open>Signing in and out\<close>

definition renderExpired :: "(string \<Rightarrow> page) \<Rightarrow> writer \<Rightarrow> writer" where
  "renderExpired pages w =
     (let w = set_header ''Content-Type'' ''text/html; charset=utf-8'' w;
          w = WriteHeader 401 w in
      case Render pages ''auth-login'' w of
        (Inl err, w) \<Rightarrow> http_Error ''sign-in unavailable'' 500 w
      | (Inr _, w) \<Rightarrow> w)"

definition ticket_input :: "login_ticket \<Rightarrow> create_input" where
  "ticket_input ticket =
     \<lparr>ci_user = t_user ticket, ci_discord = t_discord_user ticket, ci_server = t_discord_server ticket,
      ci_username = t_username ticket\<rparr>"

definition Login ::
  "'r redis \<Rightarrow> string \<Rightarrow> (string \<Rightarrow> page) \<Rightarrow> time \<Rightarrow> string \<Rightarrow> 'r store handler"
where
  "Login R secret pages now uuid r w st =
     (let token = query_value r ''token'' in
      if token = '''' then Served (renderExpired pages w) st
      else
        (case Consume R secret token st of
           (Inl err, st) \<Rightarrow> Served (renderExpired pages w) st
         | (Inr ticket, st) \<Rightarrow>
             (case Service_Create R now uuid (ticket_input ticket) st of
                (Inl err, st) \<Rightarrow> Served (http_Error ''session creation failed'' 500 w) st
              | (Inr created, st) \<Rightarrow>
                  Served (http_Redirect r (t_redirect ticket) 303 (SetCookie r (bs_id created) w)) st)))"

definition Logout :: "'r redis \<Rightarrow> 'r store handler" where
  "Logout R r w st =
     (let st = snd (Service_Delete R (SessionIDFromRequest r) st) in
      Served (http_Redirect r DefaultRedirect 303 (ClearCookie r w)) st)"

definition render_page :: "(string \<Rightarrow> page) \<Rightarrow> string \<Rightarrow> 's handler" where
  "render_page pages name r w s =
     (case Render pages name w of
        (Inl err, w) \<Rightarrow> Served (http_Error ''template render failed'' 500 w) s
      | (Inr _, w) \<Rightarrow> Served w s)"

definition Dashboard :: "(string \<Rightarrow> page) \<Rightarrow> 's handler" where
  "Dashboard pages = render_page pages ''dashboard''"

definition ActiveFlightsMap :: "(string \<Rightarrow> page) \<Rightarrow> 's handler" where
  "ActiveFlightsMap pages = render_page pages ''maps-active-flights''"

section \<open>Redirect targets\<close>

text \<open>Segments of a cleaned path are not empty and hold no slash.\<close>

lemma split_on_segments: "seg \<in> set (split_on c s) \<Longrightarrow> c \<notin> set seg"
proof (induction s arbitrary: seg)
  case Nil
  then show ?case by (simp add: split_on_def)
next
  case (Cons x s)
  have step: "split_on c (x # s) = (if x = c then [] # split_on c s
      else case split_on c s of [] \<Rightarrow> [[x]] | y # ys \<Rightarrow> (x # y) # ys)"
    by (simp add: split_on_def)
  show ?case using Cons by (auto simp: step split: if_splits list.splits)
qed

lemma clean_step_keeps:
  "\<forall>s \<in> set stack. s \<noteq> [] \<and> c \<notin> set s \<Longrightarrow> c \<notin> set seg \<Longrightarrow>
     \<forall>s \<in> set (clean_step seg stack). s \<noteq> [] \<and> c \<notin> set s"
  by (cases stack) (auto simp: clean_step_def)

lemma clean_stack:
  "\<forall>seg \<in> set stack. seg \<noteq> [] \<and> c \<notin> set seg \<Longrightarrow> \<forall>seg \<in> set segs. c \<notin> set seg \<Longrightarrow>
     \<forall>seg \<in> set (fold clean_step segs stack). seg \<noteq> [] \<and> c \<notin> set seg"
proof (induction segs arbitrary: stack)
  case (Cons seg segs)
  have "\<forall>s \<in> set (clean_step seg stack). s \<noteq> [] \<and> c \<notin> set s"
    by (rule clean_step_keeps) (use Cons.prems in simp_all)
  from Cons.IH [OF this] Cons.prems(2) show ?case by simp
qed simp

lemma clean_path_rooted: "\<exists>q. clean_path p = CHR ''/'' # q \<and> \<not> prefix ''/'' q"
proof -
  let ?stack = "fold clean_step (split_on CHR ''/'' p) []"
  have seg: "\<forall>seg \<in> set ?stack. seg \<noteq> [] \<and> CHR ''/'' \<notin> set seg"
    by (rule clean_stack) (auto dest: split_on_segments)
  show ?thesis
  proof (cases "rev ?stack")
    case Nil
    then show ?thesis by (simp add: clean_path_def)
  next
    case (Cons s rest)
    then have "s \<in> set ?stack" by (metis list.set_intros(1) set_rev)
    with seg have "s \<noteq> [] \<and> CHR ''/'' \<notin> set s" by blast
    then obtain a t where "s = a # t" "a \<noteq> CHR ''/''" by (cases s) auto
    with Cons show ?thesis by (auto simp: clean_path_def Let_def)
  qed
qed

lemma escape_rooted:
  assumes "prefix ''/'' u" and "\<not> prefix ''//'' u"
  shows "prefix ''/'' (escape_non_ascii u) \<and> \<not> prefix ''//'' (escape_non_ascii u)"
proof -
  obtain v where u: "u = CHR ''/'' # v" using assms(1) by (auto simp: prefix_def)
  show ?thesis
  proof (cases v)
    case Nil
    then show ?thesis by (simp add: u escape_non_ascii_def)
  next
    case (Cons a t)
    with assms(2) u have "a \<noteq> CHR ''/''" by auto
    then show ?thesis by (simp add: u Cons escape_non_ascii_def)
  qed
qed

lemma redirect_location_rooted:
  assumes "prefix ''/'' u" and "\<not> prefix ''//'' u"
  shows "prefix ''/'' (redirect_location u) \<and> \<not> prefix ''//'' (redirect_location u)"
proof (cases "url_parses u")
  case False
  with escape_rooted [OF assms] show ?thesis by (simp add: redirect_location_def)
next
  case True
  obtain p q where c: "cut_at CHR ''?'' u = (p, q)" by fastforce
  obtain v where v: "clean_path p = CHR ''/'' # v" "\<not> prefix ''/'' v" using clean_path_rooted by blast
  have q: "q = [] \<or> hd q = CHR ''?''" using c by (auto simp: cut_at_def dest: hd_dropWhile)
  let ?url = "(if suffix ''/'' p \<and> \<not> suffix ''/'' (clean_path p) then clean_path p @ ''/'' else clean_path p) @ q"
  have "\<not> prefix ''//'' ?url"
    using v q by (cases v; cases q) (auto simp: suffix_def)
  moreover have "prefix ''/'' ?url" using v by auto
  ultimately have "prefix ''/'' (escape_non_ascii ?url) \<and> \<not> prefix ''//'' (escape_non_ascii ?url)"
    by (intro escape_rooted)
  with True assms c show ?thesis by (simp add: redirect_location_def Let_def)
qed

section \<open>The flow of a link\<close>

definition link_token :: "string \<Rightarrow> string \<Rightarrow> string \<Rightarrow> string" where
  "link_token secret nonce i = b64_encode (nonce @ gcm_seal secret nonce i)"

lemma b64_encode_nonempty: "s \<noteq> [] \<Longrightarrow> b64_encode s \<noteq> []"
  by (cases s rule: b64_encode.cases) (simp_all add: Let_def)

lemma link_token_nonempty: "length nonce = NonceSize \<Longrightarrow> link_token secret nonce i \<noteq> ''''"
  using b64_encode_nonempty [of "nonce @ gcm_seal secret nonce i"]
  by (cases nonce) (simp_all add: link_token_def NonceSize_def)

lemma expired_page: "w_status w = None \<Longrightarrow> w_status (renderExpired pages w) = Some 401"
  by (simp add: renderExpired_def Render_def Let_def split: page.split)

lemma sent_status: "w_status w = None \<Longrightarrow> w_status (http_Redirect r url 303 (SetCookie r i w)) = Some 303"
  by (simp add: SetCookie_def)

context live_redis
begin

lemma GenerateSignedLink_live:
  assumes up: "up (server st)" and key: "key_ok secret"
    and c: "rq_claims r = Some claims" "c_discord_user claims \<noteq> ''''"
    and b: "requested_redirect (rq_body r) = Some wanted" "NormalizeRedirect wanted = Inr redirectTo"
    and u: "GetByDiscordID users (c_discord_user claims) = Inr (Some user)"
  obtains st1 where "GenerateSignedLink R users secret uiBaseURL (Some i) (Some nonce) r w st =
      Served (WriteJSON 200 (link_json (FormatLoginURL uiBaseURL (link_token secret nonce i)) redirectTo) w) st1"
    "Issue R secret (Some i) (Some nonce) (link_ticket claims user redirectTo) st = (Inr (link_token secret nonce i), st1)"
    "up (server st1)"
proof -
  obtain res st1 where i: "Issue R secret (Some i) (Some nonce) (link_ticket claims user redirectTo) st = (res, st1)"
    by fastforce
  note live = Issue_live [OF up key i]
  with i c b u show thesis
    by (intro that [of st1]) (simp_all add: GenerateSignedLink_def ClaimsFromContext_def link_token_def)
qed

lemma Login_live:
  assumes up: "up (server st1)" and ticket: "stored view ticket_of_json (KeyLoginTicket (hex_encode i)) st1 = Some ticket"
    and d: "decryptTicketID secret token = Inr i" and q: "query_value r ''token'' = token" "token \<noteq> ''''"
    and ok: "op_ok (OpCreate now uuid (ticket_input ticket))"
  obtains st' st2 where "Login R secret pages now uuid r w st1 =
      Served (http_Redirect r (t_redirect ticket) 303 (SetCookie r uuid w)) st2"
    "GetDelJSON R ticket_of_json (KeyLoginTicket (hex_encode i)) st1 = (Inr ticket, st')" "up (server st')"
    "Service_Create R now uuid (ticket_input ticket) st' = (Inr (new_session now uuid (ticket_input ticket)), st2)"
    "up (server st2)" "contents st2 (KeyLoginTicket (hex_encode i)) = None"
    "stored view browser_session_of_json (KeySession uuid) st2 = Some (new_session now uuid (ticket_input ticket))"
proof -
  obtain got st' where g: "GetDelJSON R ticket_of_json (KeyLoginTicket (hex_encode i)) st1 = (got, st')" by fastforce
  note live = GetDelJSON_live [OF up g]
  have got: "got = Inr ticket" by (rule live(2) [OF ticket])
  with g d have c: "Consume R secret token st1 = (Inr ticket, st')" by (simp add: Consume_def)
  have gone: "contents st' (KeyLoginTicket (hex_encode i)) = None"
    using GetDelJSON_hit [OF g [unfolded got]] by simp
  obtain res st3 where s: "Service_Create R now uuid (ticket_input ticket) st' = (res, st3)" by fastforce
  note created = Service_Create_live [OF live(1) ok s]
  have "contents st3 (KeyLoginTicket (hex_encode i)) = None"
    by (subst created(3)) (simp add: gone)
  with c got g s created q live(1) show thesis
    by (intro that [of st3 st']) (simp_all add: Login_def new_session_def)
qed

lemma Login_again:
  assumes up: "up (server st)" and gone: "contents st (KeyLoginTicket (hex_encode i)) = None"
    and q: "query_value r ''token'' = token" and d: "decryptTicketID secret token = Inr i"
  obtains st' where "Login R secret pages now uuid r w st = Served (renderExpired pages w) st'"
    "contents st' (KeyLoginTicket (hex_encode i)) = None"
proof -
  obtain got st' where g: "GetDelJSON R ticket_of_json (KeyLoginTicket (hex_encode i)) st = (got, st')" by fastforce
  have "got = Inl ErrMiss" by (rule GetDelJSON_live(3) [OF up g gone])
  moreover have "contents st' (KeyLoginTicket (hex_encode i)) = None"
    using GetDelJSON_at [OF g] gone by auto
  ultimately show thesis
    using g d q gone that [of st] that [of st'] by (cases "token = []") (simp_all add: Login_def Consume_def)
qed

lemma ui_gate_open:
  assumes up: "up (server st)" and s: "session_table view st (SessionIDFromRequest r) = Some s"
    and "SessionIDFromRequest r \<noteq> ''''" and "\<not> Expired s now"
  obtains st' where "ui_gate R now next r w st = next (SetClaims r (Session_Claims s)) w st'"
proof -
  obtain res st' where g: "GetJSON R browser_session_of_json (KeySession (SessionIDFromRequest r)) st = (res, st')" by fastforce
  have "res = Inr s" by (rule GetJSON_live(2) [OF up g]) (use s in \<open>simp add: session_table_def\<close>)
  with g assms(3,4) show thesis
    by (intro that [of st']) (simp add: ui_gate_def UISessionAuth_def Service_Lookup_def Service_Get_def Let_def)
qed

lemma ui_gate_closed:
  assumes up: "up (server st)" and s: "contents st (KeySession (SessionIDFromRequest r)) = None"
  shows "\<exists>st'. ui_gate R now next r w st = Served (http_Redirect r ''/auth/login'' 303 w) st'"
proof (cases "SessionIDFromRequest r = ''''")
  case True
  then show ?thesis by (simp add: ui_gate_def UISessionAuth_def Service_Lookup_def)
next
  case False
  obtain res st' where g: "GetJSON R browser_session_of_json (KeySession (SessionIDFromRequest r)) st = (res, st')" by fastforce
  have "res = Inl ErrMiss" by (rule GetJSON_live_miss [OF up g s])
  with g False show ?thesis by (simp add: ui_gate_def UISessionAuth_def Service_Lookup_def Service_Get_def Let_def)
qed

end

section \<open>The flow of a link over time\<close>

lemma TicketTTL_positive: "0 < TicketTTL" "millis_ns dvd TicketTTL"
  by (simp_all add: TicketTTL_def sec_ns_def millis_ns_def)

context timed_redis
begin

lemma Issue_alive:
  assumes "Issue R secret (Some i) (Some nonce) ticket st = (Inr token, st')" and "length nonce = NonceSize"
    and ok: "ticket_ok ticket"
  obtains j where "ticket_of_json j = Some ticket" "decryptTicketID secret token = Inr i"
    "alive_until view clock expires (KeyLoginTicket (hex_encode i)) (Some j) (clock (server st) + TicketTTL) (server st')"
    "clock (server st') = clock (server st)"
proof -
  let ?k = "KeyLoginTicket (hex_encode i)"
  obtain u where s: "SetJSON R ticket_json ?k ticket TicketTTL st = (Inr u, st')"
    using assms(1) by (auto simp: Issue_def split: sum.splits prod.splits)
  obtain j where j: "ticket_json ticket = Some j"
    and "alive_until view clock expires ?k (Some j) (clock (server st) + TicketTTL) (server st')"
    using SetJSON_alive [OF s TicketTTL_positive] by blast
  moreover have "clock (server st') = clock (server st)" using SetJSON_leaves [OF s, of "{}"] by (simp add: leaves_def)
  ultimately show thesis
    using ticket_codec.roundtrip [OF ok j] Issue_stores(2) [OF assms] by (intro that)
qed

text \<open>Opening a link that is alive, and one that no longer is.\<close>

lemma Login_timed:
  assumes up: "up (server st1)"
    and alive: "alive_until view clock expires (KeyLoginTicket (hex_encode i)) (Some j) d (server st1)" "clock (server st1) < d"
    and j: "ticket_of_json j = Some ticket" and "decryptTicketID secret token = Inr i"
    and "query_value r ''token'' = token" "token \<noteq> ''''" and ok: "op_ok (OpCreate now uuid (ticket_input ticket))"
  obtains st2 j' where "Login R secret pages now uuid r w st1 =
      Served (http_Redirect r (t_redirect ticket) 303 (SetCookie r uuid w)) st2"
    "up (server st2)" "contents st2 (KeyLoginTicket (hex_encode i)) = None"
    "browser_session_of_json j' = Some (new_session now uuid (ticket_input ticket))"
    "alive_until view clock expires (KeySession uuid) (Some j') (clock (server st1) + session_TTL) (server st2)"
proof -
  have "stored view ticket_of_json (KeyLoginTicket (hex_encode i)) st1 = Some ticket"
    using alive j by (simp add: alive_until_def stored_def)
  then obtain st' st2 where l: "Login R secret pages now uuid r w st1 =
      Served (http_Redirect r (t_redirect ticket) 303 (SetCookie r uuid w)) st2"
      and g: "GetDelJSON R ticket_of_json (KeyLoginTicket (hex_encode i)) st1 = (Inr ticket, st')" and up': "up (server st')"
      and c: "Service_Create R now uuid (ticket_input ticket) st' = (Inr (new_session now uuid (ticket_input ticket)), st2)"
      and up2: "up (server st2)" "contents st2 (KeyLoginTicket (hex_encode i)) = None"
    by (rule Login_live [OF up _ assms(5-8)])
  have "clock (server st') = clock (server st1)" using GetDelJSON_leaves [OF g, of "{}"] by (simp add: leaves_def)
  with Service_Create_alive [OF up' ok c] l up2 show thesis by (metis that)
qed

lemma Login_state:
  assumes "up (server st)"
  shows "up (server (state_of (Login R secret pages now uuid r w st)))"
    and "clock (server (state_of (Login R secret pages now uuid r w st))) = clock (server st)"
proof -
  obtain c st1 where c: "Consume R secret (query_value r ''token'') st = (c, st1)" by fastforce
  have 1: "up (server st1) \<and> clock (server st1) = clock (server st)"
  proof (cases "decryptTicketID secret (query_value r ''token'')")
    case (Inr i)
    obtain got st2 where g: "GetDelJSON R ticket_of_json (KeyLoginTicket (hex_encode i)) st = (got, st2)" by fastforce
    then have "st1 = st2" using c Inr by (auto simp: Consume_def split: sum.splits)
    with GetDelJSON_live(1) [OF assms g] GetDelJSON_leaves [OF g, of "{}"] show ?thesis by (simp add: leaves_def)
  qed (use c assms in \<open>simp add: Consume_def\<close>)
  have 2: "up (server st2) \<and> clock (server st2) = clock (server st)"
    if "Service_Create R now uuid input st1 = (res, st2)" for res st2 input
    using service_op_up [of st1 "OpCreate now uuid input" _ st2] 1 that
      service_op_leaves [of "OpCreate now uuid input" st1 _ st2 "uuid @ ''x''"] by (simp add: ok_part_def leaves_def)
  show "up (server (state_of (Login R secret pages now uuid r w st)))"
    and "clock (server (state_of (Login R secret pages now uuid r w st))) = clock (server st)"
    using assms c 1 2 by (auto simp: Login_def Let_def split: sum.split prod.split)
qed

end

lemma ui_gate_over_time:
  assumes "timed_redis R view up clock expires" and up: "up (server st)"
    and alive: "alive_until view clock expires (KeySession i) (Some j) d (server st)"
    and s: "browser_session_of_json j = Some s" "d \<le> bs_expires s"
    and i: "SessionIDFromRequest r = i" "i \<noteq> ''''"
  obtains st' where "ui_gate R (clock (server st)) next r w st =
    (if clock (server st) < d then next (SetClaims r (Session_Claims s)) w st'
     else Served (http_Redirect r ''/auth/login'' 303 w) st')"
proof (cases "clock (server st) < d")
  case True
  have "session_table view st (SessionIDFromRequest r) = Some s" "\<not> Expired s (clock (server st))"
    using True alive s i(1) by (simp_all add: session_table_def stored_def alive_until_def Expired_def)
  with live_redis.ui_gate_open [OF timed_redis.axioms(1) [OF assms(1)] up] i True show thesis
    by (metis that)
next
  case False
  then have "view (server st) (KeySession (SessionIDFromRequest r)) = None" using alive i by (simp add: alive_until_def)
  with live_redis.ui_gate_closed [OF timed_redis.axioms(1) [OF assms(1)] up] False show thesis
    by (metis that)
qed

section \<open>Properties\<close>

text \<open>
  redirect targets stay on the site as far as URLs are read by their syntax: what
  \<open>NormalizeRedirect\<close> accepts is a fixed point of it, starts with a single slash, holds no scheme,
  and the \<open>Location\<close> sent for it starts with a single slash too, whatever dot segments, escapes or
  slashes it contains.
\<close>

theorem NormalizeRedirect_safe:
  assumes "NormalizeRedirect path = Inr target"
  shows "NormalizeRedirect target = Inr target \<and> prefix ''/'' target \<and> \<not> prefix ''//'' target \<and>
    \<not> contains target ''://'' \<and>
    prefix ''/'' (redirect_location target) \<and> \<not> prefix ''//'' (redirect_location target)"
  using NormalizeRedirect_cases [OF assms] redirect_location_rooted [of target] by blast

text \<open>
  the check misses the backslash, which browsers read as a slash: the target of a slash, a
  backslash and a host is accepted and sent as it is, so the link leads to that host.
\<close>

theorem backslash_leaves_site:
  "NormalizeRedirect (''/'' @ [CHR 0x5C] @ ''evil.com'') = Inr (''/'' @ [CHR 0x5C] @ ''evil.com'') \<and>
   redirect_location (''/'' @ [CHR 0x5C] @ ''evil.com'') = ''/'' @ [CHR 0x5C] @ ''evil.com''"
  by code_simp

text \<open>
  C6: the life of a sign-in link, while Redis is up and other programs leave the entries of this link
  and this session alone: a caller who acts for a known Discord user gets a link. Opened within ten
  minutes, it redirects to the wanted page with a cookie for a new session; opened later, it shows
  the page for expired links. A request with the cookie reaches the dashboard as that user until
  seven days after the link was opened, and is sent to the sign-in page from then on. Opening the
  link again shows the page for expired links, whenever that is.
\<close>

theorem sign_in_flow:
  assumes "timed_redis R view up clock expires" and "up (server st)" and "key_ok secret" and "length nonce = NonceSize"
    and "rq_claims r = Some claims" and "c_discord_user claims \<noteq> ''''"
    and "requested_redirect (rq_body r) = Some wanted" and "NormalizeRedirect wanted = Inr redirectTo"
    and "GetByDiscordID users (c_discord_user claims) = Inr (Some user)"
    and "ticket_ok (link_ticket claims user redirectTo)"
    and link: "link = GenerateSignedLink R users secret uiBaseURL (Some i) (Some nonce) r w st"
    and "lapse view clock expires {KeyLoginTicket (hex_encode i)} (server (state_of link)) (server st1)"
    and "up (server st1)" and "now = clock (server st1)"
    and "query_value r2 ''token'' = link_token secret nonce i"
    and "op_ok (OpCreate now uuid (ticket_input (link_ticket claims user redirectTo)))" and "uuid \<noteq> ''''"
    and opened: "opened = Login R secret pages now uuid r2 w st1"
    and "lapse view clock expires {KeySession uuid, KeyLoginTicket (hex_encode i)} (server (state_of opened)) (server st2)"
    and "up (server st2)" and "later = clock (server st2)" and "SessionIDFromRequest r3 = uuid"
  shows "link = Served (WriteJSON 200 (link_json (FormatLoginURL uiBaseURL (link_token secret nonce i)) redirectTo) w)
      (state_of link) \<and>
    (if now < clock (server st) + 10 * 60 * sec_ns
     then opened = Served (http_Redirect r2 redirectTo 303 (SetCookie r2 uuid w)) (state_of opened) \<and>
       (\<exists>st'. ui_gate R later next r3 w st2 =
          (if later < now + 7 * 24 * 3600 * sec_ns
           then next (SetClaims r3 (no_claims\<lparr>c_user := u_id user, c_discord_user := u_discord user,
             c_discord_server := c_discord_server claims\<rparr>)) w st'
           else Served (http_Redirect r3 ''/auth/login'' 303 w) st'))
     else opened = Served (renderExpired pages w) (state_of opened)) \<and>
    (\<exists>st'. Login R secret pages later uuid2 r2 w st2 = Served (renderExpired pages w) st')"
proof -
  note T = assms(1) and L = timed_redis.axioms(1) [OF assms(1)]
  let ?t = "link_ticket claims user redirectTo" and ?k = "KeyLoginTicket (hex_encode i)"
    and ?token = "link_token secret nonce i"
  have ttl: "10 * 60 * sec_ns = TicketTTL" "7 * 24 * 3600 * sec_ns = session_TTL"
    by (simp_all add: TicketTTL_def session_TTL_def)
  obtain st0 where 1: "link = Served (WriteJSON 200 (link_json (FormatLoginURL uiBaseURL ?token) redirectTo) w) st0"
    and issue: "Issue R secret (Some i) (Some nonce) ?t st = (Inr ?token, st0)"
    unfolding link by (rule live_redis.GenerateSignedLink_live [OF L assms(2,3,5-9)])
  obtain j where j: "ticket_of_json j = Some ?t" and d: "decryptTicketID secret ?token = Inr i"
    and a0: "alive_until view clock expires ?k (Some j) (clock (server st) + TicketTTL) (server st0)"
    by (rule timed_redis.Issue_alive [OF T issue assms(4,10)])
  have a1: "alive_until view clock expires ?k (Some j) (clock (server st) + TicketTTL) (server st1)"
    by (rule alive_until_lapse [OF a0 assms(12) [unfolded 1 state_of.simps]]) simp
  note token = link_token_nonempty [OF assms(4), of secret i]
  show ?thesis
  proof (cases "now < clock (server st) + TicketTTL")
    case True
    then obtain st3 j' where 2: "opened = Served (http_Redirect r2 (t_redirect ?t) 303 (SetCookie r2 uuid w)) st3"
      and gone: "view (server st3) ?k = None"
      and s: "browser_session_of_json j' = Some (new_session now uuid (ticket_input ?t))"
      and a3: "alive_until view clock expires (KeySession uuid) (Some j') (clock (server st1) + session_TTL) (server st3)"
      using timed_redis.Login_timed [OF T assms(13) a1 _ j d assms(15) token assms(16)] assms(14) opened by metis
    note lapse = assms(19) [unfolded 2 state_of.simps]
    have a2: "alive_until view clock expires (KeySession uuid) (Some j') (now + session_TTL) (server st2)"
      unfolding assms(14) by (rule alive_until_lapse [OF a3 lapse]) simp
    obtain st' where 3: "ui_gate R later next r3 w st2 =
        (if later < now + session_TTL then next (SetClaims r3 (Session_Claims (new_session now uuid (ticket_input ?t)))) w st'
         else Served (http_Redirect r3 ''/auth/login'' 303 w) st')"
      unfolding assms(21)
      by (rule ui_gate_over_time [OF T assms(20) a2 s _ assms(22,17)]) (simp add: new_session_def)
    obtain st4 where "Login R secret pages later uuid2 r2 w st2 = Served (renderExpired pages w) st4"
      using live_redis.Login_again [OF L assms(20) lapse_gone [OF lapse _ gone] assms(15) d] by blast
    with 1 2 3 True show ?thesis
      unfolding ttl by (auto simp: link_ticket_def Session_Claims_def new_session_def ticket_input_def)
  next
    case False
    then have "view (server st1) ?k = None" using a1 assms(14) by (simp add: alive_until_def)
    then obtain st3 where 2: "opened = Served (renderExpired pages w) st3" and gone: "view (server st3) ?k = None"
      using live_redis.Login_again [OF L assms(13) _ assms(15) d] opened by metis
    note lapse = assms(19) [unfolded 2 state_of.simps]
    obtain st4 where "Login R secret pages later uuid2 r2 w st2 = Served (renderExpired pages w) st4"
      using live_redis.Login_again [OF L assms(20) lapse_gone [OF lapse _ gone] assms(15) d] by blast
    with 1 2 False show ?thesis unfolding ttl by simp
  qed
qed

text \<open>
  C22: signing out ends the session: after a logout the cookie is cleared and the same cookie no
  longer opens the dashboard.
\<close>

theorem sign_out_closes:
  assumes "live_redis R view up" and "up (server st)" and "SessionIDFromRequest r2 = SessionIDFromRequest r"
    and "SessionIDFromRequest r \<noteq> ''''" and "w_status w = None"
  shows "\<exists>w' st1 st2. Logout R r w st = Served w' st1 \<and> w_status w' = Some 303 \<and>
    sent_header ''Location'' w' = Some ''/dashboard'' \<and>
    ui_gate R now next r2 w st1 = Served (http_Redirect r2 ''/auth/login'' 303 w) st2"
proof -
  let ?i = "SessionIDFromRequest r"
  obtain res st1 where d: "Delete R (KeySession ?i) st = (res, st1)" by fastforce
  note live = live_redis.Delete_live [OF assms(1,2) d]
  have "view (server st1) (KeySession (SessionIDFromRequest r2)) = None" using live(3) assms(3) by simp
  then obtain st2 where g: "ui_gate R now next r2 w st1 = Served (http_Redirect r2 ''/auth/login'' 303 w) st2"
    using live_redis.ui_gate_closed [OF assms(1) live(1)] by blast
  let ?w = "http_Redirect r DefaultRedirect 303 (ClearCookie r w)"
  have "Logout R r w st = Served ?w st1" using d assms(4) by (simp add: Logout_def Service_Delete_def)
  moreover have "w_status (ClearCookie r w) = None" using assms(5) by (simp add: ClearCookie_def)
  moreover have "redirect_location DefaultRedirect = ''/dashboard''" by code_simp
  ultimately show ?thesis using g by (intro exI [of _ ?w] exI [of _ st1] exI [of _ st2]) (simp add: sent_Redirect)
qed

section \<open>Examples\<close>

definition ex_row :: user_row where
  "ex_row =
     \<lparr>row_id = ''u1'', row_discord = ''42'', row_community = \<lparr>ns_string = '''', ns_valid = False\<rparr>,
      row_api = \<lparr>ns_string = '''', ns_valid = False\<rparr>, row_active = True,
      row_username = \<lparr>ns_string = ''ann'', ns_valid = True\<rparr>, row_created = 0, row_updated = 0,
      row_otp = \<lparr>ns_string = '''', ns_valid = False\<rparr>\<rparr>"

definition ex_users :: "string \<Rightarrow> user_row query" where
  "ex_users discord = (if discord = ''42'' then Row ex_row else NoRows)"

definition ex_claims :: claims where
  "ex_claims = no_claims\<lparr>c_api_key := True, c_discord_user := ''42''\<rparr>"

definition ex_opening :: request where
  "ex_opening = (ex_get ''/auth/login'')\<lparr>rq_query := [(''token'', link_token ex_secret ex_nonce ''ticket'')]\<rparr>"

definition ex_visit :: request where
  "ex_visit = (ex_get ''/dashboard'')\<lparr>rq_cookies := [(''session_id'', ''s-1'')]\<rparr>"

lemma ex_visit_session: "SessionIDFromRequest ex_visit = ''s-1''"
  by code_simp

lemma ex_year: "year_in_range 0" "year_in_range session_TTL"
  by code_simp+

theorem NormalizeRedirect_safe_witness:
  "prefix ''/'' (redirect_location ''/maps'') \<and> \<not> prefix ''//'' (redirect_location ''/maps'')"
proof -
  have "NormalizeRedirect ''/maps'' = Inr ''/maps''" by code_simp
  from NormalizeRedirect_safe [OF this] show ?thesis by blast
qed

definition ex_link :: "mem store served" where
  "ex_link = GenerateSignedLink mem_redis ex_users ex_secret ''http://a'' (Some ''ticket'') (Some ex_nonce)
     (SetClaims (ex_get ''/api/v1/x'') ex_claims) fresh_writer (store_of mem_empty)"

definition later_by :: "int \<Rightarrow> mem store served \<Rightarrow> mem store" where
  "later_by d res = (state_of res)\<lparr>server := mem_tick d (server (state_of res))\<rparr>"

definition ex_opened :: "int \<Rightarrow> mem store served" where
  "ex_opened d = Login mem_redis ex_secret (\<lambda>_. PageOk) d ''s-1'' ex_opening fresh_writer (later_by d ex_link)"

lemma later_by_simps [simp]:
  "mem_now (server (later_by d res)) = mem_now (server (state_of res)) + d"
  "mem_up (server (later_by d res)) = mem_up (server (state_of res))"
  "0 \<le> d \<Longrightarrow> lapse mem_view mem_now mem_expires K (server (state_of res)) (server (later_by d res))"
  by (simp_all add: later_by_def mem_lapse) (simp_all add: mem_tick_def)

text \<open>
  The example: a link from moment 0, opened after nine minutes or after ten, and the dashboard six
  days or seven days after that.
\<close>

theorem sign_in_flow_witness:
  "let nine = 9 * 60 * sec_ns; ten = 10 * 60 * sec_ns; day = 24 * 3600 * sec_ns in
   (\<exists>st st3 st4.
      ex_opened nine = Served (http_Redirect ex_opening ''/dashboard'' 303 (SetCookie ex_opening ''s-1'' fresh_writer)) st \<and>
      ui_gate mem_redis (nine + 6 * day) ok_handler ex_visit fresh_writer (later_by (6 * day) (ex_opened nine)) =
        ok_handler (SetClaims ex_visit (no_claims\<lparr>c_user := ''u1'', c_discord_user := ''42''\<rparr>)) fresh_writer st3 \<and>
      ui_gate mem_redis (nine + 7 * day) ok_handler ex_visit fresh_writer (later_by (7 * day) (ex_opened nine)) =
        Served (http_Redirect ex_visit ''/auth/login'' 303 fresh_writer) st4) \<and>
   (\<exists>st. ex_opened ten = Served (renderExpired (\<lambda>_. PageOk) fresh_writer) st)"
proof -
  let ?r = "SetClaims (ex_get ''/api/v1/x'') ex_claims"
  obtain user where u: "GetByDiscordID ex_users (c_discord_user ex_claims) = Inr (Some user)"
    and user: "u_id user = ''u1''" "u_discord user = ''42''" "DisplayName user = ''ann''"
    by (simp add: GetByDiscordID_def ex_users_def ex_claims_def ex_row_def nullString_def DisplayName_def)
  have c: "rq_claims ?r = Some ex_claims" "c_discord_user ex_claims \<noteq> ''''" "c_discord_server ex_claims = ''''"
    by (simp_all add: SetClaims_def ex_claims_def no_claims_def)
  have b: "requested_redirect (rq_body ?r) = Some ''''" "NormalizeRedirect '''' = Inr ''/dashboard''"
    by (simp_all add: SetClaims_def requested_redirect_def ex_get_def NormalizeRedirect_def DefaultRedirect_def)
  let ?t = "link_ticket ex_claims user ''/dashboard''"
  have t: "ticket_ok ?t" by (simp add: ticket_ok_def link_ticket_def user c(3))
  have o: "op_ok (OpCreate d ''s-1'' (ticket_input ?t))" if "year_in_range d" "year_in_range (d + session_TTL)" for d
    using that by (simp add: input_ok_def ticket_input_def link_ticket_def user c(3))
  have q: "query_value ex_opening ''token'' = link_token ex_secret ex_nonce ''ticket''"
    by (simp add: query_value_def ex_opening_def)
  have link: "mem_up (server (state_of ex_link)) \<and> mem_now (server (state_of ex_link)) = 0"
  proof -
    have up: "mem_up (server (store_of mem_empty))" by simp
    obtain st0 where l: "ex_link = Served (WriteJSON 200 (link_json (FormatLoginURL ''http://a''
        (link_token ex_secret ex_nonce ''ticket'')) ''/dashboard'') fresh_writer) st0"
      and i: "Issue mem_redis ex_secret (Some ''ticket'') (Some ex_nonce) ?t (store_of mem_empty) =
        (Inr (link_token ex_secret ex_nonce ''ticket''), st0)" and "mem_up (server st0)"
      unfolding ex_link_def by (rule mem_live.GenerateSignedLink_live [OF up ex_ticket_facts(2) c(1,2) b u])
    moreover have "mem_now (server st0) = mem_now (server (store_of mem_empty))"
      by (rule mem_timed.Issue_alive [OF i ex_ticket_facts(3) t])
    ultimately show ?thesis unfolding l by (simp add: mem_empty_def)
  qed
  have flow: "(if d < 10 * 60 * sec_ns
     then ex_opened d = Served (http_Redirect ex_opening ''/dashboard'' 303 (SetCookie ex_opening ''s-1'' fresh_writer))
         (state_of (ex_opened d)) \<and>
       (\<exists>st'. ui_gate mem_redis (d + e) ok_handler ex_visit fresh_writer (later_by e (ex_opened d)) =
          (if d + e < d + 7 * 24 * 3600 * sec_ns
           then ok_handler (SetClaims ex_visit (no_claims\<lparr>c_user := ''u1'', c_discord_user := ''42''\<rparr>)) fresh_writer st'
           else Served (http_Redirect ex_visit ''/auth/login'' 303 fresh_writer) st'))
     else ex_opened d = Served (renderExpired (\<lambda>_. PageOk) fresh_writer) (state_of (ex_opened d)))"
    if "0 \<le> d" "0 \<le> e" "year_in_range d" "year_in_range (d + session_TTL)" for d e
  proof -
    have opened: "mem_up (server (state_of (ex_opened d)))" "mem_now (server (state_of (ex_opened d))) = d"
      unfolding ex_opened_def by (simp_all add: mem_timed.Login_state link)
    have now: "d = mem_now (server (later_by d ex_link))" "d + e = mem_now (server (later_by e (ex_opened d)))"
      by (simp_all add: link opened)
    have up: "mem_up (server (later_by d ex_link))" "mem_up (server (later_by e (ex_opened d)))"
      by (simp_all add: link opened)
    have start: "mem_up (server (store_of mem_empty))" "mem_now (server (store_of mem_empty)) = 0" "''s-1'' \<noteq> ''''"
      by (simp_all add: mem_empty_def)
    have claims: "no_claims\<lparr>c_user := u_id user, c_discord_user := u_discord user, c_discord_server := c_discord_server ex_claims\<rparr> =
        no_claims\<lparr>c_user := ''u1'', c_discord_user := ''42''\<rparr>" by (simp add: user c(3) no_claims_def)
    show ?thesis
      using sign_in_flow [OF mem_timed.timed_redis_axioms start(1) ex_ticket_facts(2,3) c(1,2) b u t ex_link_def
          later_by_simps(3) [OF that(1)] up(1) now(1) q o [OF that(3,4)] start(3) ex_opened_def
          later_by_simps(3) [OF that(2)] up(2) now(2) ex_visit_session, of ok_handler "''s-2''",
          THEN conjunct2, THEN conjunct1] unfolding claims start(2) add_0_left .
  qed
  have years: "year_in_range (9 * 60 * sec_ns)" "year_in_range (9 * 60 * sec_ns + session_TTL)"
    "year_in_range (10 * 60 * sec_ns)" "year_in_range (10 * 60 * sec_ns + session_TTL)" by code_simp+
  show ?thesis
    using flow [of "9 * 60 * sec_ns" "6 * (24 * 3600 * sec_ns)"] flow [of "9 * 60 * sec_ns" "7 * (24 * 3600 * sec_ns)"]
      flow [of "10 * 60 * sec_ns" 0] years by (auto simp: Let_def sec_ns_def)
qed

theorem sign_out_closes_witness:
  "\<exists>w' st1 st2. Logout mem_redis ex_visit fresh_writer (store_of mem_empty) = Served w' st1 \<and> w_status w' = Some 303 \<and>
     ui_gate mem_redis 0 ok_handler ex_visit fresh_writer st1 =
       Served (http_Redirect ex_visit ''/auth/login'' 303 fresh_writer) st2"
  using sign_out_closes [OF mem_live.live_redis_axioms, of "store_of mem_empty" ex_visit ex_visit fresh_writer 0 ok_handler]
  by (auto simp: ex_visit_session)

end
