(* ===== verification/KeyRevocation.thy ===== *)
theory KeyRevocation
  imports Accounts Expiry
begin

text \<open>
  How long a revoked API key is still accepted: the lookups of \<open>internal/apikeys\<close> answer from a
  cached status, so over every interleaving of lookups, other activity and the passing of time the
  cache must not outlive its minute.
\<close>

abbreviation key_entry :: "('r \<Rightarrow> string \<Rightarrow> payload option) \<Rightarrow> string \<Rightarrow> 'r store \<Rightarrow> payload option" where
  "key_entry view key st \<equiv> view (server st) (KeyAPIKeyStatus key)"

text \<open>
  The moments of a history: the key is looked up, whatever Redis and the database answer, and in
  between time passes and other entries change at will. From \<open>revoked\<close> on the database no longer
  enables the key. How long an entry lives is not said here: it follows from the time to live that
  the lookup passes to Redis.
\<close>

inductive key_trace ::
  "'r redis \<Rightarrow> ('r \<Rightarrow> string \<Rightarrow> payload option) \<Rightarrow> ('r \<Rightarrow> time) \<Rightarrow> ('r \<Rightarrow> string \<Rightarrow> time option) \<Rightarrow>
     string \<Rightarrow> time \<Rightarrow> 'r store \<Rightarrow> bool"
  for R view clock expires key revoked
where
  start: "key_entry view key st = None \<Longrightarrow> key_trace R view clock expires key revoked st"
| pass: "key_trace R view clock expires key revoked st \<Longrightarrow>
    lapse view clock expires {KeyAPIKeyStatus key} (server st) (server st') \<Longrightarrow>
    key_trace R view clock expires key revoked st'"
| lookup: "key_trace R view clock expires key revoked st \<Longrightarrow>
    (revoked \<le> clock (server st) \<longrightarrow> \<not> key_enabled api_keys key) \<Longrightarrow>
    KeyLookup R api_keys key st = (res, st') \<Longrightarrow>
    key_trace R view clock expires key revoked st'"

lemma cacheTTL_positive: "0 < cacheTTL" "millis_ns dvd cacheTTL"
  by (simp_all add: cacheTTL_def sec_ns_def millis_ns_def)

text \<open>While an entry says that the key is active, it is due within a minute of the revocation.\<close>

definition due_after ::
  "('r \<Rightarrow> string \<Rightarrow> payload option) \<Rightarrow> ('r \<Rightarrow> time) \<Rightarrow> ('r \<Rightarrow> string \<Rightarrow> time option) \<Rightarrow> string \<Rightarrow> time \<Rightarrow> 'r store \<Rightarrow> bool"
where
  "due_after view clock expires key revoked st \<longleftrightarrow>
     (\<forall>c. cached_status view key st = Some c \<longrightarrow> sc_found c \<longrightarrow> sc_active c \<longrightarrow>
        (\<exists>d. expires (server st) (KeyAPIKeyStatus key) = Some d \<and>
           clock (server st) < d \<and> d < revoked + cacheTTL))"

context expiring_redis
begin

text \<open>A lookup leaves the entry alone or writes what the database said, for as long as the cache keeps it.\<close>

lemma KeyLookup_entry:
  assumes "KeyLookup R api_keys key st = (res, st')"
  shows "leave {KeyAPIKeyStatus key} st st' \<or>
    (clock (server st') = clock (server st) \<and>
     expires (server st') (KeyAPIKeyStatus key) = Some (clock (server st) + cacheTTL) \<and>
     (\<exists>active found. Repository_Active api_keys key = Inr (active, found) \<and>
        cached_status view key st' = Some \<lparr>sc_active = active, sc_found = found\<rparr>))"
proof -
  let ?k = "KeyAPIKeyStatus key"
  obtain got st1 where g: "GetJSON R status_of_json ?k st = (got, st1)" by fastforce
  obtain b st2 where a: "key_active R api_keys key st = (b, st2)" by fastforce
  note l1 = GetJSON_leaves [OF g, of "{?k}"]
  have "st' = st2" using assms a by (auto simp: KeyLookup_def split: sum.splits if_splits)
  moreover have "st2 = st1 \<or> (\<exists>active found r. Repository_Active api_keys key = Inr (active, found) \<and>
      SetJSON R status_json ?k \<lparr>sc_active = active, sc_found = found\<rparr> cacheTTL st1 = (r, st2))"
    using a g by (auto simp: key_active_def Let_def prod_eq_iff split: sum.splits)
  ultimately show ?thesis
  proof (elim disjE exE conjE)
    assume "st' = st2" "st2 = st1"
    with l1 show ?thesis by simp
  next
    fix active found r
    assume st': "st' = st2" and db: "Repository_Active api_keys key = Inr (active, found)"
      and s: "SetJSON R status_json ?k \<lparr>sc_active = active, sc_found = found\<rparr> cacheTTL st1 = (r, st2)"
    have "clock (server st2) = clock (server st1)" using SetJSON_leaves [OF s, of "{}"] by (simp add: leaves_def)
    with SetJSON_entry [OF s less_imp_le [OF cacheTTL_positive(1)] cacheTTL_positive(2)] show ?thesis
    proof (elim disjE exE conjE)
      fix j
      assume "status_json \<lparr>sc_active = active, sc_found = found\<rparr> = Some j" "contents st2 ?k = Some (Some j)"
        "expires (server st2) ?k = due cacheTTL (clock (server st1))" "clock (server st2) = clock (server st1)"
      with st' db l1 cacheTTL_positive(1) status_codec.roundtrip show ?thesis
        by (auto simp: cached_status_def stored_def due_def leaves_def)
    next
      assume "leave {?k} st1 st2"
      with l1 st' show ?thesis by (auto intro: leaves_trans)
    qed
  qed
qed

lemma due_after_leaves:
  "due_after view clock expires key revoked st \<Longrightarrow> leave {KeyAPIKeyStatus key} st st' \<Longrightarrow>
     due_after view clock expires key revoked st'"
  by (simp add: due_after_def cached_status_def stored_def leaves_def)

lemma key_trace_due: "key_trace R view clock expires key revoked st \<Longrightarrow> due_after view clock expires key revoked st"
proof (induction rule: key_trace.induct)
  case (start st)
  then show ?case by (simp add: due_after_def cached_status_def stored_def)
next
  case (pass st st')
  show ?case
  proof (cases "\<exists>d. expires (server st) (KeyAPIKeyStatus key) = Some d \<and> d \<le> clock (server st')")
    case True
    with pass.hyps(2) show ?thesis by (simp add: lapse_def due_after_def cached_status_def stored_def)
  next
    case False
    with pass.hyps(2) pass.IH show ?thesis
      by (auto simp: lapse_def due_after_def cached_status_def stored_def not_le)
  qed
next
  case (lookup st api_keys res st')
  from KeyLookup_entry [OF lookup.hyps(3)] show ?case
  proof (elim disjE conjE exE)
    assume "leave {KeyAPIKeyStatus key} st st'"
    with lookup.IH show ?thesis by (rule due_after_leaves)
  next
    fix active found
    assume db: "Repository_Active api_keys key = Inr (active, found)"
      and "clock (server st') = clock (server st)"
      "expires (server st') (KeyAPIKeyStatus key) = Some (clock (server st) + cacheTTL)"
      "cached_status view key st' = Some \<lparr>sc_active = active, sc_found = found\<rparr>"
    moreover have "found \<and> active \<Longrightarrow> clock (server st) < revoked"
      using lookup.hyps(2) db by (auto simp: Repository_Active_ok not_less [symmetric])
    ultimately show ?thesis using cacheTTL_positive by (simp add: due_after_def)
  qed
qed

lemma revoked_refused:
  assumes trace: "key_trace R view clock expires key revoked st" and late: "revoked + cacheTTL \<le> clock (server st)"
    and disabled: "\<not> key_enabled api_keys key" and look: "KeyLookup R api_keys key st = (res, st')"
  shows "res \<noteq> Inr (Some c)"
proof
  assume "res = Inr (Some c)"
  with look obtain st1 where "key_active R api_keys key st = (Inr True, st1)" using KeyLookup_ok by blast
  with disabled key_active_ok obtain s where "cached_status view key st = Some s" "sc_found s \<and> sc_active s"
    by blast
  with key_trace_due [OF trace] late show False by (auto simp: due_after_def)
qed

end

section \<open>Properties\<close>

text \<open>
  C16: A revoked key is refused after a minute: over every interleaving of lookups of the key, other
  activity and waiting, whatever Redis and the database answer, a lookup a minute or more after the
  database stopped enabling the key does not accept it. That Redis has dropped the cached status by
  then is a consequence of the time to live the lookup gave it.
\<close>
theorem revoked_key_refused:
  assumes "expiring_redis R view clock expires"
    and "key_trace R view clock expires key revoked st"
    and "revoked + 60 * sec_ns \<le> clock (server st)" and "\<not> key_enabled api_keys key"
    and "KeyLookup R api_keys key st = (res, st')"
  shows "res = Inr None \<or> (\<exists>err. res = Inl err)"
proof (cases res)
  case (Inr found)
  have "revoked + cacheTTL \<le> clock (server st)" using assms(3) by (simp add: cacheTTL_def)
  from expiring_redis.revoked_refused [OF assms(1,2) this assms(4,5)] Inr show ?thesis by (cases found) auto
qed simp

text \<open>
  The example: the status is cached at 0 while the key is enabled, the key is revoked a second later,
  and 61 seconds after the start it is refused.
\<close>

definition ex_key_start :: "mem store" where
  "ex_key_start = snd (KeyLookup mem_redis (\<lambda>_. Row True) ''k'' (store_of mem_empty))"

definition ex_key_later :: "int \<Rightarrow> mem store" where
  "ex_key_later s = ex_key_start\<lparr>server := mem_tick (s * sec_ns) (server ex_key_start)\<rparr>"

lemma ex_key_start_now: "mem_now (server ex_key_start) = 0"
proof -
  obtain res where "KeyLookup mem_redis (\<lambda>_. Row True) ''k'' (store_of mem_empty) = (res, ex_key_start)"
    by (simp add: ex_key_start_def prod_eq_iff)
  from mem_timed.KeyLookup_entry [OF this] show ?thesis by (auto simp: leaves_def mem_empty_def)
qed

lemma ex_key_trace:
  "0 \<le> s \<Longrightarrow> key_trace mem_redis mem_view mem_now mem_expires ''k'' sec_ns (ex_key_later s)"
proof -
  have "key_trace mem_redis mem_view mem_now mem_expires ''k'' sec_ns (store_of mem_empty)"
    by (rule key_trace.start) simp
  then have "key_trace mem_redis mem_view mem_now mem_expires ''k'' sec_ns ex_key_start"
    by (rule key_trace.lookup [where api_keys = "\<lambda>_. Row True"])
       (simp_all add: ex_key_start_def sec_ns_def mem_empty_def prod_eq_iff)
  then show "0 \<le> s \<Longrightarrow> ?thesis"
    by (rule key_trace.pass) (simp add: ex_key_later_def mem_lapse sec_ns_def)
qed

theorem revoked_key_refused_witness:
  "\<forall>c. fst (KeyLookup mem_redis (\<lambda>_. Row False) ''k'' (ex_key_later 61)) \<noteq> Inr (Some c)"
proof -
  have "sec_ns + 60 * sec_ns \<le> mem_now (server (ex_key_later 61))"
    by (simp add: ex_key_later_def ex_key_start_now mem_tick_def sec_ns_def)
  from revoked_key_refused [OF mem_timed.expiring_redis_axioms ex_key_trace this _ surjective_pairing, of "\<lambda>_. Row False"]
  show ?thesis by (auto simp: key_enabled_def)
qed

end
