(* ===== verification/Metrics.thy ===== *)
theory Metrics
  imports MemRedis
begin

text \<open>
  \<open>internal/metrics/metrics.go\<close>: the collectors of the registry with their labels, and what the
  cache store's counters say. Registering panics when two collectors have the same name.
\<close>

section \<open>The registry\<close>

datatype collector_kind = Counter | Gauge | Histogram

text \<open>
  Buckets are the arguments of \<open>prometheus.ExponentialBuckets\<close> (start, factor, count), which computes
  them; \<open>None\<close> stands for the default buckets.
\<close>

record collector =
  co_kind :: collector_kind
  co_subsystem :: string
  co_name :: string
  co_help :: string
  co_labels :: "string list"
  co_buckets :: "(rat \<times> rat \<times> nat) option"

text \<open>The full name: namespace, subsystem and name.\<close>

definition fq_name :: "collector \<Rightarrow> string" where
  "fq_name c = ''politburo_'' @ co_subsystem c @ ''_'' @ co_name c"

definition new_collector ::
  "collector_kind \<Rightarrow> string \<Rightarrow> string \<Rightarrow> string \<Rightarrow> (rat \<times> rat \<times> nat) option \<Rightarrow> string list \<Rightarrow> collector"
where
  "new_collector k subsystem name help buckets labels =
     \<lparr>co_kind = k, co_subsystem = subsystem, co_name = name, co_help = help, co_labels = labels, co_buckets = buckets\<rparr>"

text \<open>The registry, or \<open>None\<close> for the panic of \<open>MustRegister\<close>.\<close>

definition MustRegister :: "collector list \<Rightarrow> collector list option" where
  "MustRegister cs = (if distinct (map fq_name cs) then Some cs else None)"

definition NewRegistry :: "collector list option" where
  "NewRegistry =
     (let requests = new_collector Counter ''http'' ''requests_total''
            ''Total HTTP requests.'' None [''method'', ''route'', ''status''];
          duration = new_collector Histogram ''http'' ''request_duration_seconds''
            ''HTTP request duration in seconds.'' None [''method'', ''route''];
          cacheOperations = new_collector Counter ''cache'' ''operations_total''
            ''Total cache operations by operation and outcome.'' None [''operation'', ''outcome''];
          cacheDuration = new_collector Histogram ''cache'' ''operation_duration_seconds''
            ''Cache operation duration in seconds.'' None [''operation''];
          cachePayloadBytes = new_collector Histogram ''cache'' ''payload_bytes''
            ''Encoded cache payload size in bytes by operation.'' (Some (128, 4, 9)) [''operation''];
          cacheInserts = new_collector Counter ''cache'' ''inserts_total''
            ''Total successful cache inserts.'' None [];
          jobRuns = new_collector Counter ''jobs'' ''runs_total''
            ''Total scheduled job runs by job and outcome.'' None [''job'', ''outcome''];
          jobDuration = new_collector Histogram ''jobs'' ''run_duration_seconds''
            ''Scheduled job run duration in seconds.'' (Some (1 / 10, 2, 12)) [''job''];
          jobRunning = new_collector Gauge ''jobs'' ''running''
            ''Whether a scheduled job is currently running.'' None [''job''];
          jobLastSuccess = new_collector Gauge ''jobs'' ''last_success_timestamp_seconds''
            ''Unix timestamp of the last successful scheduled job run.'' None [''job'']
      in MustRegister
        [requests, duration, cacheOperations, cacheDuration, cachePayloadBytes, cacheInserts,
         jobRuns, jobDuration, jobRunning, jobLastSuccess])"

lemma NewRegistry_total: "NewRegistry \<noteq> None"
  by code_simp

section \<open>The cache counters\<close>

definition cache_series :: "(string \<times> string) set" where
  "cache_series =
     {(''get'', ''hit''), (''get'', ''miss''), (''get'', ''error''), (''set'', ''success''), (''set'', ''error''),
      (''delete'', ''success''), (''delete'', ''error''), (''getdel'', ''hit''), (''getdel'', ''miss''),
      (''getdel'', ''error''), (''ping'', ''success''), (''ping'', ''error'')}"

definition counters_ok :: "'r store \<Rightarrow> bool" where
  "counters_ok st \<longleftrightarrow>
     inserts st = ops st (''set'', ''success'') \<and> (\<forall>s. s \<notin> cache_series \<longrightarrow> ops st s = 0)"

lemma counters_ok_observe:
  "(operation, outcome) \<in> cache_series \<Longrightarrow> (operation, outcome) \<noteq> (''set'', ''success'') \<Longrightarrow>
     counters_ok st \<Longrightarrow> counters_ok (observe operation outcome st)"
  by (auto simp: counters_ok_def observe_def)

lemma counters_ok_server [simp]: "counters_ok (st\<lparr>server := r\<rparr>) = counters_ok st"
  by (simp add: counters_ok_def)

lemma series [simp]:
  "(''get'', ''hit'') \<in> cache_series" "(''get'', ''miss'') \<in> cache_series" "(''get'', ''error'') \<in> cache_series"
  "(''set'', ''error'') \<in> cache_series" "(''set'', ''success'') \<in> cache_series"
  "(''delete'', ''success'') \<in> cache_series" "(''delete'', ''error'') \<in> cache_series"
  "(''getdel'', ''hit'') \<in> cache_series" "(''getdel'', ''miss'') \<in> cache_series"
  "(''getdel'', ''error'') \<in> cache_series" "(''ping'', ''success'') \<in> cache_series" "(''ping'', ''error'') \<in> cache_series"
  by (simp_all add: cache_series_def)

lemma counters_ok_insert:
  "counters_ok st \<Longrightarrow> counters_ok (observe ''set'' ''success'' (st\<lparr>inserts := Suc (inserts st)\<rparr>))"
  by (auto simp: counters_ok_def observe_def)


text \<open>The outcome that a caller saw.\<close>

fun read_outcome :: "go_error + 'a \<Rightarrow> string" where
  "read_outcome (Inr v) = ''hit''"
| "read_outcome (Inl err) = (if err = ErrMiss then ''miss'' else ''error'')"

fun write_outcome :: "go_error + 'a \<Rightarrow> string" where
  "write_outcome (Inr v) = ''success''"
| "write_outcome (Inl err) = ''error''"

definition bump :: "string \<times> string \<Rightarrow> (string \<times> string \<Rightarrow> nat) \<Rightarrow> (string \<times> string \<Rightarrow> nat)" where
  "bump series m = m(series := Suc (m series))"

lemma ops_observe: "ops (observe operation outcome st) = bump (operation, outcome) (ops st)"
  by (simp add: observe_def bump_def)

lemma ops_updates [simp]: "ops (st\<lparr>server := r\<rparr>) = ops st" "ops (st\<lparr>inserts := n\<rparr>) = ops st"
  by simp_all

lemmas counter_simps = ops_observe counters_ok_observe counters_ok_insert

lemma GetJSON_counters:
  "GetJSON R dec k st = (res, st') \<Longrightarrow> counters_ok st \<Longrightarrow>
     counters_ok st' \<and> ops st' = bump (''get'', read_outcome res) (ops st)"
  by (auto simp: GetJSON_def Let_def counter_simps split: prod.splits reply.splits option.splits)

lemma GetDelJSON_counters:
  "GetDelJSON R dec k st = (res, st') \<Longrightarrow> counters_ok st \<Longrightarrow>
     counters_ok st' \<and> ops st' = bump (''getdel'', read_outcome res) (ops st)"
  by (auto simp: GetDelJSON_def Let_def counter_simps split: prod.splits reply.splits option.splits)

lemma SetJSON_counters:
  "SetJSON R enc k v ttl st = (res, st') \<Longrightarrow> counters_ok st \<Longrightarrow>
     counters_ok st' \<and> ops st' = bump (''set'', write_outcome res) (ops st)"
  by (auto simp: SetJSON_def Let_def counter_simps counters_ok_insert [of "st\<lparr>server := r\<rparr>" for r, simplified]
      split: prod.splits option.splits if_splits)

lemma Delete_counters:
  "Delete R k st = (res, st') \<Longrightarrow> counters_ok st \<Longrightarrow>
     counters_ok st' \<and> ops st' = bump (''delete'', write_outcome res) (ops st)"
  by (auto simp: Delete_def Let_def counter_simps split: prod.splits if_splits)

lemma Ping_counters:
  "Ping R st = (res, st') \<Longrightarrow> counters_ok st \<Longrightarrow>
     counters_ok st' \<and> ops st' = bump (''ping'', write_outcome res) (ops st)"
  by (auto simp: Ping_def Let_def counter_simps split: prod.splits if_splits)

section \<open>Properties\<close>

text \<open>
  C28: The cache metrics tell the truth, whatever Redis answers: every operation counts once, under its
  own name and the outcome its caller saw; the insert counter stays equal to the number of
  successful sets; no other series than the twelve of the five operations ever appears.
\<close>
theorem cache_counters_truthful:
  assumes "counters_ok st"
  shows "(\<lambda>(res, st'). counters_ok st' \<and> ops st' = bump (''get'', read_outcome res) (ops st)) (GetJSON R dec k st) \<and>
    (\<lambda>(res, st'). counters_ok st' \<and> ops st' = bump (''getdel'', read_outcome res) (ops st)) (GetDelJSON R dec k st) \<and>
    (\<lambda>(res, st'). counters_ok st' \<and> ops st' = bump (''set'', write_outcome res) (ops st)) (SetJSON R enc k v ttl st) \<and>
    (\<lambda>(res, st'). counters_ok st' \<and> ops st' = bump (''delete'', write_outcome res) (ops st)) (Delete R k st) \<and>
    (\<lambda>(res, st'). counters_ok st' \<and> ops st' = bump (''ping'', write_outcome res) (ops st)) (Ping R st)"
  using assms
  by (auto dest: GetJSON_counters GetDelJSON_counters SetJSON_counters Delete_counters Ping_counters)

theorem cache_counters_truthful_witness:
  "ops (snd (GetJSON mem_redis (\<lambda>_. Some ()) ''k'' (store_of mem_empty))) (''get'', ''miss'') = 1"
proof -
  have "counters_ok (store_of mem_empty)" by (simp add: counters_ok_def store_of_def)
  from cache_counters_truthful [OF this, of mem_redis "\<lambda>_. Some ()" "''k''" "\<lambda>_. None" "()" 0]
  have "ops (snd (GetJSON mem_redis (\<lambda>_. Some ()) ''k'' (store_of mem_empty))) =
    bump (''get'', read_outcome (fst (GetJSON mem_redis (\<lambda>_. Some ()) ''k'' (store_of mem_empty)))) (ops (store_of mem_empty))"
    by (simp add: case_prod_unfold)
  moreover have "fst (GetJSON mem_redis (\<lambda>_. Some ()) ''k'' (store_of mem_empty)) = Inl ErrMiss"
    by (simp add: GetJSON_def Let_def mem_empty_def store_of_def mem_view_def mem_reply_def)
  ultimately show ?thesis by (simp add: bump_def store_of_def)
qed

end
