(* ===== verification/Scheduler.thy ===== *)
theory Scheduler
  imports GoTime
begin

text \<open>
  \<open>internal/scheduler/scheduler.go\<close>: registration of jobs, one run of a job with its metrics, and
  starting and stopping. The cron library (\<open>robfig/cron\<close>) is not part of the program: what it does
  of its own accord is the step relation below, which allows every order of events that its
  documentation allows. While cron is started and not stopped it launches an entry, in a goroutine of
  its own, any number of times; a launched invocation passes the chain of wrappers: \<open>SkipIfStillRunning\<close>
  lets it begin at some later moment if it gets the token of the job, and skips it otherwise;
  \<open>Recover\<close> stops a panic. \<open>Stop\<close> ends the firing, and its context is done when no launched
  invocation is left. A job is given by its name, and what its \<open>Run\<close> returns is an argument of the
  step. Whether \<open>SkipIfStillRunning\<close> gives the token back in a deferred call depends on the version of
  cron and is the parameter \<open>deferred\<close>: version 3.0.1, which \<open>go.mod\<close> names, does not.
\<close>

section \<open>State\<close>

datatype wrapper = Recover | SkipIfStillRunning

record scheduler =
  sch_jobs :: "string set"
  sch_entries :: "(string \<times> string) list"
  sch_started :: bool
  sch_stopped :: bool
  sch_cancelled :: bool
  sch_waiting :: bool
  cron_on :: bool
  cron_chain :: "wrapper list"
  cron_launched :: "string list"
  cron_running :: "string list"
  cron_held :: "string set"
  m_running :: "string \<rightharpoonup> nat"
  m_runs :: "string \<times> string \<Rightarrow> nat"
  m_duration :: "string \<Rightarrow> nat"
  m_last_success :: "string \<rightharpoonup> time"

definition New_scheduler :: scheduler where
  "New_scheduler =
     \<lparr>sch_jobs = {}, sch_entries = [], sch_started = False, sch_stopped = False, sch_cancelled = False,
      sch_waiting = False, cron_on = False, cron_chain = [Recover, SkipIfStillRunning], cron_launched = [],
      cron_running = [], cron_held = {}, m_running = Map.empty,
      m_runs = (\<lambda>_. 0), m_duration = (\<lambda>_. 0), m_last_success = Map.empty\<rparr>"

section \<open>Operations\<close>

text \<open>The first argument is cron's parser of schedules; \<open>None\<close> is a nil job.\<close>

definition Register ::
  "(string \<Rightarrow> bool) \<Rightarrow> string option \<Rightarrow> string \<Rightarrow> scheduler \<Rightarrow> (go_error + unit) \<times> scheduler"
where
  "Register parses job schedule sch =
     (case job of
        None \<Rightarrow> (Inl (Errorf ''register job: nil job''), sch)
      | Some name \<Rightarrow>
          if name \<in> sch_jobs sch then (Inl (Errorf ''register job: duplicate name''), sch)
          else if \<not> parses schedule then (Inl (Wrapf ''register job'' (Errorf ''schedule'')), sch)
          else (Inr (), sch\<lparr>sch_entries := sch_entries sch @ [(name, schedule)],
                             sch_jobs := insert name (sch_jobs sch)\<rparr>))"

datatype run_result = Returned "go_error option" | Panics

definition begin_run :: "string \<Rightarrow> scheduler \<Rightarrow> scheduler" where
  "begin_run name sch = sch\<lparr>m_running := (m_running sch)(name \<mapsto> 1)\<rparr>"

definition run_deferred :: "string \<Rightarrow> string \<Rightarrow> scheduler \<Rightarrow> scheduler" where
  "run_deferred name outcome sch =
     sch\<lparr>m_running := (m_running sch)(name \<mapsto> 0),
         m_runs := (m_runs sch)((name, outcome) := Suc (m_runs sch (name, outcome))),
         m_duration := (m_duration sch)(name := Suc (m_duration sch name))\<rparr>"

definition finish_run :: "string \<Rightarrow> run_result \<Rightarrow> time \<Rightarrow> scheduler \<Rightarrow> scheduler" where
  "finish_run name result now sch =
     (case result of
        Panics \<Rightarrow> run_deferred name ''error'' sch
      | Returned (Some err) \<Rightarrow> run_deferred name ''error'' sch
      | Returned None \<Rightarrow>
          run_deferred name ''success'' (sch\<lparr>m_last_success := (m_last_success sch)(name \<mapsto> now)\<rparr>))"

definition Start :: "scheduler \<Rightarrow> scheduler" where
  "Start sch = (if sch_started sch then sch else sch\<lparr>sch_started := True, cron_on := True\<rparr>)"

text \<open>\<open>Stop\<close> up to the point where it waits for cron's context.\<close>

definition begin_stop :: "scheduler \<Rightarrow> scheduler" where
  "begin_stop sch =
     (if sch_stopped sch then sch
      else sch\<lparr>sch_stopped := True, sch_cancelled := True, cron_on := False, sch_waiting := True\<rparr>)"

section \<open>The scheduler under cron\<close>

datatype sched_event =
    Registered "string option" string "go_error + unit"
  | Started
  | Launched string
  | Began string
  | Skipped string
  | Finished string run_result time
  | StopCalled
  | StopReturned

text \<open>
  The wrappers of \<open>WithChain\<close>, the outermost first. A panic that reaches \<open>SkipIfStillRunning\<close> passes
  the statement that gives the token back, unless that is deferred; it does not reach it when a
  \<open>Recover\<close> inside of it has stopped it.
\<close>

fun recovered_inside :: "wrapper list \<Rightarrow> bool" where
  "recovered_inside [] = False"
| "recovered_inside (Recover # ws) = recovered_inside ws"
| "recovered_inside (SkipIfStillRunning # ws) = (Recover \<in> set ws)"

definition token_returns :: "bool \<Rightarrow> wrapper list \<Rightarrow> run_result \<Rightarrow> bool" where
  "token_returns deferred chain result \<longleftrightarrow> result \<noteq> Panics \<or> deferred \<or> recovered_inside chain"

definition may_begin :: "scheduler \<Rightarrow> string \<Rightarrow> bool" where
  "may_begin sch name \<longleftrightarrow> SkipIfStillRunning \<notin> set (cron_chain sch) \<or> name \<notin> cron_held sch"

inductive sched_step :: "bool \<Rightarrow> (string \<Rightarrow> bool) \<Rightarrow> scheduler \<Rightarrow> sched_event \<Rightarrow> scheduler \<Rightarrow> bool"
  for deferred :: bool and parses :: "string \<Rightarrow> bool"
where
  register: "Register parses job schedule sch = (res, sch') \<Longrightarrow>
    sched_step deferred parses sch (Registered job schedule res) sch'"
| start: "sched_step deferred parses sch Started (Start sch)"
| launch: "cron_on sch \<Longrightarrow> name \<in> fst ` set (sch_entries sch) \<Longrightarrow>
    sched_step deferred parses sch (Launched name) (sch\<lparr>cron_launched := name # cron_launched sch\<rparr>)"
| begin_: "name \<in> set (cron_launched sch) \<Longrightarrow> may_begin sch name \<Longrightarrow>
    sched_step deferred parses sch (Began name)
      (begin_run name (sch\<lparr>cron_launched := remove1 name (cron_launched sch),
                           cron_running := name # cron_running sch, cron_held := insert name (cron_held sch)\<rparr>))"
| skip: "name \<in> set (cron_launched sch) \<Longrightarrow> \<not> may_begin sch name \<Longrightarrow>
    sched_step deferred parses sch (Skipped name) (sch\<lparr>cron_launched := remove1 name (cron_launched sch)\<rparr>)"
| finish: "name \<in> set (cron_running sch) \<Longrightarrow> (result = Panics \<longrightarrow> Recover \<in> set (cron_chain sch)) \<Longrightarrow>
    sched_step deferred parses sch (Finished name result now)
      (finish_run name result now (sch\<lparr>cron_running := remove1 name (cron_running sch),
         cron_held := (if token_returns deferred (cron_chain sch) result then cron_held sch - {name} else cron_held sch)\<rparr>))"
| stop: "sched_step deferred parses sch StopCalled (begin_stop sch)"
| stopped: "sch_waiting sch \<Longrightarrow> cron_launched sch = [] \<Longrightarrow> cron_running sch = [] \<Longrightarrow>
    sched_step deferred parses sch StopReturned (sch\<lparr>sch_waiting := False\<rparr>)"

inductive sched_trace :: "bool \<Rightarrow> (string \<Rightarrow> bool) \<Rightarrow> scheduler \<Rightarrow> sched_event list \<Rightarrow> scheduler \<Rightarrow> bool"
  for deferred :: bool and parses :: "string \<Rightarrow> bool" and sch0 :: scheduler
where
  Nil: "sched_trace deferred parses sch0 [] sch0"
| Snoc: "sched_trace deferred parses sch0 evs sch \<Longrightarrow> sched_step deferred parses sch e sch' \<Longrightarrow>
    sched_trace deferred parses sch0 (e # evs) sch'"

text \<open>Events are listed newest first.\<close>

inductive_cases sched_traceE: "sched_trace deferred parses sch0 evs sch"

section \<open>What the events say\<close>

fun outcome_of :: "run_result \<Rightarrow> string" where
  "outcome_of (Returned None) = ''success''"
| "outcome_of _ = ''error''"

fun finished_as :: "string \<Rightarrow> string \<Rightarrow> sched_event \<Rightarrow> bool" where
  "finished_as n outcome (Finished m r t) = (m = n \<and> outcome_of r = outcome)"
| "finished_as n outcome _ = False"

fun finished :: "string \<Rightarrow> sched_event \<Rightarrow> bool" where
  "finished n (Finished m r t) = (m = n)"
| "finished n _ = False"

definition count :: "(sched_event \<Rightarrow> bool) \<Rightarrow> sched_event list \<Rightarrow> nat" where
  "count P evs = length (filter P evs)"

fun last_success :: "string \<Rightarrow> sched_event list \<Rightarrow> time option" where
  "last_success n [] = None"
| "last_success n (e # evs) =
     (case e of
        Finished m (Returned None) t \<Rightarrow> if m = n then Some t else last_success n evs
      | _ \<Rightarrow> last_success n evs)"

text \<open>The events that cron brings about by itself once it is stopped.\<close>

fun drain_event :: "sched_event \<Rightarrow> bool" where
  "drain_event (Began _) = True"
| "drain_event (Skipped _) = True"
| "drain_event (Finished _ _ _) = True"
| "drain_event StopReturned = True"
| "drain_event _ = False"

definition pending :: "scheduler \<Rightarrow> nat" where
  "pending sch =
     2 * length (cron_launched sch) + length (cron_running sch) + (if sch_waiting sch then 1 else 0)"

lemma event_count_simps [simp]: "count P [] = 0" "count P (e # evs) = (if P e then Suc (count P evs) else count P evs)"
  by (simp_all add: count_def)


section \<open>Invariant\<close>

definition registered_inv :: "scheduler \<Rightarrow> bool" where
  "registered_inv sch \<longleftrightarrow>
     distinct (map fst (sch_entries sch)) \<and> sch_jobs sch = fst ` set (sch_entries sch) \<and>
     distinct (cron_running sch) \<and> set (cron_running sch) \<union> set (cron_launched sch) \<subseteq> sch_jobs sch \<and>
     set (cron_running sch) \<subseteq> cron_held sch \<and> cron_chain sch = [Recover, SkipIfStillRunning] \<and>
     sch_cancelled sch = sch_stopped sch \<and> (sch_waiting sch \<longrightarrow> sch_stopped sch)"

definition running_inv :: "sched_event list \<Rightarrow> scheduler \<Rightarrow> bool" where
  "running_inv evs sch \<longleftrightarrow>
     (\<forall>n. m_running sch n =
        (if n \<in> set (cron_running sch) then Some 1 else if 0 < count (finished n) evs then Some 0 else None)) \<and>
     (\<forall>n. count (\<lambda>e. e = Began n) evs = count (finished n) evs + (if n \<in> set (cron_running sch) then 1 else 0))"

definition counters_inv :: "sched_event list \<Rightarrow> scheduler \<Rightarrow> bool" where
  "counters_inv evs sch \<longleftrightarrow>
     (\<forall>n out. m_runs sch (n, out) = count (finished_as n out) evs) \<and>
     (\<forall>n. m_duration sch n = count (finished n) evs) \<and>
     (\<forall>n. m_last_success sch n = last_success n evs)"

lemmas operation_defs = may_begin_def Register_def begin_run_def run_deferred_def finish_run_def Start_def begin_stop_def

lemma registered_inv_step:
  "sched_step deferred parses sch e sch' \<Longrightarrow> registered_inv sch \<Longrightarrow> registered_inv sch'"
proof (induction rule: sched_step.induct)
  case (register job schedule sch res sch')
  from register have "sch' = sch \<or> (\<exists>name. name \<notin> fst ` set (sch_entries sch) \<and>
      sch' = sch\<lparr>sch_entries := sch_entries sch @ [(name, schedule)], sch_jobs := insert name (sch_jobs sch)\<rparr>)"
    by (auto simp: registered_inv_def Register_def split: option.splits if_splits)
  with register.prems show ?case
    unfolding registered_inv_def by (elim disjE exE conjE) (simp_all add: subset_insertI2)
next
  case (finish name sch result now)
  then show ?case
    by (auto simp: registered_inv_def finish_run_def run_deferred_def dest: set_mp [OF set_remove1_subset]
        split: run_result.splits option.splits)
qed (auto simp: registered_inv_def operation_defs dest: set_mp [OF set_remove1_subset])

lemma running_inv_step:
  "sched_step deferred parses sch e sch' \<Longrightarrow> registered_inv sch \<Longrightarrow> running_inv evs sch \<Longrightarrow> running_inv (e # evs) sch'"
proof (induction rule: sched_step.induct)
  case (register job schedule sch res sch')
  then show ?case
    by (auto simp: running_inv_def Register_def split: option.splits if_splits)
next
  case (finish name sch result now)
  then show ?case
    by (auto simp: running_inv_def registered_inv_def finish_run_def run_deferred_def
        split: run_result.splits option.splits if_splits)
qed (auto simp: running_inv_def registered_inv_def operation_defs)

lemma counters_inv_step:
  "sched_step deferred parses sch e sch' \<Longrightarrow> counters_inv evs sch \<Longrightarrow> counters_inv (e # evs) sch'"
proof (induction rule: sched_step.induct)
  case (register job schedule sch res sch')
  then show ?case
    by (auto simp: counters_inv_def Register_def split: option.splits if_splits)
next
  case (finish name sch result now)
  then show ?case
    by (cases result rule: outcome_of.cases)
       (auto simp: counters_inv_def finish_run_def run_deferred_def)
qed (auto simp: counters_inv_def operation_defs)

lemma sched_trace_inv:
  assumes "sched_trace deferred parses New_scheduler evs sch"
  shows "registered_inv sch" and "running_inv evs sch" and "counters_inv evs sch"
  using assms
proof (induction rule: sched_trace.induct)
  case Nil
  show "registered_inv New_scheduler" "running_inv [] New_scheduler" "counters_inv [] New_scheduler"
    by (simp_all add: New_scheduler_def registered_inv_def running_inv_def counters_inv_def)
next
  case (Snoc evs sch e sch')
  show "registered_inv sch'" by (rule registered_inv_step [OF Snoc.hyps(2) Snoc.IH(1)])
  show "running_inv (e # evs) sch'" by (rule running_inv_step [OF Snoc.hyps(2) Snoc.IH(1,2)])
  show "counters_inv (e # evs) sch'" by (rule counters_inv_step [OF Snoc.hyps(2) Snoc.IH(3)])
qed

section \<open>Draining\<close>

definition draining :: "scheduler \<Rightarrow> bool" where
  "draining sch \<longleftrightarrow> sch_started sch \<and> sch_stopped sch \<and> sch_cancelled sch \<and> \<not> cron_on sch"

lemma Suc_length_remove1: "x \<in> set xs \<Longrightarrow> length xs = Suc (length (remove1 x xs))"
  by (induction xs) auto

lemma draining_step:
  "sched_step deferred parses sch e sch' \<Longrightarrow> draining sch \<Longrightarrow>
     draining sch' \<and> (\<forall>n. e \<noteq> Launched n) \<and>
     pending sch' + (if drain_event e then 1 else 0) \<le> pending sch"
proof (induction rule: sched_step.induct)
  case (register job schedule sch res sch')
  then show ?case
    by (auto simp: draining_def pending_def Register_def split: option.splits if_splits)
next
  case (finish name sch result now)
  then show ?case
    by (cases result rule: outcome_of.cases)
       (auto simp: draining_def pending_def finish_run_def run_deferred_def dest: Suc_length_remove1)
qed (auto simp: draining_def pending_def operation_defs dest: Suc_length_remove1)

lemma draining_trace:
  "sched_trace deferred parses sch evs sch' \<Longrightarrow> draining sch \<Longrightarrow>
     draining sch' \<and> (\<forall>n. Launched n \<notin> set evs) \<and> pending sch' + count drain_event evs \<le> pending sch"
proof (induction rule: sched_trace.induct)
  case (Snoc evs sch1 e sch2)
  with draining_step [OF Snoc.hyps(2)] show ?case by fastforce
qed simp

text \<open>\<open>Stop\<close> waits until it returns, and when it returns nothing is left that could run.\<close>

definition idle :: "scheduler \<Rightarrow> bool" where
  "idle sch \<longleftrightarrow> cron_launched sch = [] \<and> cron_running sch = []"

lemma waiting_step:
  "sched_step deferred parses sch e sch' \<Longrightarrow> draining sch \<Longrightarrow>
     (sch_waiting sch' \<longleftrightarrow> sch_waiting sch \<and> e \<noteq> StopReturned) \<and>
     (e = StopReturned \<or> idle sch \<longrightarrow> idle sch') \<and>
     (\<forall>n \<in> set (cron_running sch). n \<in> set (cron_running sch') \<or> (\<exists>r t. e = Finished n r t))"
proof (induction rule: sched_step.induct)
  case (register job schedule sch res sch')
  then show ?case
    by (auto simp: draining_def idle_def Register_def split: option.splits if_splits)
next
  case (finish name sch result now)
  have "\<forall>n \<in> set (cron_running sch). n \<in> set (remove1 name (cron_running sch)) \<or> n = name" by auto
  with finish show ?case
    by (cases result rule: outcome_of.cases)
       (auto simp: draining_def idle_def finish_run_def run_deferred_def)
qed (auto simp: draining_def idle_def operation_defs)

lemma waiting_trace:
  assumes "sched_trace deferred parses sch evs sch'" and "draining sch" and "sch_waiting sch"
  shows "(sch_waiting sch' \<longleftrightarrow> StopReturned \<notin> set evs) \<and> (StopReturned \<in> set evs \<longrightarrow> idle sch') \<and>
    (\<forall>n \<in> set (cron_running sch). n \<in> set (cron_running sch') \<or> (\<exists>r t. Finished n r t \<in> set evs))"
  using assms
proof (induction rule: sched_trace.induct)
  case (Snoc evs sch1 e sch2)
  have "draining sch1" using draining_trace [OF Snoc.hyps(1)] Snoc.prems(1) by blast
  note step = waiting_step [OF Snoc.hyps(2) this] and IH = Snoc.IH [OF Snoc.prems]
  have "sch_waiting sch2 \<longleftrightarrow> StopReturned \<notin> set (e # evs)"
    using step [THEN conjunct1] IH [THEN conjunct1] by auto
  moreover have "StopReturned \<in> set (e # evs) \<longrightarrow> idle sch2"
    using step [THEN conjunct2, THEN conjunct1] IH [THEN conjunct2, THEN conjunct1] by auto
  moreover have "\<forall>n \<in> set (cron_running sch). n \<in> set (cron_running sch2) \<or> (\<exists>r t. Finished n r t \<in> set (e # evs))"
    using step [THEN conjunct2, THEN conjunct2] IH [THEN conjunct2, THEN conjunct2] by fastforce
  ultimately show ?case by (intro conjI)
qed simp

lemma waiting_progress:
  assumes "sch_waiting sch"
  shows "\<exists>e sch'. drain_event e \<and> sched_step deferred parses sch e sch'"
proof -
  consider name where "name \<in> set (cron_running sch)" | name where "name \<in> set (cron_launched sch)"
    | "cron_running sch = []" "cron_launched sch = []"
    by (cases "cron_running sch"; cases "cron_launched sch") auto
  then show ?thesis
  proof cases
    case 1
    with sched_step.finish [of name sch "Returned None"] show ?thesis by (intro exI conjI) auto
  next
    case 2
    then show ?thesis
    proof (cases "may_begin sch name")
      case True
      with 2 sched_step.begin_ [of name sch] show ?thesis by (intro exI conjI) auto
    next
      case False
      with 2 sched_step.skip [of name sch] show ?thesis by (intro exI conjI) auto
    qed
  next
    case 3
    with assms sched_step.stopped [of sch] show ?thesis by (intro exI conjI) auto
  qed
qed

section \<open>After a panic\<close>

lemma sched_trace_append:
  "sched_trace deferred parses sch0 (later @ earlier) sch \<Longrightarrow>
     \<exists>sch1. sched_trace deferred parses sch0 earlier sch1 \<and> sched_trace deferred parses sch1 later sch"
proof (induction later arbitrary: sch)
  case Nil
  then show ?case by (auto intro: sched_trace.Nil)
next
  case (Cons e later)
  from Cons.prems obtain sch2 where "sched_trace deferred parses sch0 (later @ earlier) sch2" "sched_step deferred parses sch2 e sch"
    by (auto elim: sched_traceE)
  with Cons.IH show ?case by (blast intro: sched_trace.Snoc)
qed

text \<open>A job whose token is out while it does not run is never run again.\<close>

definition locked_out :: "string \<Rightarrow> scheduler \<Rightarrow> bool" where
  "locked_out n sch \<longleftrightarrow> n \<in> cron_held sch \<and> n \<notin> set (cron_running sch) \<and> SkipIfStillRunning \<in> set (cron_chain sch)"

lemma locked_out_step:
  "sched_step deferred parses sch e sch' \<Longrightarrow> locked_out n sch \<Longrightarrow> locked_out n sch' \<and> e \<noteq> Began n \<and> \<not> finished n e"
proof (induction rule: sched_step.induct)
  case (register job schedule sch res sch')
  then show ?case by (auto simp: locked_out_def Register_def split: option.splits if_splits)
next
  case (finish name sch result now)
  then show ?case
    by (cases result rule: outcome_of.cases)
       (auto simp: locked_out_def finish_run_def run_deferred_def dest: set_mp [OF set_remove1_subset])
qed (auto simp: locked_out_def operation_defs)

lemma locked_out_trace:
  "sched_trace deferred parses sch evs sch' \<Longrightarrow> locked_out n sch \<Longrightarrow>
     locked_out n sch' \<and> Began n \<notin> set evs \<and> (\<forall>e \<in> set evs. \<not> finished n e)"
proof (induction rule: sched_trace.induct)
  case (Snoc evs sch1 e sch2)
  with locked_out_step [OF Snoc.hyps(2)] show ?case by fastforce
qed simp

end
