(* ===== verification/Jobs.thy ===== *)
theory Jobs
  imports Scheduler
begin

text \<open>
  The scheduled work: the names of the jobs (\<open>internal/jobs/*/job.go\<close>), their schedules
  (\<open>internal/game/*/cache.go\<close>, \<open>internal/jobs/schedules\<close>) and \<open>internal/jobs/register.go\<close>;
  then the properties of the scheduler.
\<close>

definition sessions_jobName :: string where
  "sessions_jobName = ''infinite-flight-sessions''"

definition liveries_jobName :: string where
  "liveries_jobName = ''infinite-flight-liveries''"

definition flights_jobName :: string where
  "flights_jobName = ''infinite-flight-flights''"

definition sessions_RefreshSchedule :: string where
  "sessions_RefreshSchedule = ''0 */5 * * * *''"

definition liveries_RefreshSchedule :: string where
  "liveries_RefreshSchedule = ''0 0 * * * *''"

definition flights_RefreshSchedule :: string where
  "flights_RefreshSchedule = ''0 * * * * *''"

definition SessionsSync :: string where
  "SessionsSync = sessions_RefreshSchedule"

definition LiveriesSync :: string where
  "LiveriesSync = liveries_RefreshSchedule"

definition FlightsSync :: string where
  "FlightsSync = flights_RefreshSchedule"

definition jobs_Register :: "(string \<Rightarrow> bool) \<Rightarrow> scheduler \<Rightarrow> (go_error + unit) \<times> scheduler" where
  "jobs_Register parses sch =
     (case Register parses (Some sessions_jobName) SessionsSync sch of
        (Inl err, sch) \<Rightarrow> (Inl err, sch)
      | (Inr _, sch) \<Rightarrow>
          (case Register parses (Some liveries_jobName) LiveriesSync sch of
             (Inl err, sch) \<Rightarrow> (Inl err, sch)
           | (Inr _, sch) \<Rightarrow> Register parses (Some flights_jobName) FlightsSync sch))"

lemma job_names_distinct:
  "sessions_jobName \<noteq> liveries_jobName" "sessions_jobName \<noteq> flights_jobName" "liveries_jobName \<noteq> flights_jobName"
  by (simp_all add: sessions_jobName_def liveries_jobName_def flights_jobName_def)

text \<open>An empty scheduler takes the three jobs exactly when cron takes their schedules.\<close>

lemma jobs_Register_fresh:
  assumes "sch_jobs sch = {}"
  shows "fst (jobs_Register parses sch) = Inr () \<longleftrightarrow> parses SessionsSync \<and> parses LiveriesSync \<and> parses FlightsSync"
    and "fst (jobs_Register parses sch) = Inr () \<Longrightarrow>
      sch_entries (snd (jobs_Register parses sch)) =
        sch_entries sch @
        [(sessions_jobName, SessionsSync), (liveries_jobName, LiveriesSync), (flights_jobName, FlightsSync)]"
  using assms job_names_distinct
  by (auto simp: jobs_Register_def Register_def split: if_splits sum.splits prod.splits)

lemma Register_started: "sch_started (snd (Register parses job schedule sch)) = sch_started sch"
  by (simp add: Register_def split: option.split)

lemma jobs_Register_started: "sch_started (snd (jobs_Register parses sch)) = sch_started sch"
proof -
  obtain r1 s1 where 1: "Register parses (Some sessions_jobName) SessionsSync sch = (r1, s1)" by fastforce
  obtain r2 s2 where 2: "Register parses (Some liveries_jobName) LiveriesSync s1 = (r2, s2)" by fastforce
  from 1 2 Register_started [of parses "Some sessions_jobName" SessionsSync sch]
    Register_started [of parses "Some liveries_jobName" LiveriesSync s1]
    Register_started [of parses "Some flights_jobName" FlightsSync s2]
  show ?thesis by (simp add: jobs_Register_def split: sum.split)
qed

text \<open>Registering jobs keeps a trace of the scheduler.\<close>

lemma jobs_Register_trace:
  "\<exists>evs. sched_trace deferred parses sch evs (snd (jobs_Register parses sch)) \<and> (\<forall>e \<in> set evs. \<exists>j s r. e = Registered j s r)"
proof -
  have step: "sched_trace deferred parses sch evs s1 \<Longrightarrow> \<forall>e \<in> set evs. \<exists>j s r. e = Registered j s r \<Longrightarrow>
      Register parses j c s1 = (r, s2) \<Longrightarrow>
      \<exists>evs. sched_trace deferred parses sch evs s2 \<and> (\<forall>e \<in> set evs. \<exists>j s r. e = Registered j s r)" for evs s1 j c r s2
    by (intro exI [of _ "Registered j c r # evs"]) (auto intro: sched_trace.Snoc sched_step.register)
  obtain r1 s1 where 1: "Register parses (Some sessions_jobName) SessionsSync sch = (r1, s1)" by fastforce
  obtain r2 s2 where 2: "Register parses (Some liveries_jobName) LiveriesSync s1 = (r2, s2)" by fastforce
  obtain r3 s3 where 3: "Register parses (Some flights_jobName) FlightsSync s2 = (r3, s3)" by fastforce
  from step [OF sched_trace.Nil _ 1] obtain e1 where t1: "sched_trace deferred parses sch e1 s1" "\<forall>e \<in> set e1. \<exists>j s r. e = Registered j s r" by auto
  from step [OF t1 2] obtain e2 where t2: "sched_trace deferred parses sch e2 s2" "\<forall>e \<in> set e2. \<exists>j s r. e = Registered j s r" by auto
  from step [OF t2 3] obtain e3 where t3: "sched_trace deferred parses sch e3 s3" "\<forall>e \<in> set e3. \<exists>j s r. e = Registered j s r" by auto
  have "snd (jobs_Register parses sch) \<in> {s1, s2, s3}"
    using 1 2 3 by (auto simp: jobs_Register_def split: sum.splits)
  with t1 t2 t3 show ?thesis by blast
qed

text \<open>The example: a job is registered, launched, begins, and panics or is stopped.\<close>

definition ex_registered :: scheduler where
  "ex_registered = Start (snd (Register (\<lambda>_. True) (Some ''a'') ''* * * * * *'' New_scheduler))"

definition ex_began :: scheduler where
  "ex_began = begin_run ''a'' (ex_registered\<lparr>cron_running := [''a''], cron_held := {''a''}\<rparr>)"

lemmas ex_scheduler_defs = ex_began_def ex_registered_def Register_def New_scheduler_def Start_def begin_run_def

lemma ex_began_trace:
  "sched_trace False (\<lambda>_. True) New_scheduler
     [Began ''a'', Launched ''a'', Started, Registered (Some ''a'') ''* * * * * *'' (Inr ())] ex_began"
proof -
  let ?ok = "\<lambda>_. True" and ?s1 = "snd (Register (\<lambda>_. True) (Some ''a'') ''* * * * * *'' New_scheduler)"
    and ?s3 = "ex_registered\<lparr>cron_launched := [''a'']\<rparr>"
  have 1: "sched_trace False ?ok New_scheduler [Registered (Some ''a'') ''* * * * * *'' (Inr ())] ?s1"
    by (rule sched_trace.Snoc [OF sched_trace.Nil sched_step.register]) (simp add: ex_scheduler_defs)
  have 2: "sched_step False ?ok ?s1 Started ex_registered" unfolding ex_registered_def by (rule sched_step.start)
  have 3: "sched_step False ?ok ex_registered (Launched ''a'') ?s3"
    using sched_step.launch [of ex_registered "''a''" False ?ok] by (simp add: ex_scheduler_defs)
  have 4: "sched_step False ?ok ?s3 (Began ''a'') ex_began"
    using sched_step.begin_ [of "''a''" ?s3 False ?ok] by (simp add: ex_scheduler_defs may_begin_def)
  from sched_trace.Snoc [OF sched_trace.Snoc [OF sched_trace.Snoc [OF 1 2] 3] 4] show ?thesis .
qed

lemma ex_panic_trace:
  "sched_trace False (\<lambda>_. True) New_scheduler
     [Finished ''a'' Panics 7, Began ''a'', Launched ''a'', Started, Registered (Some ''a'') ''* * * * * *'' (Inr ())]
     (finish_run ''a'' Panics 7 (ex_began\<lparr>cron_running := []\<rparr>))"
  using sched_trace.Snoc [OF ex_began_trace sched_step.finish [of "''a''" ex_began Panics False "\<lambda>_. True" 7]]
  by (simp add: ex_scheduler_defs token_returns_def)

section \<open>Properties\<close>

text \<open>
  C14: The job metrics tell the truth: at every moment of every execution the \<open>running\<close> gauge of a job is
  1 exactly while one run of it is under way (and no second one is), the \<open>runs\<close> counter of an outcome
  is the number of runs that ended with it, errors including panics, every run that ended was timed,
  and \<open>last_success\<close> is the time of the latest run that returned no error.
\<close>
theorem job_metrics_truthful:
  assumes "sched_trace deferred parses New_scheduler evs sch"
  shows "(m_running sch n = Some 1 \<longleftrightarrow> count (\<lambda>e. e = Began n) evs = Suc (count (finished n) evs)) \<and>
         (m_running sch n \<noteq> Some 1 \<longleftrightarrow> count (\<lambda>e. e = Began n) evs = count (finished n) evs) \<and>
         m_runs sch (n, outcome) = count (finished_as n outcome) evs \<and>
         m_runs sch (n, ''success'') + m_runs sch (n, ''error'') = m_duration sch n \<and>
         m_duration sch n = count (finished n) evs \<and>
         m_last_success sch n = last_success n evs"
proof -
  have runs: "count (finished_as n ''success'') es + count (finished_as n ''error'') es = count (finished n) es" for es
  proof (induction es)
    case (Cons e es)
    then show ?case
    proof (cases e)
      case (Finished m r t)
      with Cons show ?thesis by (cases r rule: outcome_of.cases) auto
    qed simp_all
  qed simp
  from sched_trace_inv(2,3) [OF assms] show ?thesis
    by (simp add: running_inv_def counters_inv_def runs)
qed

theorem job_metrics_truthful_witness:
  "\<exists>sch. sched_trace False (\<lambda>_. True) New_scheduler
     [Finished ''a'' Panics 7, Began ''a'', Launched ''a'', Started, Registered (Some ''a'') ''* * * * * *'' (Inr ())] sch \<and>
     m_runs sch (''a'', ''error'') = 1 \<and> m_runs sch (''a'', ''success'') = 0 \<and> m_running sch ''a'' \<noteq> Some 1"
proof -
  from job_metrics_truthful [OF ex_panic_trace, of "''a''"] ex_panic_trace show ?thesis
    by (intro exI [of _ "finish_run ''a'' Panics 7 (ex_began\<lparr>cron_running := []\<rparr>)"] conjI) simp_all
qed

text \<open>
  C13: Stopping drains: when \<open>Stop\<close> is called on a started scheduler it cancels the context of the jobs
  and waits. It returns only when no invocation is launched or under way, so every run that was under
  way has ended; until then no invocation is launched any more, whatever else happens, those already
  launched begin or are skipped and end within a number of steps fixed at that moment, and there
  always is such a step to take, so \<open>Stop\<close> returns when the jobs do.
\<close>
theorem stop_drains:
  assumes "sch_started sch" and "\<not> sch_stopped sch"
    and "sched_trace deferred parses (begin_stop sch) evs sch'"
  shows "(sch_waiting sch' \<longleftrightarrow> StopReturned \<notin> set evs) \<and> sch_cancelled sch' \<and>
         (StopReturned \<in> set evs \<longrightarrow> cron_launched sch' = [] \<and> cron_running sch' = [] \<and>
           (\<forall>n \<in> set (cron_running sch). \<exists>r t. Finished n r t \<in> set evs)) \<and>
         (\<forall>n. Launched n \<notin> set evs) \<and>
         count drain_event evs \<le> 2 * length (cron_launched sch) + length (cron_running sch) + 1 \<and>
         (StopReturned \<notin> set evs \<longrightarrow> (\<exists>e sch''. drain_event e \<and> sched_step deferred parses sch' e sch''))"
proof -
  have d: "draining (begin_stop sch)" "sch_waiting (begin_stop sch)" "cron_running (begin_stop sch) = cron_running sch"
    and p: "pending (begin_stop sch) \<le> 2 * length (cron_launched sch) + length (cron_running sch) + 1"
    using assms(1,2) by (simp_all add: draining_def pending_def begin_stop_def)
  note w = waiting_trace [OF assms(3) d(1,2)]
  have "\<forall>n \<in> set (cron_running sch). \<exists>r t. Finished n r t \<in> set evs" if "StopReturned \<in> set evs"
    using w that d(3) by (auto simp: idle_def)
  moreover have "sch_cancelled sch'" using draining_trace [OF assms(3) d(1)] by (simp add: draining_def)
  ultimately show ?thesis
    using draining_trace [OF assms(3) d(1)] p w waiting_progress [of sch'] by (auto simp: idle_def)
qed

text \<open>
  C15: After a panic the job is never run again, with a cron that does not give its token back in a
  deferred call, such as the version 3.0.1 in \<open>go.mod\<close>: \<open>New\<close> puts \<open>Recover\<close> around \<open>SkipIfStillRunning\<close>,
  so the panic passes it and takes the token along. From then on no run of that job begins, and its
  counters and the time of its last success stay as they were, whatever is launched.
\<close>
theorem panic_ends_job:
  assumes "sched_trace False parses New_scheduler (later @ Finished n Panics t # earlier) sch"
  shows "Began n \<notin> set later \<and> (\<forall>outcome. m_runs sch (n, outcome) = count (finished_as n outcome) (Finished n Panics t # earlier)) \<and>
         m_last_success sch n = last_success n earlier"
proof -
  obtain sch1 where 1: "sched_trace False parses New_scheduler (Finished n Panics t # earlier) sch1"
    and 2: "sched_trace False parses sch1 later sch"
    using sched_trace_append [OF assms] by blast
  from 1 obtain sch0 where 0: "sched_trace False parses New_scheduler earlier sch0"
    and e: "sched_step False parses sch0 (Finished n Panics t) sch1"
    by (auto elim: sched_traceE)
  have "locked_out n sch1"
    using e sched_trace_inv(1) [OF 0]
    by cases (auto simp: locked_out_def registered_inv_def finish_run_def run_deferred_def token_returns_def)
  from locked_out_trace [OF 2 this] have later: "Began n \<notin> set later" "\<forall>e \<in> set later. \<not> finished n e" by blast+
  have "\<forall>e \<in> set es. \<not> finished n e \<Longrightarrow> count (finished_as n outcome) (es @ fs) = count (finished_as n outcome) fs \<and>
      last_success n (es @ fs) = last_success n fs" for es fs outcome
  proof (induction es)
    case (Cons e es)
    then show ?case by (cases e) (auto split: run_result.split option.split)
  qed simp
  from this [OF later(2), of _ "Finished n Panics t # earlier"] sched_trace_inv(3) [OF assms] later(1)
  show ?thesis by (simp add: counters_inv_def)
qed

theorem stop_drains_witness:
  "\<exists>sch. sched_trace False (\<lambda>_. True) (begin_stop ex_began) [StopReturned, Finished ''a'' (Returned None) 7] sch \<and>
     cron_running ex_began = [''a''] \<and> cron_running sch = [] \<and> \<not> sch_waiting sch \<and> sch_waiting (begin_stop ex_began)"
proof -
  let ?s1 = "finish_run ''a'' (Returned None) 7 ((begin_stop ex_began)\<lparr>cron_running := [], cron_held := {}\<rparr>)"
  have 1: "sched_step False (\<lambda>_. True) (begin_stop ex_began) (Finished ''a'' (Returned None) 7) ?s1"
    using sched_step.finish [of "''a''" "begin_stop ex_began" "Returned None" False "\<lambda>_. True" 7]
    by (simp add: ex_scheduler_defs begin_stop_def token_returns_def)
  have 2: "sched_step False (\<lambda>_. True) ?s1 StopReturned (?s1\<lparr>sch_waiting := False\<rparr>)"
    by (rule sched_step.stopped) (simp_all add: ex_scheduler_defs begin_stop_def finish_run_def run_deferred_def)
  note trace = sched_trace.Snoc [OF sched_trace.Snoc [OF sched_trace.Nil 1] 2]
  have s: "sch_started ex_began" "\<not> sch_stopped ex_began" "cron_running ex_began = [''a'']"
    by (simp_all add: ex_scheduler_defs)
  from stop_drains [OF s(1,2) trace] stop_drains [OF s(1,2) sched_trace.Nil, of False "\<lambda>_. True"] s(3) trace
  show ?thesis by (intro exI conjI) auto
qed

theorem panic_ends_job_witness:
  "\<exists>sch. sched_trace False (\<lambda>_. True) New_scheduler ([Skipped ''a'', Launched ''a''] @ Finished ''a'' Panics 7 #
       [Began ''a'', Launched ''a'', Started, Registered (Some ''a'') ''* * * * * *'' (Inr ())]) sch \<and>
     m_runs sch (''a'', ''error'') = 1 \<and> m_runs sch (''a'', ''success'') = 0"
proof -
  let ?ok = "\<lambda>_. True" and ?s1 = "finish_run ''a'' Panics 7 (ex_began\<lparr>cron_running := []\<rparr>)"
  have 2: "sched_step False ?ok ?s1 (Launched ''a'') (?s1\<lparr>cron_launched := [''a'']\<rparr>)"
    using sched_step.launch [of ?s1 "''a''" False ?ok]
    by (simp add: ex_scheduler_defs finish_run_def run_deferred_def)
  have 3: "sched_step False ?ok (?s1\<lparr>cron_launched := [''a'']\<rparr>) (Skipped ''a'') ?s1"
    using sched_step.skip [of "''a''" "?s1\<lparr>cron_launched := [''a'']\<rparr>" False ?ok]
    by (simp add: ex_scheduler_defs finish_run_def run_deferred_def may_begin_def)
  note trace = sched_trace.Snoc [OF sched_trace.Snoc [OF ex_panic_trace 2] 3]
  then have "sched_trace False ?ok New_scheduler ([Skipped ''a'', Launched ''a''] @ Finished ''a'' Panics 7 #
       [Began ''a'', Launched ''a'', Started, Registered (Some ''a'') ''* * * * * *'' (Inr ())]) ?s1" by simp
  from panic_ends_job [OF this] this show ?thesis by (intro exI conjI) auto
qed

end
