(* ===== verification/GoDuration.thy ===== *)
theory GoDuration
  imports GoFloat
begin

text \<open>
  What the configuration and the health endpoint use of Go's library on settings and durations:
  \<open>strconv.Atoi\<close>, \<open>strconv.ParseBool\<close>, \<open>time.ParseDuration\<close>, \<open>Duration.Round\<close> and
  \<open>Duration.String\<close>. A duration is its number of nanoseconds, within 64 bits.
\<close>

section \<open>Numbers and flags\<close>

definition read_int :: "string \<Rightarrow> int" where
  "read_int s = foldl (\<lambda>a c. 10 * a + int (digit_val c)) 0 s"

definition Atoi :: "string \<Rightarrow> int option" where
  "Atoi s =
     (let neg = prefix ''-'' s;
          ds = (if prefix ''-'' s \<or> prefix ''+'' s then tl s else s);
          n = read_int ds;
          v = (if neg then - n else n)
      in if ds \<noteq> [] \<and> list_all is_digit ds \<and> in_int64 v then Some v else None)"

definition ParseBool :: "string \<Rightarrow> bool option" where
  "ParseBool s =
     (if s \<in> {''1'', ''t'', ''T'', ''TRUE'', ''true'', ''True''} then Some True
      else if s \<in> {''0'', ''f'', ''F'', ''FALSE'', ''false'', ''False''} then Some False
      else None)"

section \<open>Parsing durations\<close>

text \<open>The micro sign is U+00B5 or U+03BC in UTF-8.\<close>

definition micro_sign :: string where
  "micro_sign = [CHR 0xC2, CHR 0xB5]"

definition greek_mu :: string where
  "greek_mu = [CHR 0xCE, CHR 0xBC]"

definition unit_ns :: "string \<Rightarrow> int option" where
  "unit_ns u =
     map_of [(''ns'', 1), (''us'', 1000), (micro_sign @ ''s'', 1000), (greek_mu @ ''s'', 1000),
             (''ms'', 1000000), (''s'', 1000000000), (''m'', 60000000000), (''h'', 3600000000000)] u"

text \<open>Digits of a fraction that do not fit in 63 bits are dropped.\<close>

fun leading_fraction :: "int \<Rightarrow> int \<Rightarrow> string \<Rightarrow> int \<times> int \<times> string" where
  "leading_fraction x scale [] = (x, scale, [])"
| "leading_fraction x scale (c # cs) =
     (if \<not> is_digit c then (x, scale, c # cs)
      else if (2 ^ 63 - 1) div 10 < x then (x, scale, dropWhile is_digit cs)
      else let y = 10 * x + int (digit_val c) in
        if 2 ^ 63 < y then (x, scale, dropWhile is_digit cs) else leading_fraction y (10 * scale) cs)"

lemma leading_fraction_length: "leading_fraction x scale s = (f, sc, s') \<Longrightarrow> length s' \<le> length s"
  by (induction x scale s rule: leading_fraction.induct)
     (auto simp: Let_def length_dropWhile_le le_SucI split: if_splits)

fun magnitude :: "float64 \<Rightarrow> rat" where
  "magnitude (Fin s m) = m"
| "magnitude _ = 0"

text \<open>\<open>uint64(float64(f) * (float64(unit) / scale))\<close>.\<close>

definition fraction_ns :: "int \<Rightarrow> int \<Rightarrow> int \<Rightarrow> int" where
  "fraction_ns f u scale =
     \<lfloor>magnitude (rnd False (magnitude (rnd False (of_int f)) *
       magnitude (rnd False (of_int u / of_int scale))))\<rfloor>"

text \<open>One number with its unit: the nanoseconds and the rest.\<close>

definition duration_term :: "string \<Rightarrow> (int \<times> string) option" where
  "duration_term s =
     (let ds = takeWhile is_digit s;
          v = read_int ds;
          rest = dropWhile is_digit s;
          (f, scale, rest', frac_digits) =
            (if prefix ''.'' rest
             then (case leading_fraction 0 1 (tl rest) of (f, scale, r) \<Rightarrow> (f, scale, r, length (tl rest) \<noteq> length r))
             else (0, 1, rest, False));
          u = takeWhile (\<lambda>c. c \<noteq> CHR ''.'' \<and> \<not> is_digit c) rest';
          rest'' = dropWhile (\<lambda>c. c \<noteq> CHR ''.'' \<and> \<not> is_digit c) rest'
      in if 2 ^ 63 < v \<or> (ds = [] \<and> \<not> frac_digits) then None
         else case unit_ns u of
           None \<Rightarrow> None
         | Some ns \<Rightarrow>
             if 2 ^ 63 div ns < v then None
             else let n = v * ns + (if 0 < f then fraction_ns f ns scale else 0) in
               if 2 ^ 63 < n then None else Some (n, rest''))"

lemma duration_term_shorter: "duration_term s = Some (n, rest) \<Longrightarrow> length rest < length s"
proof -
  assume t: "duration_term s = Some (n, rest)"
  define r where "r = dropWhile is_digit s"
  have r: "length r \<le> length s" by (simp add: r_def length_dropWhile_le)
  let ?u = "\<lambda>c. c \<noteq> CHR ''.'' \<and> \<not> is_digit c"
  obtain r' where r': "length r' \<le> length r" and u: "unit_ns (takeWhile ?u r') \<noteq> None" and rest: "rest = dropWhile ?u r'"
  proof (cases "prefix ''.'' r")
    case True
    obtain f sc r' where f: "leading_fraction 0 1 (tl r) = (f, sc, r')" by (metis surj_pair)
    have "length r' \<le> length r" using leading_fraction_length [OF f] by simp
    moreover have "unit_ns (takeWhile ?u r') \<noteq> None" "rest = dropWhile ?u r'"
      using t True f by (auto simp: duration_term_def Let_def r_def [symmetric] split: if_splits option.splits)
    ultimately show thesis by (rule that)
  next
    case False
    then have "unit_ns (takeWhile ?u r) \<noteq> None" "rest = dropWhile ?u r"
      using t by (auto simp: duration_term_def Let_def r_def [symmetric] split: if_splits option.splits)
    then show thesis by (rule that [OF order_refl])
  qed
  from u have "takeWhile ?u r' \<noteq> []" by (auto simp: unit_ns_def micro_sign_def greek_mu_def split: if_splits)
  moreover have "length r' = length (takeWhile ?u r') + length rest"
    by (simp add: rest flip: length_append)
  ultimately have "length rest < length r'" by (cases "takeWhile ?u r'") simp_all
  with r r' show "length rest < length s" by simp
qed

text \<open>The sum is kept in 64 unsigned bits; each of its terms is at most \<open>2 ^ 63\<close>.\<close>

function duration_sum :: "int \<Rightarrow> string \<Rightarrow> int option" where
  "duration_sum d s =
     (if s = [] then Some d
      else case duration_term s of
        None \<Rightarrow> None
      | Some (v, rest) \<Rightarrow>
          let d = (d + v) mod 2 ^ 64 in if 2 ^ 63 < d then None else duration_sum d rest)"
  by pat_completeness auto
termination by (relation "measure (\<lambda>(d, s). length s)") (auto simp: duration_term_shorter)

declare duration_sum.simps [simp del]

definition ParseDuration :: "string \<Rightarrow> int option" where
  "ParseDuration orig =
     (let neg = prefix ''-'' orig;
          s = (if prefix ''-'' orig \<or> prefix ''+'' orig then tl orig else orig)
      in if s = ''0'' then Some 0
         else if s = '''' then None
         else case duration_sum 0 s of
           None \<Rightarrow> None
         | Some d \<Rightarrow>
             if neg then Some (- d) else if 2 ^ 63 - 1 < d then None else Some d)"

lemma duration_sum_bound: "duration_sum d s = Some n \<Longrightarrow> 0 \<le> d \<Longrightarrow> d \<le> 2 ^ 63 \<Longrightarrow> 0 \<le> n \<and> n \<le> 2 ^ 63"
proof (induction d s rule: duration_sum.induct)
  case (1 d s)
  show ?case
  proof (cases "s = []")
    case False
    with "1.prems"(1) obtain v rest where t: "duration_term s = Some (v, rest)"
      and b: "\<not> 2 ^ 63 < (d + v) mod 2 ^ 64" and r: "duration_sum ((d + v) mod 2 ^ 64) rest = Some n"
      by (subst (asm) duration_sum.simps) (auto simp: Let_def split: if_splits option.splits)
    show ?thesis by (rule "1.IH" [OF False t refl refl b r]) (use b in simp_all)
  qed (use 1 in \<open>simp add: duration_sum.simps\<close>)
qed

text \<open>A parsed duration fits in an \<open>int64\<close>.\<close>

lemma ParseDuration_range: "ParseDuration s = Some d \<Longrightarrow> in_int64 d"
  using duration_sum_bound [of 0 "if prefix ''-'' s \<or> prefix ''+'' s then tl s else s"]
  by (auto simp: ParseDuration_def Let_def in_int64_def split: if_splits option.splits)

section \<open>Printing durations\<close>

definition Duration_Round :: "int \<Rightarrow> int \<Rightarrow> int" where
  "Duration_Round d m =
     (if m \<le> 0 then d
      else let r = \<bar>d\<bar> mod m in
        if d < 0
        then (if r + r < m then d + r
              else let d1 = d - m + r in if - (2 ^ 63) \<le> d1 then d1 else - (2 ^ 63))
        else (if r + r < m then d - r
              else let d1 = d + m - r in if d1 < 2 ^ 63 then d1 else 2 ^ 63 - 1))"

text \<open>A fraction of the given number of digits, without trailing zeros.\<close>

definition fmt_frac :: "nat \<Rightarrow> nat \<Rightarrow> string" where
  "fmt_frac prec v =
     (let ds = rev (dropWhile (\<lambda>c. c = CHR ''0'') (rev (show_fixed prec v)))
      in if ds = [] then [] else CHR ''.'' # ds)"

definition Duration_String :: "int \<Rightarrow> string" where
  "Duration_String d =
     (let u = nat \<bar>d\<bar>; secs = u div 1000000000; mins = secs div 60; hours = mins div 60 in
      (if d < 0 then ''-'' else []) @
      (if u = 0 then ''0s''
       else if u < 1000 then show_nat u @ ''ns''
       else if u < 1000000 then show_nat (u div 1000) @ fmt_frac 3 u @ micro_sign @ ''s''
       else if u < 1000000000 then show_nat (u div 1000000) @ fmt_frac 6 u @ ''ms''
       else
         (if 0 < hours then show_nat hours @ ''h'' else []) @
         (if 0 < mins then show_nat (mins mod 60) @ ''m'' else []) @
         show_nat (secs mod 60) @ fmt_frac 9 u @ ''s''))"

end
