(* ===== verification/GoUrl.thy ===== *)
theory GoUrl
  imports Http
begin

text \<open>
  What the configuration uses of \<open>net/url\<close> and \<open>net\<close>: the scheme and the host that
  \<open>url.ParseRequestURI\<close> finds, the escaping of \<open>url.UserPassword\<close>, and \<open>net.JoinHostPort\<close>. What a
  release of Go accepts between the brackets of an IP literal is a parameter. Only whether the host
  is empty matters to the program, so it is given as written, before unescaping.
\<close>

section \<open>Escapes\<close>

text \<open>The escapes of user names and passwords.\<close>

definition user_safe :: "char \<Rightarrow> bool" where
  "user_safe c \<longleftrightarrow> query_safe c \<or> c \<in> set ''$&+,;=''"

definition percent :: "char \<Rightarrow> string" where
  "percent c = [CHR ''%'', upper_hex (of_char c div 16), upper_hex (of_char c mod 16)]"

definition user_escape :: "string \<Rightarrow> string" where
  "user_escape s = concat (map (\<lambda>c. if user_safe c then [c] else percent c) s)"

text \<open>\<open>url.UserPassword(user, password).String()\<close>.\<close>

definition userinfo :: "string \<Rightarrow> string \<Rightarrow> string" where
  "userinfo name password = user_escape name @ '':'' @ user_escape password"

fun unescape :: "string \<Rightarrow> string option" where
  "unescape [] = Some []"
| "unescape (c # s) =
     (if c = CHR ''%''
      then (case s of
              a # b # r \<Rightarrow>
                (case (hex_val a, hex_val b) of
                   (Some h, Some l) \<Rightarrow> map_option (\<lambda>t. char_of (16 * h + l) # t) (unescape r)
                 | _ \<Rightarrow> None)
            | _ \<Rightarrow> None)
      else map_option (\<lambda>t. c # t) (unescape s))"

lemma hex_val_upper: "n < 16 \<Longrightarrow> hex_val (upper_hex n) = Some n"
  by (simp add: hex_val_def upper_hex_def Let_def)

lemma unescape_percent: "unescape (percent c @ s) = map_option (\<lambda>t. c # t) (unescape s)"
proof -
  have "(of_char c :: nat) div 16 < 16"
    by (rule less_mult_imp_div_less) (use of_char_less [of c] in simp)
  then show ?thesis
    by (simp add: percent_def hex_val_upper)
qed

lemma user_safe_not_percent: "user_safe c \<Longrightarrow> c \<noteq> CHR ''%''"
  by (auto simp: user_safe_def query_safe_def)

lemma unescape_user_escape [simp]: "unescape (user_escape s) = Some s"
proof (induction s)
  case (Cons c s)
  then show ?case
    using unescape_percent [of c "user_escape s"] user_safe_not_percent [of c]
    by (auto simp: user_escape_def)
qed (simp add: user_escape_def)

lemma upper_hex_plain: "n < 16 \<Longrightarrow> query_safe (upper_hex n)"
  by (simp add: query_safe_def upper_hex_def Let_def)

lemma user_escape_chars: "d \<in> set (user_escape s) \<Longrightarrow> user_safe d \<or> d = CHR ''%''"
proof -
  have "(of_char c :: nat) div 16 < 16" for c
    by (rule less_mult_imp_div_less) (use of_char_less [of c] in simp)
  then have "query_safe (upper_hex (of_char c div 16))" "query_safe (upper_hex (of_char c mod 16))" for c
    by (simp_all add: upper_hex_plain)
  then show "d \<in> set (user_escape s) \<Longrightarrow> user_safe d \<or> d = CHR ''%''"
    by (auto simp: user_escape_def percent_def user_safe_def split: if_splits)
qed

lemma user_escape_separators:
  "c \<in> set '':@/?#'' \<Longrightarrow> c \<notin> set (user_escape s)"
  by (auto dest!: user_escape_chars simp: user_safe_def query_safe_def)

section \<open>Request URIs\<close>

definition is_letter :: "char \<Rightarrow> bool" where
  "is_letter c = (let n = (of_char c :: nat) in (65 \<le> n \<and> n \<le> 90) \<or> (97 \<le> n \<and> n \<le> 122))"

text \<open>\<open>getScheme\<close>: \<open>None\<close> when the scheme is missing before a colon.\<close>

definition getScheme :: "string \<Rightarrow> (string \<times> string) option" where
  "getScheme url =
     (let p = takeWhile (\<lambda>c. is_letter c \<or> is_digit c \<or> c \<in> set ''+-.'') url; rest = drop (length p) url in
      if p \<noteq> [] \<and> \<not> is_letter (hd p) then Some ('''', url)
      else if rest = [] \<or> hd rest \<noteq> CHR '':'' then Some ('''', url)
      else if p = [] then None
      else Some (p, tl rest))"

definition validOptionalPort :: "string \<Rightarrow> bool" where
  "validOptionalPort p \<longleftrightarrow> p = '''' \<or> (hd p = CHR '':'' \<and> list_all is_digit (tl p))"

text \<open>The part from the last occurrence of a character on, and the part before it.\<close>

definition cut_last :: "char \<Rightarrow> string \<Rightarrow> string \<times> string" where
  "cut_last c s =
     (let after = rev (takeWhile (\<lambda>x. x \<noteq> c) (rev s)) in
      if c \<in> set s then (take (length s - Suc (length after)) s, after) else (s, ''''))"

fun host_escapes_ok :: "string \<Rightarrow> bool" where
  "host_escapes_ok [] = True"
| "host_escapes_ok (c # s) =
     (if c = CHR ''%''
      then (case s of
              a # b # r \<Rightarrow>
                (case (hex_val a, hex_val b) of
                   (Some h, Some l) \<Rightarrow> (8 \<le> h \<or> (a = CHR ''2'' \<and> b = CHR ''5'')) \<and> host_escapes_ok r
                 | _ \<Rightarrow> False)
            | _ \<Rightarrow> False)
      else (128 \<le> (of_char c :: nat) \<or> query_safe c \<or> c \<in> set ''!$&()*+,;=:[]<>'' \<or>
            c = CHR 0x27 \<or> c = CHR 0x22) \<and> host_escapes_ok s)"

definition parseHost :: "(string \<Rightarrow> bool) \<Rightarrow> string \<Rightarrow> string option" where
  "parseHost ip_literal host =
     (if prefix ''['' host
      then if CHR '']'' \<in> set host \<and> validOptionalPort (snd (cut_last CHR '']'' host)) \<and> ip_literal host
           then Some host else None
      else if (CHR '':'' \<in> set host \<longrightarrow> validOptionalPort (CHR '':'' # snd (cut_last CHR '':'' host))) \<and>
              host_escapes_ok host
           then Some host else None)"

definition validUserinfo :: "string \<Rightarrow> bool" where
  "validUserinfo s =
     list_all (\<lambda>c. query_safe c \<or> c \<in> set '':!$&()*+,;=%@'' \<or> c = CHR 0x27) s"

definition parseAuthority :: "(string \<Rightarrow> bool) \<Rightarrow> string \<Rightarrow> string option" where
  "parseAuthority ip_literal authority =
     (if CHR ''@'' \<notin> set authority then parseHost ip_literal authority
      else let (info, host) = cut_last CHR ''@'' authority in
        if validUserinfo info \<and> escapes_ok info then parseHost ip_literal host else None)"

text \<open>\<open>url.ParseRequestURI\<close>: the scheme and the host, empty when absent.\<close>

definition ParseRequestURI :: "(string \<Rightarrow> bool) \<Rightarrow> string \<Rightarrow> (string \<times> string) option" where
  "ParseRequestURI ip_literal url =
     (if \<not> list_all (\<lambda>c. 32 \<le> (of_char c :: nat) \<and> (of_char c :: nat) \<noteq> 127) url \<or> url = '''' then None
      else if url = ''*'' then Some ('''', '''')
      else case getScheme url of
        None \<Rightarrow> None
      | Some (scheme, rest) \<Rightarrow>
          let scheme = map ascii_lower scheme; rest = fst (cut_at CHR ''?'' rest) in
          if \<not> prefix ''/'' rest then (if scheme \<noteq> '''' then Some (scheme, '''') else None)
          else if scheme \<noteq> '''' \<and> prefix ''//'' rest
          then let (authority, p) = cut_at CHR ''/'' (drop 2 rest) in
            (case parseAuthority ip_literal authority of
               None \<Rightarrow> None
             | Some host \<Rightarrow> if escapes_ok p then Some (scheme, host) else None)
          else if escapes_ok rest then Some (scheme, '''') else None)"

definition absolute_url :: "(string \<Rightarrow> bool) \<Rightarrow> string \<Rightarrow> bool" where
  "absolute_url ip_literal url =
     (case ParseRequestURI ip_literal url of
        None \<Rightarrow> False | Some (scheme, host) \<Rightarrow> scheme \<noteq> '''' \<and> host \<noteq> '''')"

section \<open>Addresses\<close>

definition JoinHostPort :: "string \<Rightarrow> string \<Rightarrow> string" where
  "JoinHostPort host port =
     (if CHR '':'' \<in> set host then ''['' @ host @ '']:'' @ port else host @ '':'' @ port)"

end
