(* ===== verification/Config.thy ===== *)
theory Config
  imports GoUrl GoDuration
begin

text \<open>
  \<open>internal/config/config.go\<close>: the settings read from the environment and from secret files, and the
  checks of \<open>Load\<close>. The environment is a function from names to values, empty when unset; reading a
  file is a parameter.
\<close>

section \<open>The configuration\<close>

record http_config =
  http_port :: string
  http_origins :: "string list"
  http_read_timeout :: duration
  http_write_timeout :: duration
  http_idle_timeout :: duration
  http_shutdown_timeout :: duration

record database_config =
  db_url :: string
  db_ping_timeout :: duration

record redis_config =
  redis_host :: string
  redis_port :: string
  redis_password :: string
  redis_db :: int
  redis_dial_timeout :: duration
  redis_read_timeout :: duration
  redis_write_timeout :: duration
  redis_ping_timeout :: duration

record jobs_config =
  jobs_enabled :: bool

record upstream_config =
  if_base_url :: string
  if_api_key :: string
  if_request_timeout :: duration

record auth_config =
  signed_link_secret :: string
  ui_base_url :: string

record config =
  cfg_environment :: string
  cfg_http :: http_config
  cfg_database :: database_config
  cfg_redis :: redis_config
  cfg_jobs :: jobs_config
  cfg_upstream :: upstream_config
  cfg_auth :: auth_config

definition Redis_Address :: "redis_config \<Rightarrow> string" where
  "Redis_Address r = JoinHostPort (redis_host r) (redis_port r)"

section \<open>Reading settings\<close>

type_synonym environ = "string \<Rightarrow> string"
type_synonym file_reader = "string \<Rightarrow> go_error + string"

text \<open>\<open>strings.TrimRight(s, "\r\n")\<close>.\<close>

definition trim_newlines :: "string \<Rightarrow> string" where
  "trim_newlines s = rev (dropWhile (\<lambda>c. c = CHR 0x0D \<or> c = CHR 0x0A) (rev s))"

definition secret_setting :: "environ \<Rightarrow> file_reader \<Rightarrow> string \<Rightarrow> string \<Rightarrow> go_error + string" where
  "secret_setting getenv read_file key fallback =
     (let val = getenv key; path = getenv (key @ ''_FILE'') in
      if val \<noteq> '''' \<and> path \<noteq> '''' then Inl (Errorf ''cannot both be set'')
      else if path = '''' then (if val = '''' then Inr fallback else Inr val)
      else case read_file path of
        Inl err \<Rightarrow> Inl (Wrapf ''read _FILE'' err)
      | Inr contents \<Rightarrow> Inr (trim_newlines contents))"

definition env :: "environ \<Rightarrow> string \<Rightarrow> string \<Rightarrow> string" where
  "env getenv key fallback = (if getenv key \<noteq> '''' then getenv key else fallback)"

definition boolean :: "environ \<Rightarrow> string \<Rightarrow> bool \<Rightarrow> bool" where
  "boolean getenv key fallback =
     (if getenv key = '''' then fallback
      else case ParseBool (getenv key) of None \<Rightarrow> fallback | Some parsed \<Rightarrow> parsed)"

definition integer_setting :: "environ \<Rightarrow> string \<Rightarrow> int \<Rightarrow> int" where
  "integer_setting getenv key fallback =
     (if getenv key = '''' then fallback
      else case Atoi (getenv key) of None \<Rightarrow> fallback | Some parsed \<Rightarrow> parsed)"

definition duration_setting :: "environ \<Rightarrow> string \<Rightarrow> duration \<Rightarrow> duration" where
  "duration_setting getenv key fallback =
     (if getenv key = '''' then fallback
      else case ParseDuration (getenv key) of None \<Rightarrow> fallback | Some parsed \<Rightarrow> parsed)"

definition csv :: "environ \<Rightarrow> string \<Rightarrow> string list \<Rightarrow> string list" where
  "csv getenv key fallback =
     (if getenv key = '''' then fallback
      else filter (\<lambda>item. item \<noteq> '''') (map trim_space (split_on CHR '','' (getenv key))))"

definition localSignedLinkSecretHex :: string where
  "localSignedLinkSecretHex = ''0123456789abcdef0123456789abcdef0123456789abcdef0123456789abcdef''"

definition parseSignedLinkSecret :: "string \<Rightarrow> string \<Rightarrow> go_error + string" where
  "parseSignedLinkSecret raw environment =
     (let raw = trim_space raw in
      if raw = '''' \<and> environment \<noteq> ''local'' then Inl (Errorf ''SIGNED_LINK_SECRET is required'')
      else
        let raw = (if raw = '''' then localSignedLinkSecretHex else raw) in
        if length raw = 64
        then (case hex_decode raw of
                None \<Rightarrow> Inl (Wrapf ''SIGNED_LINK_SECRET must be 32 bytes or 64 hex characters'' (Errorf ''hex''))
              | Some decoded \<Rightarrow>
                  if length decoded \<noteq> 32
                  then Inl (Errorf ''SIGNED_LINK_SECRET must be 32 bytes or 64 hex characters'')
                  else Inr decoded)
        else if length raw = 32 then Inr raw
        else Inl (Errorf ''SIGNED_LINK_SECRET must be 32 bytes or 64 hex characters''))"

definition databaseURL :: "environ \<Rightarrow> string \<Rightarrow> string \<Rightarrow> string" where
  "databaseURL getenv override password =
     (if override \<noteq> '''' then override
      else ''postgres://'' @ userinfo (env getenv ''PG_USER'' ''ieuser'') password @ ''@'' @
        env getenv ''PG_HOST'' ''localhost'' @ '':'' @ env getenv ''PG_PORT'' ''5432'' @ ''/'' @
        env getenv ''PG_DB'' ''politburo_next'' @ ''?sslmode=disable'')"

section \<open>Loading\<close>

text \<open>\<open>if err != nil { return Config{}, err }\<close>.\<close>

definition and_then :: "go_error + 'a \<Rightarrow> ('a \<Rightarrow> go_error + 'b) \<Rightarrow> go_error + 'b" where
  "and_then r f = (case r of Inl err \<Rightarrow> Inl err | Inr v \<Rightarrow> f v)"

lemma and_then_simps [simp]: "and_then (Inl err) f = Inl err" "and_then (Inr v) f = f v"
  by (simp_all add: and_then_def)

lemma and_then_Inr: "and_then r f = Inr y \<longleftrightarrow> (\<exists>v. r = Inr v \<and> f v = Inr y)"
  by (cases r) simp_all

definition seconds :: "int \<Rightarrow> duration" where
  "seconds n = n * sec_ns"

definition settings ::
  "environ \<Rightarrow> string \<Rightarrow> string \<Rightarrow> string \<Rightarrow> string \<Rightarrow> string \<Rightarrow> string \<Rightarrow> string \<Rightarrow> config"
where
  "settings getenv environment databaseURLOverride postgresPassword redisPassword apiKey parsedSecret uiBaseURL =
     \<lparr>cfg_environment = environment,
      cfg_http =
        \<lparr>http_port = env getenv ''PORT'' ''8082'',
         http_origins = csv getenv ''CORS_ALLOWED_ORIGINS'' [''http://localhost:8081'', ''http://127.0.0.1:8081''],
         http_read_timeout = duration_setting getenv ''HTTP_READ_TIMEOUT'' (seconds 15),
         http_write_timeout = duration_setting getenv ''HTTP_WRITE_TIMEOUT'' (seconds 15),
         http_idle_timeout = duration_setting getenv ''HTTP_IDLE_TIMEOUT'' (seconds 60),
         http_shutdown_timeout = duration_setting getenv ''HTTP_SHUTDOWN_TIMEOUT'' (seconds 30)\<rparr>,
      cfg_database =
        \<lparr>db_url = databaseURL getenv databaseURLOverride postgresPassword,
         db_ping_timeout = duration_setting getenv ''DB_PING_TIMEOUT'' (seconds 5)\<rparr>,
      cfg_redis =
        \<lparr>redis_host = env getenv ''REDIS_HOST'' ''localhost'',
         redis_port = env getenv ''REDIS_PORT'' ''6379'',
         redis_password = redisPassword,
         redis_db = integer_setting getenv ''REDIS_DB'' 0,
         redis_dial_timeout = duration_setting getenv ''REDIS_DIAL_TIMEOUT'' (seconds 5),
         redis_read_timeout = duration_setting getenv ''REDIS_READ_TIMEOUT'' (seconds 3),
         redis_write_timeout = duration_setting getenv ''REDIS_WRITE_TIMEOUT'' (seconds 3),
         redis_ping_timeout = duration_setting getenv ''REDIS_PING_TIMEOUT'' (seconds 5)\<rparr>,
      cfg_jobs = \<lparr>jobs_enabled = boolean getenv ''JOBS_ENABLED'' False\<rparr>,
      cfg_upstream =
        \<lparr>if_base_url = env getenv ''IF_API_BASE_URL'' ''https://api.infiniteflight.com/public/v2'',
         if_api_key = apiKey,
         if_request_timeout = duration_setting getenv ''IF_API_REQUEST_TIMEOUT'' (seconds 15)\<rparr>,
      cfg_auth = \<lparr>signed_link_secret = parsedSecret, ui_base_url = uiBaseURL\<rparr>\<rparr>"

definition validate_settings :: "(string \<Rightarrow> bool) \<Rightarrow> config \<Rightarrow> go_error + config" where
  "validate_settings ip_literal cfg =
     (if Atoi (http_port (cfg_http cfg)) = None then Inl (Wrapf ''PORT must be numeric'' (Errorf ''atoi''))
      else if db_url (cfg_database cfg) = '''' then Inl (Errorf ''database URL is empty'')
      else if Atoi (redis_port (cfg_redis cfg)) = None then Inl (Wrapf ''REDIS_PORT must be numeric'' (Errorf ''atoi''))
      else if redis_db (cfg_redis cfg) < 0 then Inl (Errorf ''REDIS_DB must be non-negative'')
      else if \<not> absolute_url ip_literal (if_base_url (cfg_upstream cfg))
      then Inl (Errorf ''IF_API_BASE_URL must be an absolute URL'')
      else if jobs_enabled (cfg_jobs cfg) \<and> if_api_key (cfg_upstream cfg) = ''''
      then Inl (Errorf ''IF_API_KEY is required when JOBS_ENABLED=true'')
      else Inr cfg)"

definition Load :: "(string \<Rightarrow> bool) \<Rightarrow> environ \<Rightarrow> file_reader \<Rightarrow> go_error + config" where
  "Load ip_literal getenv read_file =
     and_then (secret_setting getenv read_file ''DATABASE_URL'' '''') (\<lambda>databaseURLOverride.
     and_then (secret_setting getenv read_file ''PG_PASSWORD'' ''iepass'') (\<lambda>postgresPassword.
     and_then (secret_setting getenv read_file ''REDIS_PASSWORD'' '''') (\<lambda>redisPassword.
     and_then (secret_setting getenv read_file ''IF_API_KEY'' '''') (\<lambda>apiKey.
     and_then (secret_setting getenv read_file ''SIGNED_LINK_SECRET'' '''') (\<lambda>signedLinkSecret.
       let environment = env getenv ''APP_ENV'' ''local'' in
       and_then (parseSignedLinkSecret signedLinkSecret environment) (\<lambda>parsedSecret.
         let uiBaseURL = trim_right_slash (env getenv ''UI_BASE_URL'' ''http://localhost:8082'') in
         if \<not> absolute_url ip_literal uiBaseURL then Inl (Errorf ''UI_BASE_URL must be an absolute URL'')
         else validate_settings ip_literal
           (settings getenv environment databaseURLOverride postgresPassword redisPassword apiKey parsedSecret uiBaseURL)))))))"


section \<open>Well-formed configurations\<close>

definition timeouts :: "config \<Rightarrow> duration list" where
  "timeouts cfg =
     [http_read_timeout (cfg_http cfg), http_write_timeout (cfg_http cfg), http_idle_timeout (cfg_http cfg),
      http_shutdown_timeout (cfg_http cfg), db_ping_timeout (cfg_database cfg),
      redis_dial_timeout (cfg_redis cfg), redis_read_timeout (cfg_redis cfg),
      redis_write_timeout (cfg_redis cfg), redis_ping_timeout (cfg_redis cfg),
      if_request_timeout (cfg_upstream cfg)]"

definition config_ok :: "(string \<Rightarrow> bool) \<Rightarrow> config \<Rightarrow> bool" where
  "config_ok ip_literal cfg \<longleftrightarrow>
     length (signed_link_secret (cfg_auth cfg)) = 32 \<and>
     absolute_url ip_literal (ui_base_url (cfg_auth cfg)) \<and> last (ui_base_url (cfg_auth cfg)) \<noteq> CHR ''/'' \<and>
     Atoi (http_port (cfg_http cfg)) \<noteq> None \<and> Atoi (redis_port (cfg_redis cfg)) \<noteq> None \<and>
     db_url (cfg_database cfg) \<noteq> '''' \<and> 0 \<le> redis_db (cfg_redis cfg) \<and> in_int64 (redis_db (cfg_redis cfg)) \<and>
     absolute_url ip_literal (if_base_url (cfg_upstream cfg)) \<and>
     (jobs_enabled (cfg_jobs cfg) \<longrightarrow> if_api_key (cfg_upstream cfg) \<noteq> '''') \<and>
     list_all in_int64 (timeouts cfg)"

lemma parseSignedLinkSecret_length: "parseSignedLinkSecret raw e = Inr s \<Longrightarrow> length s = 32"
  by (auto simp: parseSignedLinkSecret_def Let_def split: if_splits option.splits)

lemma Atoi_range: "Atoi s = Some n \<Longrightarrow> in_int64 n"
  by (auto simp: Atoi_def Let_def split: if_splits)

lemma integer_setting_range: "in_int64 fallback \<Longrightarrow> in_int64 (integer_setting getenv key fallback)"
  by (auto simp: integer_setting_def intro: Atoi_range split: option.splits)

lemma duration_setting_range: "in_int64 fallback \<Longrightarrow> in_int64 (duration_setting getenv key fallback)"
  by (auto simp: duration_setting_def intro: ParseDuration_range split: option.splits)

lemma absolute_url_nonempty: "absolute_url ip_literal url \<Longrightarrow> url \<noteq> ''''"
  by (auto simp: absolute_url_def ParseRequestURI_def)

lemma seconds_range: "0 \<le> n \<Longrightarrow> n \<le> 60 \<Longrightarrow> in_int64 (seconds n)"
  by (simp add: seconds_def sec_ns_def in_int64_def)

lemma settings_timeouts:
  "list_all in_int64 (timeouts (settings getenv e db p r k s u))"
  by (simp add: timeouts_def settings_def duration_setting_range seconds_range)

lemma Load_cases:
  assumes "Load ip_literal getenv read_file = Inr cfg"
  obtains db p r k raw s where
    "secret_setting getenv read_file ''DATABASE_URL'' '''' = Inr db"
    "secret_setting getenv read_file ''PG_PASSWORD'' ''iepass'' = Inr p"
    "secret_setting getenv read_file ''REDIS_PASSWORD'' '''' = Inr r"
    "secret_setting getenv read_file ''IF_API_KEY'' '''' = Inr k"
    "secret_setting getenv read_file ''SIGNED_LINK_SECRET'' '''' = Inr raw"
    "parseSignedLinkSecret raw (env getenv ''APP_ENV'' ''local'') = Inr s"
    "absolute_url ip_literal (trim_right_slash (env getenv ''UI_BASE_URL'' ''http://localhost:8082''))"
    "validate_settings ip_literal cfg = Inr cfg"
    "cfg = settings getenv (env getenv ''APP_ENV'' ''local'') db p r k s
       (trim_right_slash (env getenv ''UI_BASE_URL'' ''http://localhost:8082''))"
proof -
  have same: "validate_settings ip_literal c = Inr d \<Longrightarrow> d = c" for c d
    by (simp add: validate_settings_def split: if_splits)
  show thesis
    using assms
    by (auto simp: Load_def and_then_Inr Let_def split: if_splits intro: that dest: same)
qed


section \<open>Properties\<close>

text \<open>
  C18: A configuration that \<open>Load\<close> returns is well formed: a secret of exactly 32 bytes, absolute URLs,
  the UI's without a trailing slash, numeric ports, a database URL, a Redis database number that is
  not negative, a key for the upstream API when jobs are enabled, and durations that fit in 64 bits.
  With its secret every login ticket can be sealed and opened again.
\<close>
theorem Load_well_formed:
  assumes "Load ip_literal getenv read_file = Inr cfg"
  shows "config_ok ip_literal cfg \<and>
    (\<forall>nonce ticketID. length nonce = NonceSize \<longrightarrow>
       (\<exists>token. encryptTicketID (signed_link_secret (cfg_auth cfg)) ticketID (Some nonce) = Inr token \<and>
                decryptTicketID (signed_link_secret (cfg_auth cfg)) token = Inr ticketID))"
proof -
  from assms obtain db p r k raw s where
    secret: "parseSignedLinkSecret raw (env getenv ''APP_ENV'' ''local'') = Inr s"
    and ui: "absolute_url ip_literal (trim_right_slash (env getenv ''UI_BASE_URL'' ''http://localhost:8082''))"
    and valid: "validate_settings ip_literal cfg = Inr cfg"
    and cfg: "cfg = settings getenv (env getenv ''APP_ENV'' ''local'') db p r k s
       (trim_right_slash (env getenv ''UI_BASE_URL'' ''http://localhost:8082''))"
    by (rule Load_cases)
  have len: "length (signed_link_secret (cfg_auth cfg)) = 32"
    using parseSignedLinkSecret_length [OF secret] by (simp add: cfg settings_def)
  have "ui_base_url (cfg_auth cfg) = trim_right_slash (env getenv ''UI_BASE_URL'' ''http://localhost:8082'')"
    by (simp add: cfg settings_def)
  with ui have "absolute_url ip_literal (ui_base_url (cfg_auth cfg))" "last (ui_base_url (cfg_auth cfg)) \<noteq> CHR ''/''"
    using trim_right_slash_end [OF absolute_url_nonempty [OF ui]] by simp_all
  moreover have "in_int64 (redis_db (cfg_redis cfg))"
    by (simp add: cfg settings_def integer_setting_range in_int64_def [of 0])
  moreover have "list_all in_int64 (timeouts cfg)" by (simp add: cfg settings_timeouts)
  ultimately have "config_ok ip_literal cfg"
    using valid len unfolding config_ok_def validate_settings_def by (simp split: if_splits)
  moreover have "\<exists>token. encryptTicketID (signed_link_secret (cfg_auth cfg)) i (Some nonce) = Inr token \<and>
      decryptTicketID (signed_link_secret (cfg_auth cfg)) token = Inr i" if "length nonce = NonceSize" for nonce i
  proof -
    have "key_ok (signed_link_secret (cfg_auth cfg))" by (simp add: key_ok_def len)
    then obtain token where "encryptTicketID (signed_link_secret (cfg_auth cfg)) i (Some nonce) = Inr token"
      by (simp add: encryptTicketID_def)
    with decrypt_encrypt [OF this that] show ?thesis by blast
  qed
  ultimately show ?thesis by blast
qed

lemmas url_defs = absolute_url_def ParseRequestURI_def getScheme_def cut_at_def cut_last_def parseAuthority_def
  parseHost_def validOptionalPort_def is_letter_def is_digit_def query_safe_def ascii_lower_def

lemma default_urls:
  "trim_right_slash ''http://localhost:8082'' = ''http://localhost:8082''"
  "absolute_url (\<lambda>_. False) ''http://localhost:8082''"
  "absolute_url (\<lambda>_. False) ''https://api.infiniteflight.com/public/v2''"
  by (simp add: trim_right_slash_def, simp add: url_defs, simp add: url_defs)

lemma default_numbers: "Atoi ''8082'' = Some 8082" "Atoi ''6379'' = Some 6379"
  by code_simp+

text \<open>The configuration of an empty environment, for development.\<close>

definition default_secret :: string where
  "default_secret = the (hex_decode localSignedLinkSecretHex)"

lemma hex_decode_total: "even (length s) \<Longrightarrow> list_all (\<lambda>c. hex_val c \<noteq> None) s \<Longrightarrow> \<exists>t. hex_decode s = Some t"
  by (induction s rule: hex_decode.induct) auto

lemma default_secret: "parseSignedLinkSecret '''' ''local'' = Inr default_secret"
proof -
  have len: "length localSignedLinkSecretHex = 64" by (simp add: localSignedLinkSecretHex_def)
  have "list_all (\<lambda>c. hex_val c \<noteq> None) localSignedLinkSecretHex"
    by (simp add: localSignedLinkSecretHex_def hex_val_def)
  with len obtain t where t: "hex_decode localSignedLinkSecretHex = Some t"
    using hex_decode_total [of localSignedLinkSecretHex] by auto
  with len length_hex_decode [OF t] show ?thesis
    by (simp add: parseSignedLinkSecret_def default_secret_def Let_def)
qed

definition default_config :: config where
  "default_config =
     settings (\<lambda>_. '''') ''local'' '''' ''iepass'' '''' '''' default_secret ''http://localhost:8082''"

lemma default_Load: "Load (\<lambda>_. False) (\<lambda>_. '''') (\<lambda>_. Inl ErrBackend) = Inr default_config"
proof -
  have "validate_settings (\<lambda>_. False) default_config = Inr default_config"
    by (simp add: default_config_def validate_settings_def settings_def env_def default_urls default_numbers
        databaseURL_def integer_setting_def boolean_def)
  then show ?thesis
    by (simp add: Load_def secret_setting_def env_def default_urls default_secret Let_def
        flip: default_config_def)
qed

theorem Load_well_formed_witness:
  "config_ok (\<lambda>_. False) default_config \<and> length (signed_link_secret (cfg_auth default_config)) = 32"
  using Load_well_formed [OF default_Load] by (simp add: config_ok_def)

text \<open>What a successful load says of the environment.\<close>

lemma secret_setting_once:
  "secret_setting getenv read_file key fallback = Inr v \<Longrightarrow> getenv key = '''' \<or> getenv (key @ ''_FILE'') = ''''"
  by (auto simp: secret_setting_def Let_def split: if_splits)

lemma secret_setting_unset:
  "secret_setting getenv read_file key fallback = Inr v \<Longrightarrow> getenv key = '''' \<Longrightarrow> getenv (key @ ''_FILE'') = '''' \<Longrightarrow>
     v = fallback"
  by (simp add: secret_setting_def)

lemma loaded_secrets_once:
  assumes "Load ip_literal getenv read_file = Inr cfg"
    and "key \<in> {''DATABASE_URL'', ''PG_PASSWORD'', ''REDIS_PASSWORD'', ''IF_API_KEY'', ''SIGNED_LINK_SECRET''}"
  shows "getenv key = '''' \<or> getenv (key @ ''_FILE'') = ''''"
  using assms by (elim Load_cases) (auto dest: secret_setting_once)

lemma loaded_local:
  assumes "Load ip_literal getenv read_file = Inr cfg"
    and "getenv ''SIGNED_LINK_SECRET'' = ''''" "getenv ''SIGNED_LINK_SECRET_FILE'' = ''''"
  shows "getenv ''APP_ENV'' \<in> {'''', ''local''}"
proof -
  obtain raw s where "secret_setting getenv read_file ''SIGNED_LINK_SECRET'' '''' = Inr raw"
    and parsed: "parseSignedLinkSecret raw (env getenv ''APP_ENV'' ''local'') = Inr s"
    using assms(1) by (rule Load_cases)
  then have "raw = ''''" using secret_setting_unset assms(2,3) by simp
  with parsed have "env getenv ''APP_ENV'' ''local'' = ''local''"
    by (simp add: parseSignedLinkSecret_def split: if_splits)
  then show ?thesis by (auto simp: env_def split: if_splits)
qed

lemma loaded_jobs_key:
  assumes "Load ip_literal getenv read_file = Inr cfg" and "ParseBool (getenv ''JOBS_ENABLED'') = Some True"
  shows "getenv ''IF_API_KEY'' \<noteq> '''' \<or> getenv ''IF_API_KEY_FILE'' \<noteq> ''''"
proof -
  obtain db p r k s ui where secret: "secret_setting getenv read_file ''IF_API_KEY'' '''' = Inr k"
    and valid: "validate_settings ip_literal cfg = Inr cfg"
    and cfg: "cfg = settings getenv (env getenv ''APP_ENV'' ''local'') db p r k s ui"
    using assms(1) by (rule Load_cases)
  have "ParseBool '''' = None" by (simp add: ParseBool_def)
  with assms(2) have "jobs_enabled (cfg_jobs cfg)" by (auto simp: cfg settings_def boolean_def)
  moreover have "jobs_enabled (cfg_jobs cfg) \<longrightarrow> if_api_key (cfg_upstream cfg) \<noteq> ''''"
    using valid by (simp add: validate_settings_def split: if_splits)
  ultimately have "k \<noteq> ''''" by (simp add: cfg settings_def)
  with secret_setting_unset [OF secret] show ?thesis by auto
qed

lemma loaded_port:
  assumes "Load ip_literal getenv read_file = Inr cfg" and "getenv ''PORT'' \<noteq> ''''"
  shows "Atoi (getenv ''PORT'') \<noteq> None"
  using assms(1)
proof (rule Load_cases)
  fix env' db p r k s ui
  assume "validate_settings ip_literal cfg = Inr cfg" and cfg: "cfg = settings getenv (env getenv ''APP_ENV'' ''local'') db p r k s
    (trim_right_slash (env getenv ''UI_BASE_URL'' ''http://localhost:8082''))"
  with assms(2) show ?thesis by (auto simp: cfg validate_settings_def settings_def env_def split: if_splits)
qed

text \<open>
  C36: \<open>Load\<close> fails closed: a secret given both in its variable and in a file, a deployment that is not
  local without a signing secret, enabled jobs without an API key, and a port that is not numeric
  are refused, whatever the other settings are.
\<close>
theorem Load_refuses:
  assumes "(key \<in> {''DATABASE_URL'', ''PG_PASSWORD'', ''REDIS_PASSWORD'', ''IF_API_KEY'', ''SIGNED_LINK_SECRET''} \<and>
            getenv key \<noteq> '''' \<and> getenv (key @ ''_FILE'') \<noteq> '''') \<or>
           (getenv ''APP_ENV'' \<notin> {'''', ''local''} \<and>
            getenv ''SIGNED_LINK_SECRET'' = '''' \<and> getenv ''SIGNED_LINK_SECRET_FILE'' = '''') \<or>
           (ParseBool (getenv ''JOBS_ENABLED'') = Some True \<and>
            getenv ''IF_API_KEY'' = '''' \<and> getenv ''IF_API_KEY_FILE'' = '''') \<or>
           (getenv ''PORT'' \<noteq> '''' \<and> Atoi (getenv ''PORT'') = None)"
  shows "\<exists>err. Load ip_literal getenv read_file = Inl err"
proof (cases "Load ip_literal getenv read_file")
  case (Inr cfg)
  from assms have False
    by (elim disjE conjE)
       (use loaded_secrets_once [OF Inr, of key] in argo, use loaded_local [OF Inr] in argo,
        use loaded_jobs_key [OF Inr] in argo, use loaded_port [OF Inr] in argo)
  then show ?thesis ..
qed simp

theorem Load_refuses_witness:
  "\<exists>err. Load (\<lambda>_. False) (\<lambda>k. if k = ''APP_ENV'' then ''production'' else '''') (\<lambda>_. Inl ErrBackend) = Inl err"
  by (rule Load_refuses [of "''''"]) simp

text \<open>
  C35: Credentials cannot break out of the database URL: in the URL built from the parts, the text up to
  the first at sign holds the user and the password, split at its first colon and read back exactly
  by unescaping, whatever characters they contain.
\<close>
theorem database_credentials_roundtrip:
  assumes "url = databaseURL getenv '''' password"
    and "info = takeWhile (\<lambda>c. c \<noteq> CHR ''@'') (drop (length ''postgres://'') url)"
  shows "prefix ''postgres://'' url \<and>
    set info \<inter> set ''/?#@'' = {} \<and>
    unescape (takeWhile (\<lambda>c. c \<noteq> CHR '':'') info) = Some (env getenv ''PG_USER'' ''ieuser'') \<and>
    unescape (drop 1 (dropWhile (\<lambda>c. c \<noteq> CHR '':'') info)) = Some password"
proof -
  let ?name = "env getenv ''PG_USER'' ''ieuser''"
  have sep: "x \<in> set (user_escape s) \<Longrightarrow> x \<noteq> CHR ''@'' \<and> x \<noteq> CHR '':'' \<and> x \<noteq> CHR ''/'' \<and> x \<noteq> CHR ''?'' \<and> x \<noteq> CHR ''#''" for x s
    using user_escape_separators [of x s] by auto
  have info: "info = user_escape ?name @ '':'' @ user_escape password"
    using assms sep by (simp add: databaseURL_def userinfo_def takeWhile_append)
  have "takeWhile (\<lambda>c. c \<noteq> CHR '':'') info = user_escape ?name"
    "dropWhile (\<lambda>c. c \<noteq> CHR '':'') info = '':'' @ user_escape password"
    using sep by (simp_all add: info takeWhile_append dropWhile_append)
  moreover have "set info \<inter> set ''/?#@'' = {}" using sep by (auto simp: info)
  ultimately show ?thesis using assms(1) by (simp add: databaseURL_def)
qed

theorem database_credentials_roundtrip_witness:
  "prefix ''postgres://'' (databaseURL (\<lambda>_. '''') '''' ''p@ss:/word?'')"
  using database_credentials_roundtrip [OF refl refl, of "\<lambda>_. ''''" "''p@ss:/word?''"] by blast

end
