(* ===== verification/Health.thy ===== *)
theory Health
  imports Http GoDuration MemRedis
begin

text \<open>
  \<open>internal/transport/http/api/health\<close>: liveness with the uptime, and readiness, which asks the
  database and then Redis. Whether the ping of the database succeeds is an argument; Redis is pinged
  through the store, which counts the outcome.
\<close>

text \<open>\<open>time.Since\<close>, which saturates.\<close>

definition since :: "time \<Rightarrow> time \<Rightarrow> duration" where
  "since now t = max (- (2 ^ 63)) (min (2 ^ 63 - 1) (now - t))"

definition liveness_body :: "time \<Rightarrow> time \<Rightarrow> json option" where
  "liveness_body startedAt now =
     jobj [enc_time ''started_at'' startedAt, enc_str ''status'' ''ok'',
       enc_str ''uptime'' (Duration_String (Duration_Round (since now startedAt) sec_ns))]"

definition GetLiveness :: "time \<Rightarrow> time \<Rightarrow> 's handler" where
  "GetLiveness startedAt now r w s = Served (WriteJSON 200 (liveness_body startedAt now) w) s"

definition readiness_body :: "string \<Rightarrow> (string \<times> string) list \<Rightarrow> json" where
  "readiness_body status services =
     JObj [(''services'', JObj (map (\<lambda>(k, v). (k, JStr v)) services)), (''status'', JStr status)]"

definition GetReadiness :: "'r redis \<Rightarrow> bool \<Rightarrow> 'r store handler" where
  "GetReadiness R db_up r w st =
     (if \<not> db_up
      then Served (WriteJSON 503 (Some (readiness_body ''not_ready'' [(''postgres'', ''down'')])) w) st
      else
        (case Ping R st of
           (Inl err, st) \<Rightarrow>
             Served (WriteJSON 503 (Some (readiness_body ''not_ready''
               [(''postgres'', ''ok''), (''redis'', ''down'')])) w) st
         | (Inr _, st) \<Rightarrow>
             Served (WriteJSON 200 (Some (readiness_body ''ready''
               [(''postgres'', ''ok''), (''redis'', ''ok'')])) w) st))"

end
