(* ===== verification/Server.thy ===== *)
theory Server
  imports Health SessionsApi FlightsApiSpec LoginApi Config
begin

text \<open>
  \<open>internal/transport/http/server.go\<close>: the parameters of the API calls, the \<open>apiHandler\<close> that passes
  them to the handlers, the site and the stack of middleware around it. The routing itself (chi and
  the generated server interface) is not code of the repository: which call a request is, with its
  parsed parameters, is the parameter \<open>route\<close>; what chi's \<open>Recoverer\<close> does is another.
\<close>

section \<open>Parameters\<close>

record flights_params =
  p_server :: string
  p_pilot_state :: "string list option"
  p_user_name :: "string option"
  p_call_sign :: "string option"

definition stringValue :: "string option \<Rightarrow> string" where
  "stringValue val = (case val of None \<Rightarrow> '''' | Some s \<Rightarrow> s)"

definition pageValue :: "gint option \<Rightarrow> gint \<Rightarrow> gint" where
  "pageValue val fallback = (case val of None \<Rightarrow> fallback | Some n \<Rightarrow> n)"

definition flightsQuery ::
  "string \<Rightarrow> string list option \<Rightarrow> string option \<Rightarrow> string option \<Rightarrow> gint \<Rightarrow> gint \<Rightarrow> flights_query"
where
  "flightsQuery serverID pilotState userName callSign pageNumber pageLength =
     (let pilotStates = (case pilotState of None \<Rightarrow> None | Some states \<Rightarrow> Some states) in
      \<lparr>q_server = serverID, q_pilot_states = pilotStates, q_user_name = stringValue userName,
       q_call_sign = stringValue callSign, q_page_number = pageNumber, q_page_length = pageLength\<rparr>)"

definition writeParameterError :: "string \<Rightarrow> writer \<Rightarrow> writer" where
  "writeParameterError err w = WriteError 400 ''INVALID_QUERY_FILTER'' err w"

section \<open>The application\<close>

text \<open>What \<open>app.App\<close> holds, and what a request draws from outside while it is served: the clock, the
  state of the database, fresh ids and random bytes.\<close>

record 'r app =
  app_config :: config
  app_started :: time
  app_redis :: "'r redis"
  app_api_keys :: "string \<Rightarrow> bool query"
  app_users :: "string \<Rightarrow> user_row query"
  app_pages :: "string \<Rightarrow> page"
  app_unicode :: "string \<Rightarrow> string"

record moment =
  at_time :: time
  at_db_up :: bool
  at_uuid :: string
  at_ticket_id :: "string option"
  at_nonce :: "string option"
  at_marker_nonces :: "nat \<Rightarrow> string option"

definition app_secret :: "'r app \<Rightarrow> string" where
  "app_secret a = signed_link_secret (cfg_auth (app_config a))"

section \<open>The API\<close>

datatype api_call =
    CallLiveness
  | CallReadiness
  | CallActiveSessions "bool option"
  | CallActiveFlights flights_params "gint option" "gint option"
  | CallTrimmedActiveFlights flights_params
  | CallActiveFlight string
  | CallSignedLink
  | BadParameter string

fun apiHandler :: "'r app \<Rightarrow> moment \<Rightarrow> api_call \<Rightarrow> 'r store handler" where
  "apiHandler a m CallLiveness = GetLiveness (app_started a) (at_time m)"
| "apiHandler a m CallReadiness = GetReadiness (app_redis a) (at_db_up m)"
| "apiHandler a m (CallActiveSessions history) = GetActiveSessions (app_redis a) history"
| "apiHandler a m (CallActiveFlights params pageNumber pageLength) =
     GetActiveFlights (app_unicode a) (app_redis a)
       (flightsQuery (p_server params) (p_pilot_state params) (p_user_name params) (p_call_sign params)
          (pageValue pageNumber DefaultPageNumber) (pageValue pageLength DefaultPageLength))"
| "apiHandler a m (CallTrimmedActiveFlights params) =
     GetTrimmedActiveFlights (app_unicode a) (app_redis a) (app_secret a) (at_marker_nonces m)
       (flightsQuery (p_server params) (p_pilot_state params) (p_user_name params) (p_call_sign params) 0 0)"
| "apiHandler a m (CallActiveFlight flightId) = GetActiveFlight (app_redis a) (app_secret a) flightId"
| "apiHandler a m CallSignedLink =
     GenerateSignedLink (app_redis a) (app_users a) (app_secret a) (ui_base_url (cfg_auth (app_config a)))
       (at_ticket_id m) (at_nonce m)"
| "apiHandler a m (BadParameter err) = (\<lambda>r w st. Served (writeParameterError err w) st)"

section \<open>The router\<close>

text \<open>Where chi sends a request: to an API call, to one of the routes of \<open>router\<close>, or elsewhere (the
  metrics page, the static files, a 404 or 405), which does not use the application.\<close>

datatype route = Api api_call | SiteLogin | SiteLogout | SiteDashboard | SiteMap | Elsewhere "writer \<Rightarrow> writer"

fun site :: "'r app \<Rightarrow> moment \<Rightarrow> (request \<Rightarrow> route) \<Rightarrow> 'r store handler" where
  "site a m route r =
     (case route r of
        Api call \<Rightarrow> apiHandler a m call r
      | SiteLogin \<Rightarrow> Login (app_redis a) (app_secret a) (app_pages a) (at_time m) (at_uuid m) r
      | SiteLogout \<Rightarrow> Logout (app_redis a) r
      | SiteDashboard \<Rightarrow> ui_gate (app_redis a) (at_time m) (Dashboard (app_pages a)) r
      | SiteMap \<Rightarrow> ui_gate (app_redis a) (at_time m) (ActiveFlightsMap (app_pages a)) r
      | Elsewhere answer \<Rightarrow> (\<lambda>w st. Served (answer w) st))"

definition router ::
  "'r app \<Rightarrow> moment \<Rightarrow> (request \<Rightarrow> route) \<Rightarrow> (request \<Rightarrow> string) \<Rightarrow>
   (http_metrics \<times> 'r store) middleware \<Rightarrow> (http_metrics \<times> 'r store) handler"
where
  "router a m route pattern recoverer =
     CORS (http_origins (cfg_http (app_config a)))
       (recoverer (AccessLog pattern (api_gate (app_redis a) (app_api_keys a) (at_time m) (site a m route))))"


section \<open>What the stack guarantees\<close>

text \<open>
  The documented behaviour of chi's \<open>Recoverer\<close>: it passes answers on, and turns a panic into a 500
  when no status has been sent.
\<close>

definition recovers :: "'s middleware \<Rightarrow> bool" where
  "recovers recoverer \<longleftrightarrow>
     (\<forall>h r w s w' s'.
        (h r w s = Served w' s' \<longrightarrow> recoverer h r w s = Served w' s') \<and>
        (h r w s = Panicked w' s' \<longrightarrow> recoverer h r w s = Served (WriteHeader 500 w') s'))"

definition chi_recoverer :: "'s middleware" where
  "chi_recoverer h r w s =
     (case h r w s of Served w' s' \<Rightarrow> Served w' s' | Panicked w' s' \<Rightarrow> Served (WriteHeader 500 w') s')"

lemma recovers_chi: "recovers chi_recoverer"
  by (simp add: recovers_def chi_recoverer_def)

definition preflight :: "request \<Rightarrow> bool" where
  "preflight r \<longleftrightarrow> get_header r ''Origin'' \<noteq> '''' \<and> rq_method r = ''OPTIONS''"

lemma CORS_passes:
  assumes "\<not> preflight r"
  obtains w' where "CORS origins next r w s = next r w' s" "w_status w' = w_status w" "w_body w' = w_body w"
proof (cases "get_header r ''Origin'' = '''' \<or> (get_header r ''Origin'' \<notin> set origins \<and> ''*'' \<notin> set origins)")
  case True
  then have "CORS origins next r w s = next r w s"
    using assms by (auto simp: CORS_def Let_def preflight_def)
  then show thesis by (rule that) simp_all
next
  case False
  show thesis
    by (rule that [of "set_header ''Access-Control-Max-Age'' ''600'' (set_header ''Access-Control-Allow-Headers''
          ''Accept, Authorization, Content-Type, X-API-Key, X-Discord-User-Id, X-Discord-Server-Id''
          (set_header ''Access-Control-Allow-Methods'' ''GET, OPTIONS''
            (set_header ''Access-Control-Allow-Origin'' (get_header r ''Origin'') (add_header ''Vary'' ''Origin'' w))))"])
       (use False assms in \<open>auto simp: CORS_def Let_def preflight_def\<close>)
qed

text \<open>A request that the gated site answers is answered so by the whole stack, and counted.\<close>

lemma router_serves:
  assumes "recovers recoverer" and "\<not> preflight r"
    and gate: "\<And>w'. w_status w' = w_status w \<Longrightarrow> w_body w' = w_body w \<Longrightarrow>
      \<exists>w2 st2. api_gate (app_redis a) (app_api_keys a) (at_time m) (site a m route) r w' st = Served w2 st2 \<and> P w' w2 st2"
  shows "\<exists>w1 w2 ms st2. router a m route pattern recoverer r w (mets, st) = Served w2 (ms, st2) \<and>
      w_status w1 = w_status w \<and> w_body w1 = w_body w \<and> P w1 w2 st2"
proof -
  obtain w1 where cors: "router a m route pattern recoverer r w (mets, st) =
      recoverer (AccessLog pattern (api_gate (app_redis a) (app_api_keys a) (at_time m) (site a m route))) r w1 (mets, st)"
    and w1: "w_status w1 = w_status w" "w_body w1 = w_body w"
    unfolding router_def by (rule CORS_passes [OF assms(2)])
  from gate [OF w1] obtain w2 st2
    where g: "api_gate (app_redis a) (app_api_keys a) (at_time m) (site a m route) r w1 st = Served w2 st2" and P: "P w1 w2 st2"
    by blast
  obtain ms where "AccessLog pattern (api_gate (app_redis a) (app_api_keys a) (at_time m) (site a m route)) r w1 (mets, st) =
      Served w2 (ms, st2)"
    by (simp add: AccessLog_def g Let_def)
  with assms(1) cors have "router a m route pattern recoverer r w (mets, st) = Served w2 (ms, st2)"
    by (simp add: recovers_def)
  with w1 P show ?thesis by blast
qed

section \<open>Properties\<close>

text \<open>
  C7: Nothing under \<open>/api/v1\<close> is served without credentials: through the whole stack, a request that is
  not a preflight, has no valid session in its cookie (or asks outside the game paths) and no
  accepted API key is answered with 401 or 500 and one JSON error, wherever the router would send it.
\<close>
theorem server_requires_credentials:
  assumes "redis_service (app_redis a) view" and "recovers recoverer"
    and "prefix ''/api/v1'' (rq_path r)" and "\<not> preflight r" and "w_status w = None"
    and "isGameAPIPath (rq_path r) \<Longrightarrow> \<forall>c. \<not> session_valid view (at_time m) st r c"
    and "request_key r \<noteq> '''' \<Longrightarrow>
      \<forall>st1 \<in> {st, snd (Service_Lookup (app_redis a) (at_time m) r st)}. \<not> key_valid view (app_api_keys a) st1 (request_key r)"
  shows "\<exists>code name msg w' ms st'. router a m route pattern recoverer r w (mets, st) = Served w' (ms, st') \<and>
    code \<in> {401, 500} \<and> w_status w' = Some code \<and> w_body w' = w_body w @ [JsonChunk (error_body name msg)]"
proof -
  let ?gate = "api_gate (app_redis a) (app_api_keys a) (at_time m) (site a m route) r"
  have "\<exists>w2 st2. ?gate w1 st = Served w2 st2 \<and> (\<exists>code name msg. code \<in> {401, 500} \<and> w2 = WriteError code name msg w1)" for w1
  proof (rule redis_service.api_gate_cases [OF assms(1,3), of "app_api_keys a" "at_time m" "site a m route" w1 st])
    fix code name msg st2
    assume "code = 401 \<or> code = 500" "?gate w1 st = Served (WriteError code name msg w1) st2"
    then show ?thesis by blast
  next
    fix c st2
    assume "isGameAPIPath (rq_path r)" "session_valid view (at_time m) st r c"
    with assms(6) show ?thesis by blast
  next
    fix s1 st2
    assume "s1 = (if isGameAPIPath (rq_path r) then snd (Service_Lookup (app_redis a) (at_time m) r st) else st)"
      and "request_key r \<noteq> ''''" "key_valid view (app_api_keys a) s1 (request_key r)"
    with assms(7) show ?thesis by (auto split: if_splits)
  qed
  then obtain w1 w2 ms st2 code name msg where
    "router a m route pattern recoverer r w (mets, st) = Served w2 (ms, st2)" "w_status w1 = w_status w"
    "w_body w1 = w_body w" "code \<in> {401, 500}" "w2 = WriteError code name msg w1"
    using router_serves [OF assms(2,4), of w a m route st
        "\<lambda>w1 w2 st2. \<exists>code name msg. code \<in> {401, 500} \<and> w2 = WriteError code name msg w1" pattern mets]
    by blast
  then show ?thesis
    using assms(5) by (intro exI [of _ code] exI [of _ name] exI [of _ msg]) (auto simp: WriteError_def WriteJSON_def)
qed

text \<open>An application on a store in memory, in the default configuration, for the examples.\<close>

definition ex_app :: "mem app" where
  "ex_app =
     \<lparr>app_config = default_config, app_started = 0, app_redis = mem_redis, app_api_keys = (\<lambda>_. NoRows),
      app_users = (\<lambda>_. NoRows), app_pages = (\<lambda>_. PageOk), app_unicode = id\<rparr>"

definition ex_moment :: moment where
  "ex_moment =
     \<lparr>at_time = sec_ns, at_db_up = True, at_uuid = ''u'', at_ticket_id = None, at_nonce = None,
      at_marker_nonces = (\<lambda>_. None)\<rparr>"

lemma ex_get_no_preflight: "\<not> preflight (ex_get p)"
  by (simp add: preflight_def)

theorem server_requires_credentials_witness:
  "\<exists>code name msg w' ms st'.
     router ex_app ex_moment (\<lambda>_. Api (CallActiveFlight ''x'')) rq_path chi_recoverer
       (ex_get ''/api/v1/game/flights'') fresh_writer (\<lparr>m_requests = \<lambda>_. 0, m_durations = \<lambda>_. 0\<rparr>, store_of mem_empty) =
     Served w' (ms, st') \<and> code \<in> {401, 500} \<and> w_status w' = Some code \<and>
     w_body w' = w_body fresh_writer @ [JsonChunk (error_body name msg)]"
proof -
  have view: "redis_service (app_redis ex_app) mem_view" by (simp add: ex_app_def mem.redis_service_axioms)
  show ?thesis
    by (rule server_requires_credentials [OF view recovers_chi _ ex_get_no_preflight])
       (simp_all add: session_valid_def)
qed

text \<open>
  Readiness is public and tells which service is down: whoever asks, the answer is 200 with both
  services ok exactly when the database and Redis answer their pings, and otherwise 503 naming the
  first of them that does not; Redis is not asked when the database is down.
\<close>
theorem readiness_reports:
  assumes "recovers recoverer" and "\<not> prefix ''/api/v1'' (rq_path r)" and "\<not> preflight r"
    and "route r = Api CallReadiness" and "w_status w = None" and "w_body w = []"
    and "db = at_db_up m" and "redis = fst (r_ping (app_redis a) (server st))"
  shows "\<exists>w' ms st'. router a m route pattern recoverer r w (mets, st) = Served w' (ms, st') \<and>
    st' = (if db then snd (Ping (app_redis a) st) else st) \<and>
    w_status w' = Some (if db \<and> redis then 200 else 503) \<and>
    w_body w' = [JsonChunk
      (if \<not> db then readiness_body ''not_ready'' [(''postgres'', ''down'')]
       else if \<not> redis then readiness_body ''not_ready'' [(''postgres'', ''ok''), (''redis'', ''down'')]
       else readiness_body ''ready'' [(''postgres'', ''ok''), (''redis'', ''ok'')])]"
proof -
  let ?P = "\<lambda>w1 w2 st2. GetReadiness (app_redis a) db r w1 st = Served w2 st2"
  have "api_gate (app_redis a) (app_api_keys a) (at_time m) (site a m route) r w1 st =
      GetReadiness (app_redis a) db r w1 st" for w1
    using assms(2,4,7) by (simp add: api_gate_def AuthenticateAPI_def)
  moreover have "\<exists>w2 st2. GetReadiness (app_redis a) db r w1 st = Served w2 st2" for w1
    by (simp add: GetReadiness_def split: prod.split sum.split)
  ultimately obtain w1 w2 ms st2 where
    "router a m route pattern recoverer r w (mets, st) = Served w2 (ms, st2)"
    "w_status w1 = None" "w_body w1 = []" "GetReadiness (app_redis a) db r w1 st = Served w2 st2"
    using router_serves [OF assms(1,3), of w a m route st ?P pattern mets] assms(5,6) by auto
  then show ?thesis
    using assms(8)
    by (cases "r_ping (app_redis a) (server st)")
       (auto simp: GetReadiness_def Ping_def Let_def WriteJSON_def split: if_splits)
qed

theorem readiness_reports_witness:
  "\<exists>w' ms st'.
     router ex_app ex_moment (\<lambda>_. Api CallReadiness) rq_path chi_recoverer
       (ex_get ''/health/ready'') fresh_writer (\<lparr>m_requests = \<lambda>_. 0, m_durations = \<lambda>_. 0\<rparr>, store_of mem_empty) =
     Served w' (ms, st') \<and> w_status w' = Some 200"
proof -
  have path: "\<not> prefix ''/api/v1'' (rq_path (ex_get ''/health/ready''))" by simp
  have up: "fst (r_ping (app_redis ex_app) (server (store_of mem_empty)))" "at_db_up ex_moment"
    by (simp_all add: ex_app_def ex_moment_def mem_redis_def mem_empty_def store_of_def)
  from readiness_reports [OF recovers_chi path ex_get_no_preflight, of "\<lambda>_. Api CallReadiness" fresh_writer
      "True" ex_moment "True" ex_app "store_of mem_empty" rq_path "\<lparr>m_requests = \<lambda>_. 0, m_durations = \<lambda>_. 0\<rparr>"] up
  show ?thesis by auto
qed

end
