(* ===== verification/Lifecycle.thy ===== *)
theory Lifecycle
  imports Config Jobs InfiniteFlight MemRedis
begin

text \<open>
  From start to exit: \<open>internal/app/app.go\<close> (\<open>New\<close> and \<open>Close\<close>), \<open>database.Open\<close>,
  \<open>cache.OpenRedis\<close>, \<open>logging.Init\<close>, \<open>ui.NewRenderer\<close>, \<open>Server.Run\<close> and \<open>cmd/politburo/main.go\<close>. The effects on handles are a log of
  events; the outcomes that the outside decides (connections, templates, listening, serving, the
  signal) are arguments. \<open>os.Exit\<close> ends the process without running deferred calls.
\<close>

datatype log_level = LevelDebug | LevelInfo

datatype life_event =
    LoggingSet log_level | DBOpened | DBClosed | CacheOpened | CacheClosed | SchedulerStarted | SchedulerStopped

record outside =
  out_db_open :: "go_error option"
  out_db_ping :: "go_error option"
  out_templates :: "go_error option"
  out_client :: "string \<Rightarrow> duration \<Rightarrow> request_editor \<Rightarrow> go_error + unit"
  out_schedule_ok :: "string \<Rightarrow> bool"
  out_listen :: "go_error option"

definition client_built :: "outside \<Rightarrow> config \<Rightarrow> bool" where
  "client_built o' cfg \<longleftrightarrow>
     (\<exists>c. out_client o' (if_base_url (cfg_upstream cfg)) (if_request_timeout (cfg_upstream cfg))
        (authorize (if_api_key (cfg_upstream cfg))) = Inr c)"

lemma client_built_iff:
  "client_built o' cfg \<longleftrightarrow>
     (\<exists>c. NewClient (out_client o') (if_base_url (cfg_upstream cfg)) (if_api_key (cfg_upstream cfg))
        (if_request_timeout (cfg_upstream cfg)) = Inr c)"
  by (auto simp: client_built_def NewClient_def newClient_def split: sum.splits)

text \<open>How serving ends: \<open>Serve\<close> returns, with \<open>None\<close> for \<open>ErrServerClosed\<close>, or a signal arrives and
  \<open>Shutdown\<close> returns.\<close>

datatype serve_end = ServeReturned "go_error option" | Signalled "go_error option"

section \<open>Logging and templates\<close>

text \<open>The level of the default logger.\<close>

definition logging_Init :: "string \<Rightarrow> log_level" where
  "logging_Init environment =
     (let level = LevelInfo;
          level = (if environment = ''local'' \<or> environment = ''development'' then LevelDebug else level)
      in level)"

text \<open>Parsing the embedded templates is \<open>html/template\<close>'s; its outcome is the argument.\<close>

definition NewRenderer :: "go_error option \<Rightarrow> go_error + unit" where
  "NewRenderer parsed = (case parsed of Some err \<Rightarrow> Inl err | None \<Rightarrow> Inr ())"

section \<open>Connections\<close>

definition database_Open :: "outside \<Rightarrow> life_event list \<Rightarrow> (go_error + unit) \<times> life_event list" where
  "database_Open o' trail =
     (case out_db_open o' of
        Some err \<Rightarrow> (Inl (Wrapf ''open postgres'' err), trail)
      | None \<Rightarrow>
          (let trail = trail @ [DBOpened] in
           case out_db_ping o' of
             Some err \<Rightarrow> (Inl (Wrapf ''ping postgres'' err), trail @ [DBClosed])
           | None \<Rightarrow> (Inr (), trail)))"

definition OpenRedis ::
  "'r redis \<Rightarrow> 'r \<Rightarrow> life_event list \<Rightarrow> (go_error + 'r store) \<times> life_event list"
where
  "OpenRedis R r trail =
     (let trail = trail @ [CacheOpened]; st = \<lparr>server = r, ops = (\<lambda>_. 0), inserts = 0\<rparr> in
      case Ping R st of
        (Inl err, st) \<Rightarrow> (Inl (Wrapf ''connect to Redis'' err), trail @ [CacheClosed])
      | (Inr _, st) \<Rightarrow> (Inr st, trail))"

section \<open>The application\<close>

record 'r application =
  ap_config :: config
  ap_started_at :: time
  ap_cache :: "'r store"
  ap_scheduler :: scheduler
  ap_closed :: bool

definition New ::
  "outside \<Rightarrow> 'r redis \<Rightarrow> 'r \<Rightarrow> time \<Rightarrow> config \<Rightarrow> life_event list \<Rightarrow>
   (go_error + 'r application) \<times> life_event list"
where
  "New o' R r now cfg trail =
     (let trail = trail @ [LoggingSet (logging_Init (cfg_environment cfg))] in
      case database_Open o' trail of
        (Inl err, trail) \<Rightarrow> (Inl err, trail)
      | (Inr _, trail) \<Rightarrow>
          (case OpenRedis R r trail of
             (Inl err, trail) \<Rightarrow> (Inl err, trail @ [DBClosed])
           | (Inr cacheStore, trail) \<Rightarrow>
               (case NewRenderer (out_templates o') of
                  Inl err \<Rightarrow> (Inl (Wrapf ''initialize UI assets'' err), trail @ [CacheClosed, DBClosed])
                | Inr _ \<Rightarrow>
                    (case NewClient (out_client o') (if_base_url (cfg_upstream cfg)) (if_api_key (cfg_upstream cfg))
                            (if_request_timeout (cfg_upstream cfg)) of
                       Inl err \<Rightarrow> (Inl err, trail @ [CacheClosed, DBClosed])
                     | Inr _ \<Rightarrow>
                         (case jobs_Register (out_schedule_ok o') New_scheduler of
                            (Inl err, _) \<Rightarrow>
                              (Inl (Wrapf ''register jobs'' err), trail @ [CacheClosed, DBClosed])
                          | (Inr _, sch) \<Rightarrow>
                              (Inr \<lparr>ap_config = cfg, ap_started_at = now, ap_cache = cacheStore,
                                    ap_scheduler = sch, ap_closed = False\<rparr>, trail))))))"

text \<open>\<open>SchedulerStopped\<close> is the return of \<open>Stop\<close>. Errors of closing are only logged.\<close>

definition Close :: "'r application \<Rightarrow> life_event list \<Rightarrow> 'r application \<times> life_event list" where
  "Close a trail =
     (if ap_closed a then (a, trail)
      else (a\<lparr>ap_closed := True, ap_scheduler := begin_stop (ap_scheduler a)\<rparr>,
            trail @ [SchedulerStopped, CacheClosed, DBClosed]))"

section \<open>Serving\<close>

definition Server_Run ::
  "outside \<Rightarrow> serve_end \<Rightarrow> 'r application \<Rightarrow> life_event list \<Rightarrow>
   go_error option \<times> 'r application \<times> life_event list"
where
  "Server_Run o' ending a trail =
     (case out_listen o' of
        Some err \<Rightarrow> (Some (Wrapf ''listen on address'' err), a, trail)
      | None \<Rightarrow>
          (let (a, trail) =
             (if jobs_enabled (cfg_jobs (ap_config a))
              then (a\<lparr>ap_scheduler := Start (ap_scheduler a)\<rparr>, trail @ [SchedulerStarted])
              else (a, trail)) in
           case ending of
             ServeReturned (Some err) \<Rightarrow> (Some err, a, trail)
           | ServeReturned None \<Rightarrow> (None, a, trail)
           | Signalled shutdown \<Rightarrow> (shutdown, a, trail)))"

text \<open>\<open>main\<close>: the exit code and what happened to the handles.\<close>

definition main_program ::
  "(string \<Rightarrow> bool) \<Rightarrow> environ \<Rightarrow> file_reader \<Rightarrow> outside \<Rightarrow> 'r redis \<Rightarrow> 'r \<Rightarrow> time \<Rightarrow> serve_end \<Rightarrow>
   nat \<times> life_event list"
where
  "main_program ip_literal getenv read_file o' R r now ending =
     (case Load ip_literal getenv read_file of
        Inl err \<Rightarrow> (1, [])
      | Inr cfg \<Rightarrow>
          (case New o' R r now cfg [] of
             (Inl err, trail) \<Rightarrow> (1, trail)
           | (Inr a, trail) \<Rightarrow>
               (case Server_Run o' ending a trail of
                  (Some err, a, trail) \<Rightarrow> (1, trail)
                | (None, a, trail) \<Rightarrow> (0, snd (Close a trail)))))"


section \<open>What happens to the handles\<close>

lemma Ping_fresh:
  "fst (Ping R \<lparr>server = r, ops = f, inserts = n\<rparr>) = (if fst (r_ping R r) then Inr () else Inl ErrBackend)"
  by (simp add: Ping_def case_prod_unfold Let_def)

abbreviation logging_of :: "config \<Rightarrow> life_event" where
  "logging_of cfg \<equiv> LoggingSet (logging_Init (cfg_environment cfg))"

lemma New_cases:
  "\<exists>l. snd (New o' R r now cfg trail) = trail @ logging_of cfg # l \<and>
     (case fst (New o' R r now cfg trail) of
        Inl err \<Rightarrow> l \<in> {[], [DBOpened, DBClosed], [DBOpened, CacheOpened, CacheClosed, DBClosed]}
      | Inr a \<Rightarrow> l = [DBOpened, CacheOpened] \<and> ap_config a = cfg \<and> \<not> ap_closed a \<and>
          jobs_Register (out_schedule_ok o') New_scheduler = (Inr (), ap_scheduler a))"
  unfolding New_def database_Open_def OpenRedis_def NewRenderer_def
  by (auto simp: Let_def split: option.split sum.split prod.split)

lemma New_ok_iff:
  "(\<exists>a. fst (New o' R r now cfg trail) = Inr a) \<longleftrightarrow>
     out_db_open o' = None \<and> out_db_ping o' = None \<and> fst (r_ping R r) \<and> out_templates o' = None \<and>
     client_built o' cfg \<and> (\<forall>s \<in> {SessionsSync, LiveriesSync, FlightsSync}. out_schedule_ok o' s)"
proof -
  have reg: "(\<exists>s. jobs_Register (out_schedule_ok o') New_scheduler = (Inr (), s)) \<longleftrightarrow>
      (\<forall>s \<in> {SessionsSync, LiveriesSync, FlightsSync}. out_schedule_ok o' s)"
    using jobs_Register_fresh(1) [of New_scheduler "out_schedule_ok o'"]
    by (cases "jobs_Register (out_schedule_ok o') New_scheduler") (auto simp: New_scheduler_def)
  obtain p st where p: "Ping R \<lparr>server = r, ops = \<lambda>_. 0, inserts = 0\<rparr> = (p, st)" by fastforce
  have "(\<exists>u. p = Inr u) \<longleftrightarrow> fst (r_ping R r)"
    using Ping_fresh [of R r "\<lambda>_. 0" 0] p by auto
  then show ?thesis
    unfolding reg [symmetric] client_built_iff
    by (auto simp: New_def database_Open_def OpenRedis_def NewRenderer_def p Let_def
        split: option.split sum.split prod.split)
qed

section \<open>Properties\<close>

text \<open>
  C20: Starting is all or nothing. The log level is set first (debug where the environment is local or
  development). Then \<open>New\<close> succeeds exactly when the database opens and answers, Redis
  answers, the templates parse, the upstream client is built from the
  configured address, timeout and bearer key, and cron takes the three schedules;
  then the database and the cache are open and the three jobs registered in order, each once. When
  it fails, every handle it had opened is closed again, the cache before the database.
\<close>
theorem New_all_or_nothing:
  "((\<exists>a. fst (New o' R r now cfg trail) = Inr a) \<longleftrightarrow>
      out_db_open o' = None \<and> out_db_ping o' = None \<and> fst (r_ping R r) \<and> out_templates o' = None \<and>
      client_built o' cfg \<and> out_schedule_ok o' SessionsSync \<and> out_schedule_ok o' LiveriesSync \<and>
      out_schedule_ok o' FlightsSync) \<and>
   (case fst (New o' R r now cfg trail) of
      Inl err \<Rightarrow> snd (New o' R r now cfg trail) \<in>
        {trail @ [logging_of cfg], trail @ [logging_of cfg, DBOpened, DBClosed],
         trail @ [logging_of cfg, DBOpened, CacheOpened, CacheClosed, DBClosed]}
    | Inr a \<Rightarrow> snd (New o' R r now cfg trail) = trail @ [logging_of cfg, DBOpened, CacheOpened] \<and>
        sch_entries (ap_scheduler a) =
          [(sessions_jobName, SessionsSync), (liveries_jobName, LiveriesSync), (flights_jobName, FlightsSync)] \<and>
        \<not> sch_started (ap_scheduler a))"
proof (rule conjI)
  show "(\<exists>a. fst (New o' R r now cfg trail) = Inr a) \<longleftrightarrow>
      out_db_open o' = None \<and> out_db_ping o' = None \<and> fst (r_ping R r) \<and> out_templates o' = None \<and>
      client_built o' cfg \<and> out_schedule_ok o' SessionsSync \<and> out_schedule_ok o' LiveriesSync \<and>
      out_schedule_ok o' FlightsSync"
    by (simp add: New_ok_iff)
next
  have entries: "jobs_Register p New_scheduler = (Inr (), sch) \<Longrightarrow>
      sch_entries sch = [(sessions_jobName, SessionsSync), (liveries_jobName, LiveriesSync), (flights_jobName, FlightsSync)] \<and>
      \<not> sch_started sch" for p sch
    using jobs_Register_fresh(2) [of New_scheduler p] jobs_Register_started [of p New_scheduler]
    by (simp add: New_scheduler_def)
  show "case fst (New o' R r now cfg trail) of
      Inl err \<Rightarrow> snd (New o' R r now cfg trail) \<in>
        {trail @ [logging_of cfg], trail @ [logging_of cfg, DBOpened, DBClosed],
         trail @ [logging_of cfg, DBOpened, CacheOpened, CacheClosed, DBClosed]}
    | Inr a \<Rightarrow> snd (New o' R r now cfg trail) = trail @ [logging_of cfg, DBOpened, CacheOpened] \<and>
        sch_entries (ap_scheduler a) =
          [(sessions_jobName, SessionsSync), (liveries_jobName, LiveriesSync), (flights_jobName, FlightsSync)] \<and>
        \<not> sch_started (ap_scheduler a)"
  proof (cases "fst (New o' R r now cfg trail)")
    case (Inl err)
    with New_cases [of o' R r now cfg trail] show ?thesis by (simp, elim exE conjE disjE) simp_all
  next
    case (Inr a)
    with New_cases [of o' R r now cfg trail]
    have "snd (New o' R r now cfg trail) = trail @ [logging_of cfg, DBOpened, CacheOpened]"
      and reg: "jobs_Register (out_schedule_ok o') New_scheduler = (Inr (), ap_scheduler a)" by simp_all
    with entries [OF reg] Inr show ?thesis by simp
  qed
qed

text \<open>
  C19: How the program ends, in every case. It exits with 0 exactly when the configuration loads, the
  application starts, the address can be listened on and serving ends without an error; then the
  scheduler was stopped and the cache and the database closed, in this order, and the jobs had been
  started exactly when they are enabled. Otherwise it exits with 1: without having done anything when
  the configuration does not load, with everything closed again that it had opened when the
  application does not start; but when listening or serving fails, nothing is stopped or closed,
  because the deferred \<open>Close\<close> does not run.
\<close>
theorem main_program_ends:
  assumes "main_program ip_literal getenv read_file o' R r now ending = (code, trail)"
  shows "(code = 0 \<longleftrightarrow> (\<exists>cfg a. Load ip_literal getenv read_file = Inr cfg \<and> fst (New o' R r now cfg []) = Inr a) \<and>
      out_listen o' = None \<and> ending \<in> {ServeReturned None, Signalled None}) \<and>
    code \<in> {0, 1} \<and>
    (case Load ip_literal getenv read_file of
       Inl err \<Rightarrow> trail = []
     | Inr cfg \<Rightarrow>
         let opened = [logging_of cfg, DBOpened, CacheOpened];
             jobs = (if jobs_enabled (cfg_jobs cfg) then [SchedulerStarted] else []) in
         case fst (New o' R r now cfg []) of
           Inl err \<Rightarrow> trail \<in> {[logging_of cfg], [logging_of cfg, DBOpened, DBClosed], opened @ [CacheClosed, DBClosed]}
         | Inr a \<Rightarrow> trail =
             (if out_listen o' \<noteq> None then opened
              else if code = 0 then opened @ jobs @ [SchedulerStopped, CacheClosed, DBClosed]
              else opened @ jobs))"
proof (cases "Load ip_literal getenv read_file")
  case (Inl err)
  with assms show ?thesis by (auto simp: main_program_def)
next
  case cfg: (Inr cfg)
  note cases = New_cases [of o' R r now cfg "[]"]
  show ?thesis
  proof (cases "fst (New o' R r now cfg [])")
    case (Inl err)
    with cfg assms have "code = 1" "trail = snd (New o' R r now cfg [])"
      by (auto simp: main_program_def split: prod.splits sum.splits)
    with cases Inl cfg show ?thesis by (auto simp: Let_def)
  next
    case (Inr a)
    with cases have "New o' R r now cfg [] = (Inr a, [logging_of cfg, DBOpened, CacheOpened])"
      and a: "ap_config a = cfg" "\<not> ap_closed a" by (auto simp: prod_eq_iff)
    then have run: "(code, trail) =
        (case Server_Run o' ending a [logging_of cfg, DBOpened, CacheOpened] of
           (Some err, a, trail) \<Rightarrow> (1, trail)
         | (None, a, trail) \<Rightarrow> (0, snd (Close a trail)))"
      using assms cfg by (simp add: main_program_def)
    show ?thesis
    proof (cases "out_listen o'")
      case (Some e)
      with run cfg Inr show ?thesis by (simp add: Server_Run_def)
    next
      case None
      consider "ending = ServeReturned None" | "ending = Signalled None"
        | e where "ending = ServeReturned (Some e)" | e where "ending = Signalled (Some e)"
        by (metis not_None_eq serve_end.exhaust)
      then show ?thesis
        using run None a cfg Inr by cases (simp_all add: Server_Run_def Close_def split: if_splits)
    qed
  qed
qed

text \<open>An outside in which everything works, and one whose port is taken.\<close>

definition ex_outside :: outside where
  "ex_outside =
     \<lparr>out_db_open = None, out_db_ping = None, out_templates = None, out_client = (\<lambda>_ _ _. Inr ()),
      out_schedule_ok = (\<lambda>_. True), out_listen = None\<rparr>"

definition port_taken :: outside where
  "port_taken = ex_outside\<lparr>out_listen := Some ErrBackend\<rparr>"

lemma ex_starts: "\<exists>a. fst (New o' mem_redis mem_empty 0 cfg []) = Inr a" if "o' = ex_outside \<or> o' = port_taken"
  unfolding New_ok_iff using that by (auto simp: ex_outside_def port_taken_def mem_redis_def client_built_def)

theorem main_program_ends_witness:
  "main_program (\<lambda>_. False) (\<lambda>_. []) (\<lambda>_. Inl ErrBackend) ex_outside mem_redis mem_empty 0 (Signalled None) =
     (0, [LoggingSet LevelDebug, DBOpened, CacheOpened, SchedulerStopped, CacheClosed, DBClosed]) \<and>
   main_program (\<lambda>_. False) (\<lambda>_. []) (\<lambda>_. Inl ErrBackend) port_taken mem_redis mem_empty 0 (Signalled None) =
     (1, [LoggingSet LevelDebug, DBOpened, CacheOpened])"
proof -
  have jobs: "\<not> jobs_enabled (cfg_jobs default_config)"
    by (simp add: default_config_def settings_def boolean_def)
  obtain a b where a: "fst (New ex_outside mem_redis mem_empty 0 default_config []) = Inr a"
      "fst (New port_taken mem_redis mem_empty 0 default_config []) = Inr b"
    using ex_starts by metis
  have log: "logging_of default_config = LoggingSet LevelDebug"
    by (simp add: default_config_def settings_def logging_Init_def)
  from main_program_ends [OF surjective_pairing, of "\<lambda>_. False" "\<lambda>_. []" "\<lambda>_. Inl ErrBackend" ex_outside mem_redis mem_empty 0 "Signalled None"]
    main_program_ends [OF surjective_pairing, of "\<lambda>_. False" "\<lambda>_. []" "\<lambda>_. Inl ErrBackend" port_taken mem_redis mem_empty 0 "Signalled None"]
  show ?thesis
    using a jobs log by (auto simp: default_Load Let_def ex_outside_def port_taken_def prod_eq_iff split: if_splits)
qed

end
