(* ===== verification/System.thy ===== *)
theory System
  imports Server FlightsJob LiveriesJob
begin

text \<open>
  The parts together: the jobs, the requests through the whole stack and the expiry of entries,
  all on one Redis. Only the jobs write the game data, so its invariants hold in every state that
  any interleaving reaches.
\<close>

section \<open>Game data\<close>

definition game_key :: "string \<Rightarrow> bool" where
  "game_key k \<longleftrightarrow>
     k \<in> {KeyActiveSessions, KeySessionNames} \<union> range KeyActiveFlights \<union> range KeyFlightHistory \<union> range KeyLivery"

lemma game_key_neq:
  "game_key k \<Longrightarrow> k \<noteq> KeyLoginTicket t" "game_key k \<Longrightarrow> k \<noteq> KeySession i" "game_key k \<Longrightarrow> k \<noteq> KeyAPIKeyStatus a"
  by (auto simp: game_key_def key_defs)

lemma game_keys [simp]:
  "game_key KeyActiveSessions" "game_key KeySessionNames" "game_key (KeyActiveFlights n)"
  "game_key (KeyFlightHistory i)" "game_key (KeyLivery l)"
  by (simp_all add: game_key_def)

text \<open>The entries of the game data are the same in two states.\<close>

definition same_game :: "('r \<Rightarrow> string \<Rightarrow> payload option) \<Rightarrow> 'r store \<Rightarrow> 'r store \<Rightarrow> bool" where
  "same_game view st st' \<longleftrightarrow> (\<forall>k. game_key k \<longrightarrow> view (server st') k = view (server st) k)"

lemma same_game_refl [simp]: "same_game view st st"
  by (simp add: same_game_def)

lemma same_game_trans: "same_game view st st1 \<Longrightarrow> same_game view st1 st2 \<Longrightarrow> same_game view st st2"
  by (simp add: same_game_def)

definition quiet :: "('r \<Rightarrow> string \<Rightarrow> payload option) \<Rightarrow> 'r store handler \<Rightarrow> bool" where
  "quiet view h \<longleftrightarrow> (\<forall>r w st. same_game view st (state_of (h r w st)))"

context redis_service
begin

lemma GetJSON_same: "GetJSON R dec k st = (res, st') \<Longrightarrow> same_game view st st'"
  by (simp add: same_game_def GetJSON_frame)

lemma SetJSON_same:
  "SetJSON R enc k v ttl st = (res, st') \<Longrightarrow> \<not> game_key k \<Longrightarrow> same_game view st st'"
  unfolding same_game_def by (metis SetJSON_other)

lemma Delete_same: "Delete R k st = (res, st') \<Longrightarrow> \<not> game_key k \<Longrightarrow> same_game view st st'"
  unfolding same_game_def by (metis Delete_other)

lemma GetDelJSON_same: "GetDelJSON R dec k st = (res, st') \<Longrightarrow> \<not> game_key k \<Longrightarrow> same_game view st st'"
  unfolding same_game_def by (metis GetDelJSON_other)

lemma other_keys [simp]:
  "\<not> game_key (KeyLoginTicket t)" "\<not> game_key (KeySession i)" "\<not> game_key (KeyAPIKeyStatus a)"
  using game_key_neq by blast+

lemma Issue_same: "Issue R secret i nonce ticket st = (res, st') \<Longrightarrow> same_game view st st'"
  by (auto simp: Issue_def Let_def split: option.splits sum.splits prod.splits dest: SetJSON_same)

lemma Consume_same: "Consume R secret token st = (res, st') \<Longrightarrow> same_game view st st'"
  by (auto simp: Consume_def split: sum.splits prod.splits dest: GetDelJSON_same)

lemma Service_Delete_same: "Service_Delete R i st = (res, st') \<Longrightarrow> same_game view st st'"
  by (auto simp: Service_Delete_def split: if_splits dest: Delete_same)

lemma Service_Create_same: "Service_Create R now uuid input st = (res, st') \<Longrightarrow> same_game view st st'"
  by (auto simp: Service_Create_def Let_def new_session_def split: sum.splits prod.splits dest: SetJSON_same)

lemma Service_Get_same:
  assumes "Service_Get R now i st = (res, st')"
  shows "same_game view st st'"
proof -
  obtain got st1 where g: "GetJSON R browser_session_of_json (KeySession i) st = (got, st1)" by fastforce
  have "st' = st1 \<or> st' = snd (Service_Delete R i st1)"
    using assms g by (auto simp: Service_Get_def split: sum.splits if_splits)
  moreover have "same_game view st1 (snd (Service_Delete R i st1))"
    by (rule Service_Delete_same [OF prod.collapse [symmetric]])
  ultimately show ?thesis using GetJSON_same [OF g] by (auto intro: same_game_trans)
qed

lemma Service_Lookup_same: "Service_Lookup R now r st = (res, st') \<Longrightarrow> same_game view st st'"
  by (auto simp: Service_Lookup_def Let_def split: if_splits sum.splits prod.splits dest: Service_Get_same)

lemma KeyLookup_same: "KeyLookup R api_keys k st = (res, st') \<Longrightarrow> same_game view st st'"
  unfolding same_game_def using KeyLookup_frame game_key_neq(3) by blast

lemma Ping_same: "Ping R st = (res, st') \<Longrightarrow> same_game view st st'"
  by (auto simp: Ping_def same_game_def Let_def split: prod.splits if_splits dest: ping_frame)

lemmas same_game_dests = GetJSON_same Issue_same Consume_same Service_Delete_same Service_Create_same
  Service_Lookup_same KeyLookup_same Ping_same

lemma contents_same: "contents st' = contents st \<Longrightarrow> same_game view st st'"
  by (simp add: same_game_def)

lemmas snapshot_reads = contents_same [OF readSnapshot_frame] contents_same [OF loadFiltered_frame]

lemma quietI: "(\<And>r w st. same_game view st (state_of (h r w st))) \<Longrightarrow> quiet view h"
  by (simp add: quiet_def)

lemma quiet_reads:
  "quiet view (GetLiveness started now)" "quiet view (GetReadiness R db)" "quiet view (GetActiveSessions R hist)"
  "quiet view (GetActiveFlight R secret token)" "quiet view (GetTrimmedActiveFlights uni R secret nonces query)"
  "quiet view (GetActiveFlights uni R query)"
  by (auto intro!: quietI dest: same_game_dests snapshot_reads
      simp: GetLiveness_def GetReadiness_def GetActiveSessions_def GetActiveFlight_def GetTrimmedActiveFlights_def
        GetActiveFlights_def Let_def split: prod.split sum.split option.split)

lemma quiet_accounts:
  "quiet view (GenerateSignedLink R users secret base tid nonce)" "quiet view (Logout R)"
  by (auto intro!: quietI Service_Delete_same [OF prod.collapse [symmetric]] dest: same_game_dests
      simp: GenerateSignedLink_def Logout_def Let_def split: prod.split sum.split option.split)

lemma quiet_Login: "quiet view (Login R secret pages now uuid)"
  by (auto intro!: quietI dest!: same_game_dests intro: same_game_trans
      simp: Login_def Let_def split: prod.split sum.split)

lemma quiet_page: "quiet view (render_page pages name)"
  by (auto intro!: quietI simp: render_page_def split: prod.split sum.split)

lemma quiet_ui_gate: "quiet view h \<Longrightarrow> quiet view (ui_gate R now h)"
  by (auto intro!: quietI dest!: same_game_dests intro: same_game_trans
      simp: ui_gate_def UISessionAuth_def quiet_def split: prod.split sum.split option.split)

lemma quiet_api_gate: "quiet view h \<Longrightarrow> quiet view (api_gate R api_keys now h)"
  by (auto intro!: quietI dest!: same_game_dests intro: same_game_trans
      simp: api_gate_def AuthenticateAPI_def quiet_def Let_def split: prod.split sum.split option.split)

lemmas quiet_handlers = quiet_reads quiet_accounts quiet_Login quiet_page

end

text \<open>Through the whole stack: no request changes the game data.\<close>

lemma quiet_site:
  assumes "redis_service (app_redis a) view"
  shows "quiet view (site a m route)"
proof -
  note quiet = redis_service.quiet_handlers [OF assms] redis_service.quiet_ui_gate [OF assms]
  have call: "quiet view (apiHandler a m call)" for call
    by (cases call) (simp_all add: quiet, simp add: quiet_def)
  show ?thesis
    using call quiet by (simp add: quiet_def Dashboard_def ActiveFlightsMap_def split: route.split)
qed

lemma state_of_AccessLog: "snd (state_of (AccessLog pattern h r w (mets, st))) = state_of (h r w st)"
  by (simp add: AccessLog_def Let_def split: served.split)

lemma state_of_recoverer: "recovers recoverer \<Longrightarrow> state_of (recoverer h r w s) = state_of (h r w s)"
  by (cases "h r w s") (auto simp: recovers_def)

lemma state_of_CORS: "state_of (CORS origins h r w s) = s \<or> (\<exists>w'. state_of (CORS origins h r w s) = state_of (h r w' s))"
  by (auto simp: CORS_def Let_def)

lemma router_same:
  assumes "redis_service (app_redis a) view" and "recovers recoverer"
  shows "same_game view st (snd (state_of (router a m route pattern recoverer r w (mets, st))))"
proof -
  let ?gate = "api_gate (app_redis a) (app_api_keys a) (at_time m) (site a m route)"
  have "quiet view ?gate"
    by (rule redis_service.quiet_api_gate [OF assms(1)]) (rule quiet_site [OF assms(1)])
  then have "same_game view st (snd (state_of (recoverer (AccessLog pattern ?gate) r w' (mets, st))))" for w'
    by (simp add: state_of_recoverer [OF assms(2)] state_of_AccessLog quiet_def)
  then show ?thesis
    unfolding router_def
    using state_of_CORS [of "http_origins (cfg_http (app_config a))" "recoverer (AccessLog pattern ?gate)" r w "(mets, st)"]
    by (metis same_game_refl snd_conv)
qed

section \<open>The system\<close>

text \<open>
  A step of the running program: a run of one of the three jobs; the refresh of one session by a
  flights job that is under way, with the liveries it has looked up so far, so that other steps come
  between the sessions of a run; a request through the whole stack; or the expiry of an entry.
  What upstream, the database and the clock answer is anything.
\<close>

inductive system_step ::
  "'r app \<Rightarrow> ('r \<Rightarrow> string \<Rightarrow> payload option) \<Rightarrow> http_metrics \<times> 'r store \<Rightarrow> http_metrics \<times> 'r store \<Rightarrow> bool"
  for a view
where
  Sessions: "sessions_Run (app_redis a) (app_unicode a) fetched now st = (res, st') \<Longrightarrow>
     system_step a view (mets, st) (mets, st')"
| Liveries: "liveries_Run (app_redis a) fetched st = (res, st') \<Longrightarrow> system_step a view (mets, st) (mets, st')"
| Flights: "flights_Run (app_redis a) oob fetch now st = (res, st') \<Longrightarrow> system_step a view (mets, st) (mets, st')"
| Refresh: "refreshSession (app_redis a) oob fetched session now liveries st = (res, liveries', st') \<Longrightarrow>
     system_step a view (mets, st) (mets, st')"
| Serve: "recovers recoverer \<Longrightarrow> router a m route pattern recoverer r w (mets, st) = Served w' (mets', st') \<Longrightarrow>
     system_step a view (mets, st) (mets', st')"
| Expire: "view (server st') = (view (server st))(k := None) \<Longrightarrow> system_step a view (mets, st) (mets, st')"

definition livery_keyed :: "('r \<Rightarrow> string \<Rightarrow> payload option) \<Rightarrow> 'r store \<Rightarrow> bool" where
  "livery_keyed view st \<longleftrightarrow> (\<forall>l v. stored view livery_of_json (KeyLivery l) st = Some v \<longrightarrow> gl_id v = l)"

definition sessions_sound :: "('r \<Rightarrow> string \<Rightarrow> payload option) \<Rightarrow> 'r store \<Rightarrow> bool" where
  "sessions_sound view st \<longleftrightarrow>
     (\<forall>s. stored view snapshot_of_json KeyActiveSessions st = Some s \<longrightarrow> snapshot_inv s)"

definition system_inv :: "('r \<Rightarrow> string \<Rightarrow> payload option) \<Rightarrow> 'r store \<Rightarrow> bool" where
  "system_inv view st \<longleftrightarrow> sessions_sound view st \<and> flights_inv view st \<and> livery_keyed view st"

text \<open>The invariant is about the game data only, and loses nothing when entries vanish.\<close>

definition fewer :: "('r \<Rightarrow> string \<Rightarrow> payload option) \<Rightarrow> 'r store \<Rightarrow> 'r store \<Rightarrow> string \<Rightarrow> bool" where
  "fewer view st st' k \<longleftrightarrow> view (server st') k = view (server st) k \<or> view (server st') k = None"

lemma fewer_stored: "fewer view st st' k \<Longrightarrow> stored view dec k st' = Some v \<Longrightarrow> stored view dec k st = Some v"
  by (auto simp: stored_def fewer_def)

lemma fewer_frame: "view (server st') k = view (server st) k \<Longrightarrow> fewer view st st' k"
  by (simp add: fewer_def)

lemma sessions_sound_fewer: "sessions_sound view st \<Longrightarrow> fewer view st st' KeyActiveSessions \<Longrightarrow> sessions_sound view st'"
  by (auto simp: sessions_sound_def dest: fewer_stored)

lemma flights_inv_fewer:
  "flights_inv view st \<Longrightarrow> (\<And>n. fewer view st st' (KeyActiveFlights n)) \<Longrightarrow>
     (\<And>i. fewer view st st' (KeyFlightHistory i)) \<Longrightarrow> flights_inv view st'"
  unfolding flights_inv_def by (metis fewer_stored)

lemma livery_keyed_fewer:
  "livery_keyed view st \<Longrightarrow> (\<And>l. fewer view st st' (KeyLivery l)) \<Longrightarrow> livery_keyed view st'"
  by (auto simp: livery_keyed_def dest: fewer_stored)

lemma system_inv_fewer: "system_inv view st \<Longrightarrow> (\<And>k. game_key k \<Longrightarrow> fewer view st st' k) \<Longrightarrow> system_inv view st'"
  unfolding system_inv_def by (intro conjI) (auto intro: sessions_sound_fewer flights_inv_fewer livery_keyed_fewer)

context redis_service
begin

lemma cache_liveries_keyed:
  "cache_liveries R items st = (res, st') \<Longrightarrow> livery_keyed view st \<Longrightarrow> livery_keyed view st'"
proof (induction items arbitrary: st)
  case (Cons item items)
  let ?l = "game_livery_of item"
  obtain r1 st1 where 1: "SetJSON R livery_json (KeyLivery (gl_id ?l)) ?l liveries_CacheTTL st = (r1, st1)"
    by fastforce
  have "livery_keyed view st1"
    unfolding livery_keyed_def
  proof (intro allI impI)
    fix l v
    assume v: "stored view livery_of_json (KeyLivery l) st1 = Some v"
    show "gl_id v = l"
    proof (cases "l = gl_id ?l")
      case True
      have "stored view livery_of_json (KeyLivery (gl_id ?l)) st1 = stored view livery_of_json (KeyLivery (gl_id ?l)) st \<or>
          stored view livery_of_json (KeyLivery (gl_id ?l)) st1 = Some ?l"
        by (rule SetJSON_stored_cases [OF livery_codec.codec_axioms _ 1]) simp
      with v Cons.prems(2) True show ?thesis by (auto simp: livery_keyed_def)
    next
      case False
      with v Cons.prems(2) SetJSON_untouched [OF 1, of "KeyLivery l" livery_of_json] show ?thesis
        by (simp add: livery_keyed_def)
    qed
  qed
  with Cons 1 show ?case by (auto simp: Let_def split: sum.splits)
qed simp

lemma sessions_Run_system:
  assumes "sessions_Run R uni fetched now st = (res, st')" and "system_inv view st"
  shows "system_inv view st'"
proof -
  have "fewer view st st' k" if "k \<noteq> KeyActiveSessions" "k \<noteq> KeySessionNames" for k
    using sessions_Run_frame [OF assms(1) that] by (rule fewer_frame)
  moreover have "sessions_sound view st'"
    unfolding sessions_sound_def using sessions_Run_inv [OF assms(1)] assms(2)
    by (auto simp: system_inv_def sessions_sound_def)
  ultimately show ?thesis
    using assms(2) unfolding system_inv_def
    by (auto intro!: flights_inv_fewer [of view st] livery_keyed_fewer [of view st])
qed

lemma liveries_Run_system:
  assumes "liveries_Run R fetched st = (res, st')" and "system_inv view st"
  shows "system_inv view st'"
proof (cases fetched)
  case (Inl err)
  with assms show ?thesis by (simp add: liveries_Run_def)
next
  case (Inr items)
  with assms(1) have run: "cache_liveries R items st = (res, st')" by (simp add: liveries_Run_def)
  have frame: "fewer view st st' k" if "\<And>l. k \<noteq> KeyLivery l" for k
    using cache_liveries_frame [OF run] that by (auto intro: fewer_frame)
  from assms(2) cache_liveries_keyed [OF run] show ?thesis
    unfolding system_inv_def
    by (auto intro!: flights_inv_fewer [of view st] sessions_sound_fewer [of view st] frame simp: key_neq [THEN not_sym])
qed

lemma flights_system:
  assumes "system_inv view st" and "flights_inv view st'"
    and "\<And>k. (\<And>n. k \<noteq> KeyActiveFlights n) \<Longrightarrow> (\<And>i. k \<noteq> KeyFlightHistory i) \<Longrightarrow> contents st' k = contents st k"
  shows "system_inv view st'"
  using assms unfolding system_inv_def
  by (auto intro!: livery_keyed_fewer [of view st] sessions_sound_fewer [of view st] fewer_frame)

lemma refreshSession_system:
  assumes r: "refreshSession R oob fetched session now liveries st = (res, liveries', st')" and inv: "system_inv view st"
  shows "system_inv view st'"
proof (rule flights_system [OF inv])
  show "flights_inv view st'" using refreshSession_inv [OF r] inv by (simp add: system_inv_def)
qed (use refreshSession_frame [OF r] in blast)

lemma flights_Run_system:
  assumes r: "flights_Run R oob fetch now st = (res, st')" and inv: "system_inv view st"
  shows "system_inv view st'"
proof (rule flights_system [OF inv])
  show "flights_inv view st'" using flights_Run_inv [OF r] inv by (simp add: system_inv_def)
qed (use flights_Run_frame [OF r] in \<open>auto simp: writes_to_def\<close>)

end

lemma system_step_inv:
  assumes "redis_service (app_redis a) view" and "system_step a view x y" and "system_inv view (snd x)"
  shows "system_inv view (snd y)"
  using assms(2,3)
proof cases
  case (Serve recoverer m route pattern r w mets st w' mets' st')
  then have "same_game view st st'"
    using router_same [OF assms(1) Serve(3), of st m route pattern r w mets] by simp
  with Serve assms(3) show ?thesis
    by (auto intro: system_inv_fewer fewer_frame simp: same_game_def)
next
  case (Expire st' st k mets)
  with assms(3) show ?thesis by (auto intro!: system_inv_fewer [of view st] simp: fewer_def)
qed (simp_all add: redis_service.sessions_Run_system [OF assms(1)] redis_service.liveries_Run_system [OF assms(1)]
  redis_service.flights_Run_system [OF assms(1)] redis_service.refreshSession_system [OF assms(1)])

lemma system_steps_inv:
  assumes "redis_service (app_redis a) view" and "(system_step a view)\<^sup>*\<^sup>* x y" and "system_inv view (snd x)"
  shows "system_inv view (snd y)"
  using assms(2,3)
proof (induction rule: rtranclp_induct)
  case (step y z)
  then show ?case using system_step_inv [OF assms(1)] by blast
qed

section \<open>Properties\<close>

text \<open>
  However runs of the jobs, single refreshes of a flights job under way, requests through the
  whole stack and expiry of entries follow each other, and whatever upstream, the database, the clock
  and Redis answer: starting without game data, the stored sessions always have distinct identities
  and at most 50 flat entries of history, flight snapshots and histories never nest histories, and a
  livery is stored under its own id.
\<close>
theorem system_keeps_invariants:
  assumes "redis_service (app_redis a) view"
    and "\<And>k. game_key k \<Longrightarrow> view (server st) k = None"
    and "(system_step a view)\<^sup>*\<^sup>* (mets, st) (mets', st')"
  shows "(\<forall>s. stored view snapshot_of_json KeyActiveSessions st' = Some s \<longrightarrow> snapshot_inv s) \<and>
    flights_inv view st' \<and>
    (\<forall>l v. stored view livery_of_json (KeyLivery l) st' = Some v \<longrightarrow> gl_id v = l)"
proof -
  have "system_inv view st"
    unfolding system_inv_def sessions_sound_def flights_inv_def livery_keyed_def stored_def
    by (simp add: assms(2) [OF game_keys(1)] assms(2) [OF game_keys(3)] assms(2) [OF game_keys(4)] assms(2) [OF game_keys(5)])
  then have "system_inv view st'" using system_steps_inv [OF assms(1,3)] by simp
  then show ?thesis by (simp add: system_inv_def sessions_sound_def livery_keyed_def)
qed

theorem system_keeps_invariants_witness:
  "\<exists>st'. (system_step ex_app mem_view)\<^sup>*\<^sup>* (\<lparr>m_requests = \<lambda>_. 0, m_durations = \<lambda>_. 0\<rparr>, store_of mem_empty)
       (\<lparr>m_requests = \<lambda>_. 0, m_durations = \<lambda>_. 0\<rparr>, st') \<and>
     st' = snd (flights_Run mem_redis (\<lambda>_. 0) (\<lambda>_. Inr [ex_upstream]) 0 (snd ex_run)) \<and> flights_inv mem_view st'"
proof -
  let ?m = "\<lparr>m_requests = \<lambda>_. 0, m_durations = \<lambda>_. 0\<rparr>"
  let ?st = "snd (flights_Run mem_redis (\<lambda>_. 0) (\<lambda>_. Inr [ex_upstream]) 0 (snd ex_run))"
  have app: "app_redis ex_app = mem_redis" "app_unicode ex_app = id" by (simp_all add: ex_app_def)
  have run: "sessions_Run mem_redis id (Inr [ex_session]) 0 (store_of mem_empty) = (Inr (), snd ex_run)"
    using ex_run_ok by (simp add: ex_run_def)
  have "system_step ex_app mem_view (?m, store_of mem_empty) (?m, snd ex_run)"
    by (rule Sessions [where a = ex_app, unfolded app, OF run])
  moreover have "system_step ex_app mem_view (?m, snd ex_run) (?m, ?st)"
    by (rule Flights [where a = ex_app, unfolded app, OF prod.collapse [symmetric]])
  ultimately have steps: "(system_step ex_app mem_view)\<^sup>*\<^sup>* (?m, store_of mem_empty) (?m, ?st)" by simp
  have "flights_inv mem_view ?st"
    using system_keeps_invariants [OF _ _ steps] mem.redis_service_axioms by (simp add: app)
  with steps show ?thesis by blast
qed

text \<open>
  C11: Only the jobs write game data: a request of any kind, through the whole stack and wherever it
  is routed, leaves every sessions, flights, history and livery entry exactly as it was, even when
  Redis fails or the handler panics.
\<close>
theorem requests_leave_game_data:
  assumes "redis_service (app_redis a) view" and "recovers recoverer" and "game_key k"
  shows "view (server (snd (state_of (router a m route pattern recoverer r w (mets, st))))) k = view (server st) k"
  using router_same [OF assms(1,2)] assms(3) by (simp add: same_game_def)

theorem requests_leave_game_data_witness:
  "mem_view (server (snd (state_of (router ex_app ex_moment (\<lambda>_. SiteLogout) rq_path chi_recoverer
       (ex_get ''/auth/logout'') fresh_writer (\<lparr>m_requests = \<lambda>_. 0, m_durations = \<lambda>_. 0\<rparr>, snd ex_run))))) KeyActiveSessions =
     mem_view (server (snd ex_run)) KeyActiveSessions \<and>
   mem_view (server (snd ex_run)) KeyActiveSessions \<noteq> None"
proof -
  have view: "redis_service (app_redis ex_app) mem_view" by (simp add: ex_app_def mem.redis_service_axioms)
  have "mem_view (server (snd ex_run)) KeyActiveSessions \<noteq> None"
    using ex_store(2) by (auto simp: stored_def split: option.splits)
  with requests_leave_game_data [OF view recovers_chi, of KeyActiveSessions] show ?thesis by simp
qed

end
