(* ===== verification/Commands.thy ===== *)
theory Commands
  imports System
begin

text \<open>
  The jobs as programs of single Redis commands. A program says which command comes next and how it
  goes on after each reply, so that the commands of several jobs can be interleaved. Each program
  does, when it runs alone, exactly what the model of the job does.
\<close>

section \<open>Programs\<close>

datatype 'a prog =
    Return 'a
  | Get string "reply \<Rightarrow> 'a prog"
  | GetDel string "reply \<Rightarrow> 'a prog"
  | Put string json duration "bool \<Rightarrow> 'a prog"
  | Del string "bool \<Rightarrow> 'a prog"

primrec andthen :: "'a prog \<Rightarrow> ('a \<Rightarrow> 'b prog) \<Rightarrow> 'b prog" where
  "andthen (Return a) f = f a"
| "andthen (Get k c) f = Get k (\<lambda>rep. andthen (c rep) f)"
| "andthen (GetDel k c) f = GetDel k (\<lambda>rep. andthen (c rep) f)"
| "andthen (Put k j ttl c) f = Put k j ttl (\<lambda>ok. andthen (c ok) f)"
| "andthen (Del k c) f = Del k (\<lambda>ok. andthen (c ok) f)"

text \<open>One command of a program, and a program without interruption.\<close>

fun command :: "'r redis \<Rightarrow> 'a prog \<Rightarrow> 'r \<Rightarrow> ('a prog \<times> 'r) option" where
  "command R (Return a) r = None"
| "command R (Get k c) r = Some (let (rep, r) = r_get R k r in (c rep, r))"
| "command R (GetDel k c) r = Some (let (rep, r) = r_getdel R k r in (c rep, r))"
| "command R (Put k j ttl c) r = Some (let (ok, r) = r_set R k j ttl r in (c ok, r))"
| "command R (Del k c) r = Some (let (ok, r) = r_del R k r in (c ok, r))"

primrec run :: "'r redis \<Rightarrow> 'a prog \<Rightarrow> 'r \<Rightarrow> 'a \<times> 'r" where
  "run R (Return a) r = (a, r)"
| "run R (Get k c) r = (let (rep, r) = r_get R k r in run R (c rep) r)"
| "run R (GetDel k c) r = (let (rep, r) = r_getdel R k r in run R (c rep) r)"
| "run R (Put k j ttl c) r = (let (ok, r) = r_set R k j ttl r in run R (c ok) r)"
| "run R (Del k c) r = (let (ok, r) = r_del R k r in run R (c ok) r)"

lemma run_andthen: "run R (andthen p f) r = (case run R p r of (a, r') \<Rightarrow> run R (f a) r')"
  by (induction p arbitrary: r) (auto simp: Let_def split: prod.split)

lemma run_command: "command R p r = Some (p', r') \<Longrightarrow> run R p r = run R p' r'"
  by (cases p) (auto split: prod.splits)

section \<open>The operations of the store\<close>

definition got :: "(json \<Rightarrow> 'a option) \<Rightarrow> reply \<Rightarrow> go_error + 'a" where
  "got dec reply =
     (case reply of
        RedisNil \<Rightarrow> Inl ErrMiss
      | RedisErr \<Rightarrow> Inl (Wrapf ''get cache key'' ErrBackend)
      | Bytes data \<Rightarrow>
          (case Option.bind data dec of None \<Rightarrow> Inl (Wrapf ''decode cache key'' ErrDecode) | Some v \<Rightarrow> Inr v))"

definition get_json :: "(json \<Rightarrow> 'a option) \<Rightarrow> string \<Rightarrow> (go_error + 'a) prog" where
  "get_json dec k = Get k (\<lambda>reply. Return (got dec reply))"

definition set_json :: "('a \<Rightarrow> json option) \<Rightarrow> string \<Rightarrow> 'a \<Rightarrow> duration \<Rightarrow> (go_error + unit) prog" where
  "set_json enc k v ttl =
     (case enc v of
        None \<Rightarrow> Return (Inl (Wrapf ''encode cache key'' ErrEncode))
      | Some data \<Rightarrow>
          Put k data ttl (\<lambda>ok. Return (if ok then Inr () else Inl (Wrapf ''set cache key'' ErrBackend))))"

lemma run_get_json:
  "run R (get_json dec k) (server st) = (case GetJSON R dec k st of (res, st') \<Rightarrow> (res, server st'))"
  by (auto simp: get_json_def got_def GetJSON_def Let_def split: prod.split reply.split option.split)

lemma run_set_json:
  "run R (set_json enc k v ttl) (server st) = (case SetJSON R enc k v ttl st of (res, st') \<Rightarrow> (res, server st'))"
  by (auto simp: set_json_def SetJSON_def Let_def split: prod.split option.split)

lemmas run_simps = run_andthen run_get_json run_set_json

section \<open>The jobs\<close>

definition sessions_prog ::
  "(string \<Rightarrow> string) \<Rightarrow> (go_error + session list) \<Rightarrow> time \<Rightarrow> (go_error + unit) prog"
where
  "sessions_prog uni fetched now =
     (case fetched of
        Inl err \<Rightarrow> Return (Inl (Wrapf ''refresh sessions'' err))
      | Inr upstream \<Rightarrow>
          andthen (get_json snapshot_of_json KeyActiveSessions) (\<lambda>existing.
          andthen (set_json snapshot_json KeyActiveSessions (run_snapshot uni upstream now existing) sessions_CacheTTL)
            (\<lambda>res. case res of
               Inl err \<Rightarrow> Return (Inl (Wrapf ''cache sessions'' err))
             | Inr _ \<Rightarrow>
                 andthen (set_json names_json KeySessionNames
                     (Some (map s_normalized (prepareCurrentSessions uni upstream now))) 0)
                   (\<lambda>res. Return (case res of
                      Inl err \<Rightarrow> Inl (Wrapf ''cache session names'' err) | Inr _ \<Rightarrow> Inr ())))))"

fun cache_liveries_prog :: "livery list \<Rightarrow> (go_error + unit) prog" where
  "cache_liveries_prog [] = Return (Inr ())"
| "cache_liveries_prog (item # items) =
     (let livery = game_livery_of item in
      andthen (set_json livery_json (KeyLivery (gl_id livery)) livery liveries_CacheTTL)
        (\<lambda>res. case res of
           Inl err \<Rightarrow> Return (Inl (Wrapf (''cache livery '' @ gl_id livery) err))
         | Inr _ \<Rightarrow> cache_liveries_prog items))"

definition liveries_prog :: "(go_error + livery list) \<Rightarrow> (go_error + unit) prog" where
  "liveries_prog fetched =
     (case fetched of
        Inl err \<Rightarrow> Return (Inl (Wrapf ''refresh liveries'' err))
      | Inr upstream \<Rightarrow> cache_liveries_prog upstream)"

definition lookup_prog :: "string \<Rightarrow> livery_memo \<Rightarrow> (game_livery option \<times> livery_memo) prog" where
  "lookup_prog liveryID liveries =
     (if liveryID = '''' then Return (None, liveries)
      else case liveries liveryID of
        Some l \<Rightarrow> Return (if gl_id l = '''' then None else Some l, liveries)
      | None \<Rightarrow>
          andthen (get_json livery_of_json (KeyLivery liveryID))
            (\<lambda>res. Return (case res of
               Inl err \<Rightarrow> (None, liveries(liveryID \<mapsto> zero_livery))
             | Inr livery \<Rightarrow> (Some livery, liveries(liveryID \<mapsto> livery)))))"

fun map_prog ::
  "(float64 \<Rightarrow> gint) \<Rightarrow> session \<Rightarrow> (string \<rightharpoonup> flight) \<Rightarrow> time \<Rightarrow> upstream_flight list \<Rightarrow> livery_memo \<Rightarrow>
   (flight list \<times> livery_memo) prog"
where
  "map_prog oob session existingByID now [] liveries = Return ([], liveries)"
| "map_prog oob session existingByID now (item # items) liveries =
     andthen (lookup_prog (u_livery_id item) liveries) (\<lambda>(livery, liveries).
     andthen (map_prog oob session existingByID now items liveries) (\<lambda>(fs, liveries).
       Return (MapFlight oob item session livery (existingByID (u_flight_id item)) now # fs, liveries)))"

definition history_prog :: "(string \<rightharpoonup> flight) \<Rightarrow> flight \<Rightarrow> unit prog" where
  "history_prog existingByID f =
     (if flight_id f = '''' then Return ()
      else case existingByID (flight_id f) of
        None \<Rightarrow> Return ()
      | Some prior \<Rightarrow>
          andthen (get_json history_of_json (KeyFlightHistory (flight_id f))) (\<lambda>res.
            let history = (case res of Inl err \<Rightarrow> elems (fhistory prior) | Inr snapshot \<Rightarrow> elems (hs_result snapshot)) in
            andthen (set_json history_json (KeyFlightHistory (flight_id f))
                \<lparr>hs_result = Some (NextHistory history prior)\<rparr> GameActiveFlightTTL)
              (\<lambda>_. Return ())))"

fun histories_prog :: "(string \<rightharpoonup> flight) \<Rightarrow> flight list \<Rightarrow> unit prog" where
  "histories_prog existingByID [] = Return ()"
| "histories_prog existingByID (f # fs) =
     andthen (history_prog existingByID f) (\<lambda>_. histories_prog existingByID fs)"

definition refresh_prog ::
  "(float64 \<Rightarrow> gint) \<Rightarrow> (go_error + upstream_flight list) \<Rightarrow> session \<Rightarrow> time \<Rightarrow> livery_memo \<Rightarrow>
   ((go_error + nat) \<times> livery_memo) prog"
where
  "refresh_prog oob fetched session now liveries =
     (case fetched of
        Inl err \<Rightarrow> Return (Inl (Wrapf ''fetch flights'' err), liveries)
      | Inr upstream \<Rightarrow>
          andthen (get_json flights_snapshot_of_json (KeyActiveFlights (s_normalized session))) (\<lambda>res.
            let existing = previous_flights res in
            andthen (map_prog oob session (index_flights existing) now upstream liveries) (\<lambda>(mapped, liveries).
              let flights = UpsertFlights existing mapped in
              andthen (histories_prog (index_flights existing) flights) (\<lambda>_.
              andthen (set_json flights_snapshot_json (KeyActiveFlights (s_normalized session))
                  (next_flights existing mapped now) GameActiveFlightTTL) (\<lambda>res.
                Return (case res of
                   Inl err \<Rightarrow> Inl (Wrapf ''cache flights'' err)
                 | Inr _ \<Rightarrow> Inr (length flights), liveries))))))"

fun sessions_loop_prog ::
  "(float64 \<Rightarrow> gint) \<Rightarrow> (string \<Rightarrow> go_error + upstream_flight list) \<Rightarrow> time \<Rightarrow> session list \<Rightarrow> livery_memo \<Rightarrow>
   nat \<Rightarrow> nat prog"
where
  "sessions_loop_prog oob fetch now [] liveries counted = Return counted"
| "sessions_loop_prog oob fetch now (session # sessions) liveries counted =
     (if s_id session = '''' \<or> s_normalized session = ''''
      then sessions_loop_prog oob fetch now sessions liveries counted
      else
        andthen (refresh_prog oob (fetch (s_id session)) session now liveries) (\<lambda>(res, liveries).
          case res of
            Inl err \<Rightarrow> sessions_loop_prog oob fetch now sessions liveries counted
          | Inr count \<Rightarrow> sessions_loop_prog oob fetch now sessions liveries (counted + count)))"

definition flights_prog ::
  "(float64 \<Rightarrow> gint) \<Rightarrow> (string \<Rightarrow> go_error + upstream_flight list) \<Rightarrow> time \<Rightarrow> (go_error + unit) prog"
where
  "flights_prog oob fetch now =
     andthen (get_json snapshot_of_json KeyActiveSessions) (\<lambda>res.
       case res of
         Inl err \<Rightarrow> Return (Inr ())
       | Inr snapshot \<Rightarrow>
           if elems (snap_result snapshot) = [] then Return (Inr ())
           else andthen (sessions_loop_prog oob fetch now (elems (snap_result snapshot)) Map.empty 0)
             (\<lambda>_. Return (Inr ())))"

section \<open>The programs do what the jobs do\<close>

lemma run_sessions_prog:
  "run R (sessions_prog uni fetched now) (server st) =
     (case sessions_Run R uni fetched now st of (res, st') \<Rightarrow> (res, server st'))"
  by (auto simp: sessions_prog_def sessions_Run_def run_simps Let_def run_snapshot_def split: sum.split prod.split)

lemma run_cache_liveries_prog:
  "run R (cache_liveries_prog items) (server st) =
     (case cache_liveries R items st of (res, st') \<Rightarrow> (res, server st'))"
  by (induction items arbitrary: st) (auto simp: run_simps Let_def split: sum.split prod.split)

lemma run_liveries_prog:
  "run R (liveries_prog fetched) (server st) = (case liveries_Run R fetched st of (res, st') \<Rightarrow> (res, server st'))"
  by (simp add: liveries_prog_def liveries_Run_def run_cache_liveries_prog split: sum.split)

lemma run_lookup_prog:
  "run R (lookup_prog liveryID liveries) (server st) =
     (case lookupLivery R liveryID liveries st of (l, liveries, st') \<Rightarrow> ((l, liveries), server st'))"
  by (auto simp: lookup_prog_def lookupLivery_def run_simps split: option.split sum.split prod.split)

lemma run_map_prog:
  "run R (map_prog oob session ex now items liveries) (server st) =
     (case map_flights R oob session ex now items liveries st of (fs, liveries, st') \<Rightarrow> ((fs, liveries), server st'))"
  by (induction items arbitrary: liveries st) (auto simp: run_simps run_lookup_prog Let_def split: prod.split)

lemma run_history_prog: "run R (history_prog ex f) (server st) = ((), server (cacheHistory R ex f st))"
  by (auto simp: history_prog_def cacheHistory_def loadHistory_def run_simps Let_def split: option.split sum.split prod.split)

lemma run_histories_prog: "run R (histories_prog ex fs) (server st) = ((), server (cacheHistories R ex fs st))"
  by (induction fs arbitrary: st) (simp_all add: cacheHistories_def run_simps run_history_prog)

lemma run_refresh_prog:
  "run R (refresh_prog oob fetched session now liveries) (server st) =
     (case refreshSession R oob fetched session now liveries st of (res, liveries, st') \<Rightarrow> ((res, liveries), server st'))"
  by (auto simp: refresh_prog_def refreshSession_def run_simps run_map_prog run_histories_prog Let_def
      next_flights_def previous_flights_def split: sum.split prod.split)

lemma run_sessions_loop_prog:
  "run R (sessions_loop_prog oob fetch now sessions liveries counted) (server st) =
     (case refresh_sessions R oob fetch now sessions liveries counted st of (n, st') \<Rightarrow> (n, server st'))"
proof (induction sessions arbitrary: liveries counted st)
  case (Cons session sessions)
  then show ?case
    by (auto simp: refresh_sessions.simps(2) run_simps run_refresh_prog Let_def split: prod.split sum.split)
qed simp

lemma run_flights_prog:
  "run R (flights_prog oob fetch now) (server st) =
     (case flights_Run R oob fetch now st of (res, st') \<Rightarrow> (res, server st'))"
  by (auto simp: flights_prog_def flights_Run_def run_simps run_sessions_loop_prog split: sum.split prod.split)

end
