(* ===== verification/Concurrency.thy ===== *)
theory Concurrency
  imports Commands
begin

text \<open>
  Any number of job runs at once, interleaved command by command with each other, with requests and
  with the expiry of entries: the invariants of the game data hold after every command.
\<close>

section \<open>What each entry may hold\<close>

definition entry_ok :: "string \<Rightarrow> json \<Rightarrow> bool" where
  "entry_ok k j \<longleftrightarrow>
     (k = KeyActiveSessions \<longrightarrow> (\<forall>s. snapshot_of_json j = Some s \<longrightarrow> snapshot_inv s)) \<and>
     (\<forall>n s. k = KeyActiveFlights n \<longrightarrow> flights_snapshot_of_json j = Some s \<longrightarrow> snapshot_flat s) \<and>
     (\<forall>i h. k = KeyFlightHistory i \<longrightarrow> history_of_json j = Some h \<longrightarrow> history_flat h) \<and>
     (\<forall>l v. k = KeyLivery l \<longrightarrow> livery_of_json j = Some v \<longrightarrow> gl_id v = l)"

lemma entry_ok_keys [simp]:
  "entry_ok KeyActiveSessions j \<longleftrightarrow> (\<forall>s. snapshot_of_json j = Some s \<longrightarrow> snapshot_inv s)"
  "entry_ok (KeyActiveFlights n) j \<longleftrightarrow> (\<forall>s. flights_snapshot_of_json j = Some s \<longrightarrow> snapshot_flat s)"
  "entry_ok (KeyFlightHistory i) j \<longleftrightarrow> (\<forall>h. history_of_json j = Some h \<longrightarrow> history_flat h)"
  "entry_ok (KeyLivery l) j \<longleftrightarrow> (\<forall>v. livery_of_json j = Some v \<longrightarrow> gl_id v = l)"
  "entry_ok KeySessionNames j"
  by (auto simp: entry_ok_def key_neq [THEN not_sym])

section \<open>Programs that keep the entries\<close>

text \<open>
  Whatever the replies, as long as what is read is allowed, the program only writes what is allowed,
  and ends with a result that satisfies \<open>Q\<close>.
\<close>

primrec keeps :: "(string \<Rightarrow> json \<Rightarrow> bool) \<Rightarrow> ('a \<Rightarrow> bool) \<Rightarrow> 'a prog \<Rightarrow> bool" where
  "keeps ok Q (Return a) \<longleftrightarrow> Q a"
| "keeps ok Q (Get k c) \<longleftrightarrow> (\<forall>rep. (\<forall>j. rep = Bytes (Some j) \<longrightarrow> ok k j) \<longrightarrow> keeps ok Q (c rep))"
| "keeps ok Q (GetDel k c) \<longleftrightarrow> (\<forall>rep. (\<forall>j. rep = Bytes (Some j) \<longrightarrow> ok k j) \<longrightarrow> keeps ok Q (c rep))"
| "keeps ok Q (Put k j ttl c) \<longleftrightarrow> ok k j \<and> (\<forall>b. keeps ok Q (c b))"
| "keeps ok Q (Del k c) \<longleftrightarrow> (\<forall>b. keeps ok Q (c b))"

lemma keeps_andthen:
  "keeps ok P p \<Longrightarrow> (\<And>a. P a \<Longrightarrow> keeps ok Q (f a)) \<Longrightarrow> keeps ok Q (andthen p f)"
  by (induction p) auto

lemma keeps_seq:
  "keeps ok (\<lambda>_. True) p \<Longrightarrow> (\<And>a. keeps ok Q (f a)) \<Longrightarrow> keeps ok Q (andthen p f)"
  by (rule keeps_andthen)

lemma keeps_get_json:
  assumes "\<And>err. Q (Inl err)" and "\<And>j v. ok k j \<Longrightarrow> dec j = Some v \<Longrightarrow> Q (Inr v)"
  shows "keeps ok Q (get_json dec k)"
  using assms by (auto simp: get_json_def got_def bind_eq_Some_conv split: reply.split option.split)

lemma keeps_read: "keeps ok (\<lambda>_. True) (get_json dec k)"
  by (rule keeps_get_json) (rule TrueI)+

lemma keeps_set_json:
  assumes "\<And>res. Q res" and "\<And>j. enc v = Some j \<Longrightarrow> ok k j"
  shows "keeps ok Q (set_json enc k v ttl)"
  using assms by (auto simp: set_json_def split: option.split)

lemma keeps_sessions_prog: "keeps entry_ok (\<lambda>_. True) (sessions_prog uni fetched now)"
proof (cases fetched)
  case (Inr upstream)
  have ok: "entry_ok KeyActiveSessions j" if "snapshot_json (run_snapshot uni upstream now existing) = Some j" for existing j
    using snapshot_codec.roundtrip [OF _ that] snapshot_inv_run [of uni upstream now existing]
    by (simp add: run_snapshot_def snapshot_ok_next del: snapshot_ok.simps)
  have store: "keeps entry_ok (\<lambda>_. True) (set_json snapshot_json KeyActiveSessions
      (run_snapshot uni upstream now existing) sessions_CacheTTL)" for existing
    by (rule keeps_set_json) (simp, erule ok)
  have names: "keeps entry_ok (\<lambda>_. True) (set_json names_json KeySessionNames names 0)" for names
    by (rule keeps_set_json) simp_all
  have rest: "keeps entry_ok (\<lambda>_. True) (case res of
      Inl err \<Rightarrow> Return (Inl (Wrapf ''cache sessions'' err))
    | Inr u \<Rightarrow> andthen (set_json names_json KeySessionNames names 0) (\<lambda>res. Return (f res)))" for res f names
    by (cases res) (simp_all add: keeps_seq [OF names])
  show ?thesis
    unfolding sessions_prog_def Inr sum.case by (intro keeps_seq keeps_read store rest)
qed (simp add: sessions_prog_def)

lemma keeps_set_livery: "keeps entry_ok (\<lambda>_. True) (set_json livery_json (KeyLivery (gl_id v)) v ttl)"
proof (rule keeps_set_json)
  fix j assume "livery_json v = Some j"
  from livery_codec.roundtrip [OF _ this] show "entry_ok (KeyLivery (gl_id v)) j" by simp
qed simp

lemma keeps_cache_liveries: "keeps entry_ok (\<lambda>_. True) (cache_liveries_prog items)"
proof (induction items)
  case (Cons item items)
  have "keeps entry_ok (\<lambda>_. True) (case res of
      Inl err \<Rightarrow> Return (Inl (Wrapf (''cache livery '' @ l) err)) | Inr u \<Rightarrow> cache_liveries_prog items)" for res l
    using Cons by (cases res) simp_all
  then show ?case unfolding cache_liveries_prog.simps Let_def by (intro keeps_seq keeps_set_livery)
qed simp

lemma keeps_liveries_prog: "keeps entry_ok (\<lambda>_. True) (liveries_prog fetched)"
  by (simp add: liveries_prog_def keeps_cache_liveries split: sum.split)

lemma keeps_lookup_prog: "keeps entry_ok (\<lambda>_. True) (lookup_prog liveryID liveries)"
  by (auto simp: lookup_prog_def split: option.split intro!: keeps_seq keeps_read)

lemma keeps_map_prog: "keeps entry_ok (\<lambda>_. True) (map_prog oob session ex now items liveries)"
  by (induction items arbitrary: liveries)
     (auto intro!: keeps_seq keeps_lookup_prog)

lemma keeps_history_prog:
  assumes flat: "\<And>i p. ex i = Some p \<Longrightarrow> fhistory p = None"
  shows "keeps entry_ok (\<lambda>_. True) (history_prog ex f)"
proof (cases "flight_id f = '''' \<or> ex (flight_id f) = None")
  case False
  then obtain prior where prior: "flight_id f \<noteq> ''''" "ex (flight_id f) = Some prior" by auto
  let ?flat = "\<lambda>h. \<forall>g \<in> set h. fhistory g = None \<and> f_path_sync (fdata g) = None"
  let ?read = "\<lambda>res. case res of Inl err \<Rightarrow> elems (fhistory prior) | Inr snapshot \<Rightarrow> elems (hs_result snapshot)"
  have load: "keeps entry_ok (\<lambda>res. ?flat (?read res)) (get_json history_of_json (KeyFlightHistory (flight_id f)))"
    by (rule keeps_get_json) (simp_all add: flat [OF prior(2)] history_flat_def)
  have store: "keeps entry_ok (\<lambda>_. True) (set_json history_json (KeyFlightHistory (flight_id f))
      \<lparr>hs_result = Some (NextHistory h prior)\<rparr> GameActiveFlightTTL)" if "?flat h" for h
  proof (rule keeps_set_json)
    fix j assume "history_json \<lparr>hs_result = Some (NextHistory h prior)\<rparr> = Some j"
    from history_codec.roundtrip [OF history_flat_ok [OF history_flat_next [OF that]] this]
    show "entry_ok (KeyFlightHistory (flight_id f)) j" using history_flat_next [OF that] by simp
  qed simp
  show ?thesis
    using prior load store by (auto simp: history_prog_def Let_def intro!: keeps_andthen [OF load] keeps_seq)
qed (auto simp: history_prog_def)

lemma keeps_histories_prog:
  "(\<And>i p. ex i = Some p \<Longrightarrow> fhistory p = None) \<Longrightarrow> keeps entry_ok (\<lambda>_. True) (histories_prog ex fs)"
  by (induction fs) (auto intro!: keeps_seq keeps_history_prog)

lemma keeps_refresh_prog: "keeps entry_ok (\<lambda>_. True) (refresh_prog oob fetched session now liveries)"
proof (cases fetched)
  case (Inr upstream)
  let ?k = "KeyActiveFlights (s_normalized session)"
  have load: "keeps entry_ok (\<lambda>res. \<forall>s. res = Inr s \<longrightarrow> snapshot_flat s) (get_json flights_snapshot_of_json ?k)"
    by (rule keeps_get_json) simp_all
  have store: "keeps entry_ok (\<lambda>_. True) (set_json flights_snapshot_json ?k (next_flights existing mapped now) ttl)"
    for existing mapped ttl
  proof (rule keeps_set_json)
    fix j assume "flights_snapshot_json (next_flights existing mapped now) = Some j"
    moreover have flat: "snapshot_flat (next_flights existing mapped now)"
      unfolding next_flights_def by (rule snapshot_flat_upsert)
    ultimately show "entry_ok ?k j"
      using flights_snapshot_codec.roundtrip [OF snapshot_flat_ok [OF flat]] by simp
  qed simp
  have histories: "keeps entry_ok (\<lambda>_. True) (histories_prog (index_flights (previous_flights res)) fs)"
    if "\<forall>s. res = Inr s \<longrightarrow> snapshot_flat s" for res fs
    using that index_flat [of res] by (intro keeps_histories_prog) blast
  show ?thesis
    unfolding refresh_prog_def Inr sum.case Let_def
    by (rule keeps_andthen [OF load])
       (auto intro!: keeps_seq keeps_map_prog histories store simp del: andthen.simps)
qed (simp add: refresh_prog_def)

lemma keeps_sessions_loop_prog:
  "keeps entry_ok (\<lambda>_. True) (sessions_loop_prog oob fetch now sessions liveries counted)"
  by (induction sessions arbitrary: liveries counted)
     (auto intro!: keeps_seq keeps_refresh_prog split: sum.split)

lemma keeps_flights_prog: "keeps entry_ok (\<lambda>_. True) (flights_prog oob fetch now)"
  unfolding flights_prog_def
  by (rule keeps_seq [OF keeps_read]) (auto intro!: keeps_seq keeps_sessions_loop_prog split: sum.split)

section \<open>The pool\<close>

text \<open>
  A run of a job, with any answers from upstream and any clock. Its result is not used by others.
\<close>

inductive job_run :: "(string \<Rightarrow> string) \<Rightarrow> (go_error + unit) prog \<Rightarrow> bool" for uni where
  "job_run uni (sessions_prog uni fetched now)"
| "job_run uni (liveries_prog fetched)"
| "job_run uni (flights_prog oob fetch now)"

text \<open>
  A step: a run begins; a run that is under way executes its next command; requests and expiry
  change entries that are not game data, or entries vanish.
\<close>

inductive pool_step ::
  "'r redis \<Rightarrow> ('r \<Rightarrow> string \<Rightarrow> payload option) \<Rightarrow> (string \<Rightarrow> string) \<Rightarrow>
   (go_error + unit) prog list \<times> 'r \<Rightarrow> (go_error + unit) prog list \<times> 'r \<Rightarrow> bool"
  for R view uni
where
  Begin: "job_run uni p \<Longrightarrow> pool_step R view uni (ps, r) (ps @ [p], r)"
| Command: "i < length ps \<Longrightarrow> command R (ps ! i) r = Some (p', r') \<Longrightarrow>
     pool_step R view uni (ps, r) (ps[i := p'], r')"
| Others: "(\<And>k. game_key k \<Longrightarrow> view r' k = view r k \<or> view r' k = None) \<Longrightarrow>
     pool_step R view uni (ps, r) (ps, r')"

definition entries_ok :: "('r \<Rightarrow> string \<Rightarrow> payload option) \<Rightarrow> 'r \<Rightarrow> bool" where
  "entries_ok view r \<longleftrightarrow> (\<forall>k j. view r k = Some (Some j) \<longrightarrow> entry_ok k j)"

lemma keeps_job_run: "job_run uni p \<Longrightarrow> keeps entry_ok (\<lambda>_. True) p"
  by (induction rule: job_run.induct) (simp_all add: keeps_sessions_prog keeps_liveries_prog keeps_flights_prog)

lemma entry_ok_other: "\<not> game_key k \<Longrightarrow> entry_ok k j"
  by (auto simp: entry_ok_def game_key_def)

context redis_service
begin

lemma command_keeps:
  assumes "command R p r = Some (p', r')" and "keeps entry_ok Q p" and "entries_ok view r"
  shows "keeps entry_ok Q p' \<and> entries_ok view r'"
proof (cases p)
  case (Get k c)
  then obtain rep where g: "r_get R k r = (rep, r')" "p' = c rep"
    using assms(1) by (auto split: prod.splits)
  then show ?thesis using assms(2,3) Get get_frame [OF g(1)] get_bytes [of k r _ r'] by (auto simp: entries_ok_def)
next
  case (GetDel k c)
  then obtain rep where g: "r_getdel R k r = (rep, r')" "p' = c rep"
    using assms(1) by (auto split: prod.splits)
  have "view r' = view r \<or> view r' = (view r)(k := None)"
    using getdel_bytes [of k r _ r'] getdel_nil [of k r r'] getdel_failed [of k r r'] g(1) by (cases rep) auto
  then have "entries_ok view r'" using assms(3) by (auto simp: entries_ok_def split: if_splits)
  moreover have "\<forall>j. rep = Bytes (Some j) \<longrightarrow> entry_ok k j"
    using getdel_bytes [of k r _ r'] g(1) assms(3) by (auto simp: entries_ok_def)
  ultimately show ?thesis using assms(2) GetDel g(2) by simp
next
  case (Put k j ttl c)
  then obtain ok where g: "r_set R k j ttl r = (ok, r')" "p' = c ok"
    using assms(1) by (auto split: prod.splits)
  have "view r' = view r \<or> view r' = (view r)(k \<mapsto> Some j)"
    using set_ok [of k j ttl r r'] set_failed [of k j ttl r r'] g(1) by (cases ok) auto
  then show ?thesis using assms(2,3) Put g(2) by (auto simp: entries_ok_def split: if_splits)
next
  case (Del k c)
  then obtain ok where g: "r_del R k r = (ok, r')" "p' = c ok"
    using assms(1) by (auto split: prod.splits)
  have "view r' = view r \<or> view r' = (view r)(k := None)"
    using del_ok [of k r r'] del_failed [of k r r'] g(1) by (cases ok) auto
  then show ?thesis using assms(2,3) Del g(2) by (auto simp: entries_ok_def split: if_splits)
qed (use assms(1) in simp)

lemma pool_step_keeps:
  assumes "pool_step R view uni x y" and "\<forall>p \<in> set (fst x). keeps entry_ok (\<lambda>_. True) p" and "entries_ok view (snd x)"
  shows "(\<forall>p \<in> set (fst y). keeps entry_ok (\<lambda>_. True) p) \<and> entries_ok view (snd y)"
  using assms
proof cases
  case (Command i ps r p' r')
  then have "keeps entry_ok (\<lambda>_. True) p' \<and> entries_ok view r'"
    using assms(2,3) by (intro command_keeps [OF Command(4)]) simp_all
  with Command assms(2) show ?thesis by (auto dest!: subsetD [OF set_update_subset_insert])
next
  case (Others r' r ps)
  then show ?thesis
    using assms(2,3) entry_ok_other unfolding entries_ok_def by simp (metis option.distinct(1))
qed (auto simp: keeps_job_run)

lemma pool_steps_keep:
  assumes "(pool_step R view uni)\<^sup>*\<^sup>* x y" and "\<forall>p \<in> set (fst x). keeps entry_ok (\<lambda>_. True) p"
    and "entries_ok view (snd x)"
  shows "(\<forall>p \<in> set (fst y). keeps entry_ok (\<lambda>_. True) p) \<and> entries_ok view (snd y)"
  using assms
proof (induction rule: rtranclp_induct)
  case (step y z)
  then show ?case using pool_step_keeps [OF step(2)] by blast
qed simp

end

text \<open>A run that is left alone ends, with the result and the effect it has without interruption.\<close>

lemma pool_advance:
  assumes "i < length ps" and "command R (ps ! i) r = Some (p', r')"
    and "(pool_step R view uni)\<^sup>*\<^sup>* (ps[i := p'], r') (ps[i := p', i := q], s)"
  shows "(pool_step R view uni)\<^sup>*\<^sup>* (ps, r) (ps[i := q], s)"
proof (rule converse_rtranclp_into_rtranclp)
  show "pool_step R view uni (ps, r) (ps[i := p'], r')" by (rule pool_step.Command [OF assms(1,2)])
qed (use assms(3) in simp)

lemma pool_alone:
  "ps ! i = p \<Longrightarrow> i < length ps \<Longrightarrow>
     (pool_step R view uni)\<^sup>*\<^sup>* (ps, r) (ps[i := Return (fst (run R p r))], snd (run R p r))"
proof (induction p arbitrary: ps r)
  case (Return a)
  then show ?case by (metis fst_conv list_update_id rtranclp.rtrancl_refl run.simps(1) snd_conv)
next
  case (Get k c)
  obtain rep r' where g: "r_get R k r = (rep, r')" by fastforce
  show ?case
    by (rule pool_advance [of i ps R r "c rep" r'])
       (use Get.prems g Get.IH [of "c rep" "ps[i := c rep]" r'] in simp_all)
next
  case (GetDel k c)
  obtain rep r' where g: "r_getdel R k r = (rep, r')" by fastforce
  show ?case
    by (rule pool_advance [of i ps R r "c rep" r'])
       (use GetDel.prems g GetDel.IH [of "c rep" "ps[i := c rep]" r'] in simp_all)
next
  case (Put k j ttl c)
  obtain ok r' where g: "r_set R k j ttl r = (ok, r')" by fastforce
  show ?case
    by (rule pool_advance [of i ps R r "c ok" r'])
       (use Put.prems g Put.IH [of "c ok" "ps[i := c ok]" r'] in simp_all)
next
  case (Del k c)
  obtain ok r' where g: "r_del R k r = (ok, r')" by fastforce
  show ?case
    by (rule pool_advance [of i ps R r "c ok" r'])
       (use Del.prems g Del.IH [of "c ok" "ps[i := c ok]" r'] in simp_all)
qed

section \<open>Properties\<close>

text \<open>
  C2: Any number of job runs may be under way at once, with overlapping runs of the same job, and
  interleave command by command with each other, with requests and with the expiry of entries:
  starting without game data, after every command the stored sessions have distinct identities and at
  most 50 flat entries of history, flight snapshots and histories never nest histories, and a livery
  is stored under its own id.
\<close>
theorem interleaved_jobs_keep_invariants:
  assumes "redis_service R view" and "\<And>k. game_key k \<Longrightarrow> view r k = None"
    and "(pool_step R view uni)\<^sup>*\<^sup>* ([], r) (ps, r')"
  shows "(\<forall>s. stored view snapshot_of_json KeyActiveSessions (store_of r') = Some s \<longrightarrow> snapshot_inv s) \<and>
    flights_inv view (store_of r') \<and>
    (\<forall>l v. stored view livery_of_json (KeyLivery l) (store_of r') = Some v \<longrightarrow> gl_id v = l)"
proof -
  have "entries_ok view r"
    using assms(2) entry_ok_other unfolding entries_ok_def by (metis option.distinct(1))
  then have "entries_ok view r'" using redis_service.pool_steps_keep [OF assms(1,3)] by simp
  then have ok: "stored view dec k (store_of r') = Some v \<Longrightarrow> \<exists>j. entry_ok k j \<and> dec j = Some v"
    for k v and dec :: "json \<Rightarrow> 'v option"
    by (auto simp: stored_def entries_ok_def split: option.splits)
  show ?thesis
    unfolding flights_inv_def by (intro conjI allI impI) (drule ok, fastforce)+
qed

text \<open>
  The commands are those of the jobs: a run of a job whose commands nothing interrupts is one of the
  interleavings, it ends, and its result and what it leaves in Redis are those of the job's \<open>Run\<close>.
\<close>
theorem job_runs_are_their_commands:
  "(case sessions_Run R uni fetched now st of (res, st') \<Rightarrow>
      (pool_step R view uni)\<^sup>*\<^sup>* ([], server st) ([Return res], server st')) \<and>
   (case liveries_Run R fetched' st of (res, st') \<Rightarrow>
      (pool_step R view uni)\<^sup>*\<^sup>* ([], server st) ([Return res], server st')) \<and>
   (case flights_Run R oob fetch now st of (res, st') \<Rightarrow>
      (pool_step R view uni)\<^sup>*\<^sup>* ([], server st) ([Return res], server st'))"
proof -
  have alone: "(pool_step R view uni)\<^sup>*\<^sup>* ([], server st) ([Return (fst (run R p (server st)))], snd (run R p (server st)))"
    if "job_run uni p" for p
  proof -
    have "pool_step R view uni ([], server st) ([p], server st)" using Begin [OF that, where ps = "[]"] by simp
    moreover have "(pool_step R view uni)\<^sup>*\<^sup>* ([p], server st) ([Return (fst (run R p (server st)))], snd (run R p (server st)))"
      using pool_alone [of "[p]" 0 p R view uni "server st"] by simp
    ultimately show ?thesis by (rule converse_rtranclp_into_rtranclp)
  qed
  show ?thesis
    unfolding case_prod_unfold
    using alone [OF job_run.intros(1), of fetched now, unfolded run_sessions_prog case_prod_unfold prod.sel]
      alone [OF job_run.intros(2), of fetched', unfolded run_liveries_prog case_prod_unfold prod.sel]
      alone [OF job_run.intros(3), of oob fetch now, unfolded run_flights_prog case_prod_unfold prod.sel]
    by (intro conjI)
qed

theorem interleaved_jobs_keep_invariants_witness:
  "\<exists>a b r'. (pool_step mem_redis mem_view id)\<^sup>*\<^sup>* ([], mem_empty) ([Return a, Return b], r') \<and>
     flights_inv mem_view (store_of r')"
proof -
  let ?s = "sessions_prog id (Inr [ex_session]) 0" and ?f = "flights_prog (\<lambda>_. 0) (\<lambda>_. Inr [ex_upstream]) 0"
  let ?steps = "(pool_step mem_redis mem_view id)\<^sup>*\<^sup>*"
  obtain a r1 where a: "run mem_redis ?s mem_empty = (a, r1)" by fastforce
  obtain f' where f': "command mem_redis ?f mem_empty = Some (f', mem_empty)"
    by (simp add: flights_prog_def get_json_def mem_redis_def)
  obtain b r2 where b: "run mem_redis f' r1 = (b, r2)" by fastforce
  have "?steps ([], mem_empty) ([?s], mem_empty)" using Begin [OF job_run.intros(1), where ps = "[]"] by (intro r_into_rtranclp) simp
  also have "?steps ([?s], mem_empty) ([?s, ?f], mem_empty)" using Begin [OF job_run.intros(3), where ps = "[?s]"] by (intro r_into_rtranclp) simp
  also have "?steps ([?s, ?f], mem_empty) ([?s, f'], mem_empty)"
    using Command [of 1 "[?s, ?f]" mem_redis mem_empty f' mem_empty mem_view id] f' by auto
  also have "?steps ([?s, f'], mem_empty) ([Return a, f'], r1)"
    using pool_alone [of "[?s, f']" 0 ?s mem_redis mem_view id mem_empty] a by simp
  also have "?steps ([Return a, f'], r1) ([Return a, Return b], r2)"
    using pool_alone [of "[Return a, f']" 1 f' mem_redis mem_view id r1] b by simp
  finally have steps: "?steps ([], mem_empty) ([Return a, Return b], r2)" .
  have "flights_inv mem_view (store_of r2)"
    using interleaved_jobs_keep_invariants [OF mem.redis_service_axioms _ steps] by simp
  with steps show ?thesis by blast
qed

end
