(* ===== verification/CommandBounds.thy ===== *)
theory CommandBounds
  imports Concurrency
begin

text \<open>
  How many Redis commands a run issues, whatever the replies and whatever others do between them:
  every run ends, and its traffic is bounded by what upstream returned.
\<close>

section \<open>Chains of commands\<close>

text \<open>
  \<open>n\<close> commands lead from one program to another; the state before each command is any state that
  satisfies \<open>allowed\<close>, since others act in between.
\<close>

inductive commands :: "'r redis \<Rightarrow> ('r \<Rightarrow> bool) \<Rightarrow> nat \<Rightarrow> 'a prog \<Rightarrow> 'a prog \<Rightarrow> bool" for R allowed where
  no_command: "commands R allowed 0 p p"
| one_more: "allowed r \<Longrightarrow> command R p r = Some (p', r') \<Longrightarrow> commands R allowed n p' q \<Longrightarrow> commands R allowed (Suc n) p q"

inductive_cases commandsE: "commands R allowed n p q"

text \<open>At most \<open>n\<close> commands on every path whose replies are allowed.\<close>

primrec spends :: "(string \<Rightarrow> json \<Rightarrow> bool) \<Rightarrow> ('a \<Rightarrow> bool) \<Rightarrow> 'a prog \<Rightarrow> nat \<Rightarrow> bool" where
  "spends ok Q (Return a) n \<longleftrightarrow> Q a"
| "spends ok Q (Get k c) n \<longleftrightarrow> 0 < n \<and> (\<forall>rep. (\<forall>j. rep = Bytes (Some j) \<longrightarrow> ok k j) \<longrightarrow> spends ok Q (c rep) (n - 1))"
| "spends ok Q (GetDel k c) n \<longleftrightarrow> 0 < n \<and> (\<forall>rep. (\<forall>j. rep = Bytes (Some j) \<longrightarrow> ok k j) \<longrightarrow> spends ok Q (c rep) (n - 1))"
| "spends ok Q (Put k j ttl c) n \<longleftrightarrow> 0 < n \<and> (\<forall>b. spends ok Q (c b) (n - 1))"
| "spends ok Q (Del k c) n \<longleftrightarrow> 0 < n \<and> (\<forall>b. spends ok Q (c b) (n - 1))"

lemma spends_mono: "spends ok Q p n \<Longrightarrow> n \<le> m \<Longrightarrow> spends ok Q p m"
  by (induction p arbitrary: n m) (simp, simp_all, (meson diff_le_mono less_le_trans rangeI)+)

lemma spends_andthen:
  "spends ok P p n \<Longrightarrow> (\<And>a. P a \<Longrightarrow> spends ok Q (f a) m) \<Longrightarrow> spends ok Q (andthen p f) (n + m)"
proof (induction p arbitrary: n)
  case (Return a)
  then show ?case using spends_mono [of ok Q "f a" m "n + m"] by simp
next
  case (Get k c)
  then show ?case by (cases n) simp_all
next
  case (GetDel k c)
  then show ?case by (cases n) simp_all
next
  case (Put k j ttl c)
  then show ?case by (cases n) simp_all
next
  case (Del k c)
  then show ?case by (cases n) simp_all
qed

lemma spends_get_json:
  assumes "\<And>err. Q (Inl err)" and "\<And>j v. ok k j \<Longrightarrow> dec j = Some v \<Longrightarrow> Q (Inr v)"
  shows "spends ok Q (get_json dec k) 1"
  using assms by (auto simp: get_json_def got_def bind_eq_Some_conv split: reply.split option.split)

lemma spends_read: "spends ok (\<lambda>_. True) (get_json dec k) 1"
  by (rule spends_get_json) (rule TrueI)+

lemma spends_set_json: "spends ok (\<lambda>_. True) (set_json enc k v ttl) 1"
  by (simp add: set_json_def split: option.split)

lemma spends_seq:
  "spends ok (\<lambda>_. True) p n \<Longrightarrow> (\<And>a. spends ok Q (f a) m) \<Longrightarrow> n + m \<le> l \<Longrightarrow> spends ok Q (andthen p f) l"
  using spends_andthen [of ok "\<lambda>_. True" p n Q f m] spends_mono by blast

section \<open>The jobs\<close>

lemma spends_sessions_prog: "spends ok (\<lambda>_. True) (sessions_prog uni fetched now) 3"
proof (cases fetched)
  case (Inr upstream)
  have names: "spends ok (\<lambda>_. True) (case res of
      Inl err \<Rightarrow> Return (Inl (Wrapf ''cache sessions'' err))
    | Inr u \<Rightarrow> andthen (set_json names_json KeySessionNames names 0) (\<lambda>res. Return (f res))) 1" for res f names
    by (cases res) (auto intro: spends_seq [OF spends_set_json, where m = 0])
  have "spends ok (\<lambda>_. True) (andthen (set_json snapshot_json KeyActiveSessions v sessions_CacheTTL) (\<lambda>res. case res of
      Inl err \<Rightarrow> Return (Inl (Wrapf ''cache sessions'' err))
    | Inr u \<Rightarrow> andthen (set_json names_json KeySessionNames names 0) (\<lambda>res. Return (f res)))) 2" for v f names
    by (rule spends_seq [OF spends_set_json names]) simp
  then show ?thesis
    unfolding sessions_prog_def Inr sum.case by (intro spends_seq [OF spends_read, where m = 2]) simp_all
qed (simp add: sessions_prog_def)

lemma spends_cache_liveries: "spends ok (\<lambda>_. True) (cache_liveries_prog items) (length items)"
proof (induction items)
  case (Cons item items)
  have "spends ok (\<lambda>_. True) (case res of
      Inl err \<Rightarrow> Return (Inl (Wrapf (''cache livery '' @ l) err)) | Inr u \<Rightarrow> cache_liveries_prog items) (length items)" for res l
    using Cons by (cases res) simp_all
  then show ?case
    unfolding cache_liveries_prog.simps Let_def by (intro spends_seq [OF spends_set_json, where m = "length items"]) simp_all
qed simp

lemma spends_lookup_prog: "spends ok (\<lambda>_. True) (lookup_prog liveryID liveries) 1"
  by (auto simp: lookup_prog_def split: option.split intro: spends_seq [OF spends_read, where m = 0])

lemma spends_map_prog:
  "spends ok (\<lambda>x. length (fst x) = length items) (map_prog oob session ex now items liveries) (length items)"
proof (induction items arbitrary: liveries)
  case (Cons item items)
  have "spends ok (\<lambda>x. length (fst x) = length (item # items))
      (andthen (map_prog oob session ex now items m1) (\<lambda>(fs, m). Return (g # fs, m))) (length items)" for m1 g
    using spends_andthen [OF Cons.IH [of m1], of "\<lambda>x. length (fst x) = length (item # items)"
        "\<lambda>(fs, m). Return (g # fs, m)" 0] by (auto split: prod.split)
  then have "spends ok (\<lambda>x. length (fst x) = length (item # items)) ((\<lambda>(livery, liveries).
      andthen (map_prog oob session ex now items liveries) (\<lambda>(fs, liveries).
        Return (MapFlight oob item session livery (ex (u_flight_id item)) now # fs, liveries))) x) (length items)" for x
    by (simp add: case_prod_unfold)
  then show ?case
    unfolding map_prog.simps by (intro spends_seq [OF spends_lookup_prog, where m = "length items"]) simp_all
qed simp

lemma spends_history_prog: "spends ok (\<lambda>_. True) (history_prog ex f) 2"
proof -
  have "spends ok (\<lambda>_. True) (andthen (set_json history_json k v ttl) (\<lambda>_. Return ())) 1" for k v ttl
    by (rule spends_seq [OF spends_set_json, where m = 0]) simp_all
  then show ?thesis
    by (auto simp: history_prog_def Let_def split: option.split intro!: spends_seq [OF spends_read, where m = 1])
qed

lemma spends_histories_prog: "spends ok (\<lambda>_. True) (histories_prog ex fs) (2 * length fs)"
  by (induction fs) (auto intro: spends_seq [OF spends_history_prog])

definition refresh_cost :: "(string \<Rightarrow> go_error + upstream_flight list) \<Rightarrow> session \<Rightarrow> nat" where
  "refresh_cost fetch session =
     (if eligible session then (case fetch (s_id session) of Inl err \<Rightarrow> 0 | Inr upstream \<Rightarrow> 2 + 3 * length upstream) else 0)"

lemma spends_refresh_prog:
  "spends ok (\<lambda>_. True) (refresh_prog oob (Inr upstream) session now liveries) (2 + 3 * length upstream)"
proof -
  let ?k = "KeyActiveFlights (s_normalized session)"
  have store: "spends ok (\<lambda>_. True) (andthen (set_json flights_snapshot_json ?k v ttl) (\<lambda>res. Return (g res))) 1" for v ttl g
    by (rule spends_seq [OF spends_set_json, where m = 0]) simp_all
  have "spends ok (\<lambda>_. True) (andthen (histories_prog ex (UpsertFlights existing mapped)) (\<lambda>_.
      andthen (set_json flights_snapshot_json ?k v ttl) (\<lambda>res. Return (g res)))) (2 * length upstream + 1)"
    if "length mapped = length upstream" for ex existing mapped v ttl g
  proof (rule spends_seq [OF spends_histories_prog store])
    have "length (UpsertFlights existing mapped) \<le> length mapped"
      by (simp add: UpsertFlights_last_per_key length_last_per_key [THEN order_trans])
    with that show "2 * length (UpsertFlights existing mapped) + 1 \<le> 2 * length upstream + 1" by simp
  qed
  then have "spends ok (\<lambda>_. True)
      (andthen (map_prog oob session (index_flights existing) now upstream liveries) (\<lambda>(mapped, liveries).
        andthen (histories_prog (index_flights existing) (UpsertFlights existing mapped)) (\<lambda>_.
        andthen (set_json flights_snapshot_json ?k (next_flights existing mapped now) GameActiveFlightTTL)
          (\<lambda>res. Return (case res of Inl err \<Rightarrow> Inl (Wrapf ''cache flights'' err)
             | Inr _ \<Rightarrow> Inr (length (UpsertFlights existing mapped)), liveries)))))
      (length upstream + (2 * length upstream + 1))" for existing
    by (intro spends_andthen [OF spends_map_prog]) auto
  then show ?thesis
    unfolding refresh_prog_def sum.case Let_def
    by (intro spends_seq [OF spends_read, where m = "length upstream + (2 * length upstream + 1)"]) simp_all
qed

lemma spends_sessions_loop_prog:
  "spends ok (\<lambda>_. True) (sessions_loop_prog oob fetch now sessions liveries counted)
     (sum_list (map (refresh_cost fetch) sessions))"
proof (induction sessions arbitrary: liveries counted)
  case (Cons session sessions)
  have rest: "spends ok (\<lambda>_. True) (case x of (res, liveries) \<Rightarrow> case res of
      Inl err \<Rightarrow> sessions_loop_prog oob fetch now sessions liveries counted
    | Inr count \<Rightarrow> sessions_loop_prog oob fetch now sessions liveries (counted + count))
      (sum_list (map (refresh_cost fetch) sessions))" for x
    using Cons.IH by (cases x; cases "fst x") auto
  show ?case
  proof (cases "eligible session")
    case True
    have one: "spends ok (\<lambda>_. True) (refresh_prog oob (fetch (s_id session)) session now liveries) (refresh_cost fetch session)"
      using True spends_refresh_prog
      by (cases "fetch (s_id session)") (simp_all add: refresh_cost_def, simp add: refresh_prog_def)
    from True show ?thesis by (auto simp: eligible_def intro!: spends_seq [OF one rest])
  next
    case False
    then show ?thesis using Cons.IH by (auto simp: eligible_def refresh_cost_def)
  qed
qed simp

lemma spends_flights_prog:
  assumes "\<And>j s. ok KeyActiveSessions j \<Longrightarrow> snapshot_of_json j = Some s \<Longrightarrow>
    sum_list (map (refresh_cost fetch) (elems (snap_result s))) \<le> N"
  shows "spends ok (\<lambda>_. True) (flights_prog oob fetch now) (1 + N)"
proof -
  let ?Q = "\<lambda>res. \<forall>s. res = Inr s \<longrightarrow> sum_list (map (refresh_cost fetch) (elems (snap_result s))) \<le> N"
  have "spends ok (\<lambda>_. True) (case res of Inl err \<Rightarrow> Return (Inr ())
       | Inr snapshot \<Rightarrow>
           if elems (snap_result snapshot) = [] then Return (Inr ())
           else andthen (sessions_loop_prog oob fetch now (elems (snap_result snapshot)) Map.empty 0)
             (\<lambda>_. Return (Inr ()))) N" if "?Q res" for res
    using that by (cases res) (auto intro: spends_seq [OF spends_sessions_loop_prog, where m = 0])
  moreover have "spends ok ?Q (get_json snapshot_of_json KeyActiveSessions) 1"
    by (rule spends_get_json) (use assms in auto)
  ultimately show ?thesis unfolding flights_prog_def by (intro spends_andthen)
qed

context redis_service
begin

lemma commands_spend:
  assumes "commands R allowed n p q" and ok: "\<And>r k j. allowed r \<Longrightarrow> view r k = Some (Some j) \<Longrightarrow> ok k j"
    and "spends ok Q p m"
  shows "n \<le> m"
  using assms(1,3)
proof (induction arbitrary: m)
  case (one_more r p p' r' n q)
  have "0 < m \<and> spends ok Q p' (m - 1)"
  proof (cases p)
    case (Get k c)
    then obtain rep where g: "r_get R k r = (rep, r')" "p' = c rep" using one_more(2) by (auto split: prod.splits)
    have "rep = Bytes (Some j) \<Longrightarrow> ok k j" for j using get_bytes [of k r "Some j" r'] g(1) ok [OF one_more(1)] by simp
    with one_more.prems Get g(2) show ?thesis by simp
  next
    case (GetDel k c)
    then obtain rep where g: "r_getdel R k r = (rep, r')" "p' = c rep" using one_more(2) by (auto split: prod.splits)
    have "rep = Bytes (Some j) \<Longrightarrow> ok k j" for j using getdel_bytes [of k r "Some j" r'] g(1) ok [OF one_more(1)] by simp
    with one_more.prems GetDel g(2) show ?thesis by simp
  qed (use one_more(2) one_more.prems in \<open>auto split: prod.splits\<close>)
  with one_more.IH [of "m - 1"] show ?case by linarith
qed simp

end

section \<open>Properties\<close>

text \<open>The stored sessions cost at most \<open>N\<close> commands to refresh.\<close>

definition affordable ::
  "('r \<Rightarrow> string \<Rightarrow> payload option) \<Rightarrow> (string \<Rightarrow> go_error + upstream_flight list) \<Rightarrow> nat \<Rightarrow> 'r \<Rightarrow> bool"
where
  "affordable view fetch N r \<longleftrightarrow>
     (\<forall>s. stored view snapshot_of_json KeyActiveSessions (store_of r) = Some s \<longrightarrow>
        sum_list (map (refresh_cost fetch) (elems (snap_result s))) \<le> N)"

text \<open>
  C10: No run goes on for ever: whatever Redis replies and whatever others do between its commands, a
  run of the sessions job issues at most 3 commands, a run of the liveries job at most one for each
  livery, and a run of the flights job one to read the sessions and then, for each session whose
  flights were fetched, at most 2 plus 3 for each of its flights.
\<close>
theorem job_commands_bounded:
  assumes "redis_service R view"
  shows "(commands R (\<lambda>_. True) n (sessions_prog uni fetched now) q \<longrightarrow> n \<le> 3) \<and>
    (commands R (\<lambda>_. True) n (liveries_prog (Inr items)) q \<longrightarrow> n \<le> length items) \<and>
    (commands R (affordable view fetch N) n (flights_prog oob fetch now) q \<longrightarrow> n \<le> 1 + N)"
proof (intro conjI impI)
  note bound = redis_service.commands_spend [OF assms]
  assume "commands R (\<lambda>_. True) n (sessions_prog uni fetched now) q"
  then show "n \<le> 3" by (rule bound [where ok = "\<lambda>_ _. True" and Q = "\<lambda>_. True"]) (simp, rule spends_sessions_prog)
next
  note bound = redis_service.commands_spend [OF assms]
  assume "commands R (\<lambda>_. True) n (liveries_prog (Inr items)) q"
  then show "n \<le> length items"
    by (rule bound [where ok = "\<lambda>_ _. True" and Q = "\<lambda>_. True"]) (simp, simp add: liveries_prog_def spends_cache_liveries)
next
  let ?ok = "\<lambda>k j. \<forall>s. k = KeyActiveSessions \<longrightarrow> snapshot_of_json j = Some s \<longrightarrow>
    sum_list (map (refresh_cost fetch) (elems (snap_result s))) \<le> N"
  assume run: "commands R (affordable view fetch N) n (flights_prog oob fetch now) q"
  show "n \<le> 1 + N"
  proof (rule redis_service.commands_spend [OF assms run, where ok = ?ok and Q = "\<lambda>_. True"])
    show "spends ?ok (\<lambda>_. True) (flights_prog oob fetch now) (1 + N)" by (rule spends_flights_prog) blast
  qed (auto simp: affordable_def stored_def)
qed

theorem job_commands_bounded_witness:
  "\<exists>q q'. commands mem_redis (\<lambda>_. True) 3 (sessions_prog id (Inr []) 0) q \<and> (3 :: nat) \<le> 3 \<and>
     commands mem_redis (affordable mem_view (\<lambda>_. Inr [ex_upstream]) 5) 1 (flights_prog (\<lambda>_. 0) (\<lambda>_. Inr [ex_upstream]) 0) q' \<and>
     (1 :: nat) \<le> 1 + 5"
proof -
  let ?f = "flights_prog (\<lambda>_. 0) (\<lambda>_. Inr [ex_upstream]) 0" and ?ok = "affordable mem_view (\<lambda>_. Inr [ex_upstream]) 5"
  let ?p = "sessions_prog id (Inr []) 0"
  note bounded = job_commands_bounded [OF mem.redis_service_axioms]
  obtain q where "command mem_redis ?f mem_empty = Some (q, mem_empty)"
    by (simp add: flights_prog_def get_json_def mem_redis_def)
  moreover have "?ok mem_empty" by (simp add: affordable_def)
  ultimately have f: "commands mem_redis ?ok 1 ?f q" using one_more [OF _ _ no_command] by fastforce
  obtain j where j: "snapshot_json (run_snapshot id [] 0 (Inl ErrMiss)) = Some j"
    using run_snapshot_encodes [of 0 "Inl ErrMiss" id "[]"] by auto
  obtain nj where nj: "names_json (Some (map s_normalized (prepareCurrentSessions id [] 0))) = Some nj"
    using names_encode by blast
  have "\<exists>x. Option.bind (command mem_redis ?p mem_empty) (\<lambda>(p, r).
      Option.bind (command mem_redis p r) (\<lambda>(p, r). command mem_redis p r)) = Some x"
    using j nj by (simp add: sessions_prog_def get_json_def got_def set_json_def mem_redis_def mem_empty_def mem_view_def mem_reply_def mem_store_def)
  then obtain p1 p2 p3 r1 r2 r3 where "command mem_redis ?p mem_empty = Some (p1, r1)"
      "command mem_redis p1 r1 = Some (p2, r2)" "command mem_redis p2 r2 = Some (p3, r3)"
    by (fastforce simp: bind_eq_Some_conv)
  then have p: "commands mem_redis (\<lambda>_. True) 3 ?p p3"
    unfolding numeral_3_eq_3 by (blast intro: one_more no_command TrueI)
  from p f bounded show ?thesis by blast
qed

end
