(* ===== verification/Journey.thy ===== *)
theory Journey
  imports System KeyRevocation
begin

text \<open>
  The whole way from upstream to a browser: a run of the flights job, then a request that carries the
  cookie of a session and passes CORS, the recoverer, the access log, the gate of the API, the
  parameters and the handler.
\<close>

section \<open>Bodies that encode\<close>

lemma filter_json_total: "\<exists>j. filter_json f = Some j"
proof -
  have "\<exists>j. enc_slice (\<lambda>s. Some (JStr s)) x = Some j" for x
    using enc_list_total [of "elems x" "\<lambda>s. Some (JStr s)"] by (cases x) (auto simp: enc_slice_def)
  then obtain j where "enc_slice (\<lambda>s. Some (JStr s)) (fl_options f) = Some j" by blast
  then show ?thesis by (simp add: filter_json_def jobj_def enc_defs)
qed

lemma flights_body_encodes:
  assumes "year_in_range (mt_cached (ld_meta loaded))" and fin: "\<And>f. f \<in> set paged \<Longrightarrow> finite_flight (fdata f)"
  shows "\<exists>j. response_json flight_json (flights_body query loaded paged) = Some j"
proof -
  obtain fj where "enc_slice filter_json (Some (ld_filters loaded)) = Some fj"
    using enc_list_total [of "ld_filters loaded" filter_json] filter_json_total by (auto simp: enc_slice_def)
  moreover have "\<exists>j. flight_json f = Some j" if "f \<in> set (map drop_flight_history paged)" for f
    using that fin by (intro flight_json_flat) (auto simp: drop_flight_history_def)
  then obtain rj where "enc_slice flight_json (Some (map drop_flight_history paged)) = Some rj"
    using enc_list_total [of "map drop_flight_history paged" flight_json] by (auto simp: enc_slice_def)
  ultimately show ?thesis
    using assms(1)
    by (simp add: response_json_def data_json_def flights_body_def meta_json_def pagination_json_def jobj_def enc_defs
        marshal_time_def)
qed

lemma page_encodes:
  assumes "\<forall>item \<in> set upstream. encodable_item item now" and "year_in_range now"
    and mapped: "list_all2 (mapped_with view oob session (index_flights existing) now st) upstream mapped"
  shows "\<exists>j. response_json flight_json (flights_body query
    (loaded_of uni query (next_flights existing mapped now)) (take n (UpsertFlights existing mapped))) = Some j"
proof (rule flights_body_encodes)
  show "year_in_range (mt_cached (ld_meta (loaded_of uni query (next_flights existing mapped now))))"
    using assms(2) by (simp add: loaded_of_def flights_meta_def)
next
  fix f assume "f \<in> set (take n (UpsertFlights existing mapped))"
  then have "f \<in> set (UpsertFlights existing mapped)" by (rule in_set_takeD)
  then obtain g where "g \<in> set mapped" "f = upserted existing g"
    using set_last_per_key [of "\<lambda>f. flight_id f" "map (upserted existing) mapped"]
    by (auto simp: UpsertFlights_last_per_key)
  with mapped_with_finite [OF mapped assms(1)] show "finite_flight (fdata f)" by (simp add: finite_upserted)
qed

section \<open>A session opens the API\<close>

context live_redis
begin

lemma api_gate_open:
  assumes up: "up (server st)" and s: "session_table view st (SessionIDFromRequest r) = Some s"
    and id: "SessionIDFromRequest r \<noteq> ''''" and fresh: "\<not> Expired s now" and path: "isGameAPIPath (rq_path r)"
  obtains st' where "api_gate R api_keys now next r w st = next (SetClaims r (Session_Claims s)) w st'"
    "contents st' = contents st" "up (server st')"
proof -
  obtain res st' where g: "GetJSON R browser_session_of_json (KeySession (SessionIDFromRequest r)) st = (res, st')" by fastforce
  have "res = Inr s" by (rule GetJSON_live(2) [OF up g]) (use s in \<open>simp add: session_table_def\<close>)
  with g id fresh have look: "Service_Lookup R now r st = (Inr (Some (Session_Claims s)), st')"
    by (simp add: Service_Lookup_def Service_Get_def Let_def)
  have "prefix ''/api/v1'' (rq_path r)"
    using path unfolding isGameAPIPath_def by (elim prefix_order.trans [rotated]) simp
  with look path have "api_gate R api_keys now next r w st = next (SetClaims r (Session_Claims s)) w st'"
    by (simp add: api_gate_def AuthenticateAPI_def)
  then show thesis using GetJSON_frame [OF g] GetJSON_live(1) [OF up g] by (rule that)
qed

end

section \<open>A key opens the API\<close>

definition key_opens :: "('r \<Rightarrow> string \<Rightarrow> payload option) \<Rightarrow> (string \<Rightarrow> bool query) \<Rightarrow> 'r store \<Rightarrow> string \<Rightarrow> bool" where
  "key_opens view api_keys st k \<longleftrightarrow>
     (case cached_status view k st of Some c \<Rightarrow> sc_found c \<and> sc_active c | None \<Rightarrow> key_enabled api_keys k)"

context live_redis
begin

lemma KeyLookup_live:
  assumes up: "up (server st)" and key: "key_opens view api_keys st k"
  obtains st' where "KeyLookup R api_keys k st = (Inr (Some (no_claims\<lparr>c_api_key := True\<rparr>)), st')" "up (server st')"
proof -
  obtain res st1 where g: "GetJSON R status_of_json (KeyAPIKeyStatus k) st = (res, st1)" by fastforce
  note live = GetJSON_live [OF up g]
  have "\<exists>st'. key_active R api_keys k st = (Inr True, st') \<and> up (server st')"
  proof (cases "cached_status view k st")
    case None
    with live(3) g obtain err where err: "res = Inl err" by (auto simp: cached_status_def)
    have db: "Repository_Active api_keys k = Inr (True, True)"
      using key None by (simp add: key_opens_def key_enabled_def Repository_Active_def)
    obtain j where j: "status_json \<lparr>sc_active = True, sc_found = True\<rparr> = Some j" using status_json_total by blast
    obtain r2 st2 where s: "SetJSON R status_json (KeyAPIKeyStatus k) \<lparr>sc_active = True, sc_found = True\<rparr> cacheTTL st1 = (r2, st2)"
      by fastforce
    show ?thesis using g err db s SetJSON_live(1) [OF live(1) s j] by (simp add: key_active_def)
  next
    case (Some c)
    with live(2) have "res = Inr c" by (simp add: cached_status_def)
    with g key Some live(1) show ?thesis by (simp add: key_active_def key_opens_def)
  qed
  then show thesis by (auto simp: KeyLookup_def intro: that)
qed

lemma api_gate_key_open:
  assumes up: "up (server st)" and api: "prefix ''/api/v1'' (rq_path r)" and path: "\<not> isGameAPIPath (rq_path r)"
    and key: "request_key r \<noteq> ''''" "key_opens view api_keys st (request_key r)"
  obtains st' res where "api_gate R api_keys now next r w st = next (SetClaims r (key_claims r)) w st'" "up (server st')"
    "KeyLookup R api_keys (request_key r) st = (res, st')"
proof -
  obtain st' where k: "KeyLookup R api_keys (request_key r) st = (Inr (Some (no_claims\<lparr>c_api_key := True\<rparr>)), st')"
    and "up (server st')"
    by (rule KeyLookup_live [OF up key(2)])
  moreover have "api_gate R api_keys now next r w st = next (SetClaims r (key_claims r)) w st'"
    using k [unfolded request_key_def] api path key(1)
    by (simp add: api_gate_def AuthenticateAPI_def key_claims_def request_key_def no_claims_def)
  ultimately show thesis by (intro that) simp_all
qed

end

lemma api_gate_public: "\<not> prefix ''/api/v1'' (rq_path r) \<Longrightarrow> api_gate R api_keys now next r w st = next r w st"
  by (simp add: api_gate_def AuthenticateAPI_def)

section \<open>Properties\<close>

text \<open>The parameters of a request for the first page of a server, without filters.\<close>

definition first_page :: "string \<Rightarrow> api_call" where
  "first_page serverID =
     CallActiveFlights \<lparr>p_server = serverID, p_pilot_state = None, p_user_name = None, p_call_sign = None\<rparr> None None"

definition first_query :: "string \<Rightarrow> flights_query" where
  "first_query serverID =
     \<lparr>q_server = serverID, q_pilot_states = None, q_user_name = '''', q_call_sign = '''',
      q_page_number = 1, q_page_length = 50\<rparr>"

lemma apiHandler_first_page:
  "apiHandler a m (first_page serverID) = GetActiveFlights (app_unicode a) (app_redis a) (first_query serverID)"
  by (simp add: first_page_def first_query_def flightsQuery_def stringValue_def pageValue_def
      DefaultPageNumber_def DefaultPageLength_def)

text \<open>
  C1: Fresh data reach the browser: after a run of the flights job that fetched the flights of a
  session, a signed-in browser that asks for the server's flights, through the whole stack, gets 200
  and one JSON document: the first page of the upstream flights, mapped one by one and merged by id,
  in upstream order, without histories, with the time of the run.
\<close>
theorem flights_reach_the_browser:
  assumes "live_redis (app_redis a) view up" and "up (server st)" and "recovers recoverer"
    and "stored view snapshot_of_json KeyActiveSessions st = Some snap"
    and "session \<in> set (elems (snap_result snap))" and "eligible session"
    and "distinct (map s_normalized (elems (snap_result snap)))"
    and "fetch (s_id session) = Inr upstream"
    and "\<forall>item \<in> set upstream. encodable_item item now" and "year_in_range now" and "\<not> is_zero_time now"
    and "server_known view (s_normalized session) st" and "length upstream < 2 ^ 63"
    and "isGameAPIPath (rq_path r)" and "\<not> preflight r" and "w_status w = None" and "w_body w = []"
    and "session_table view st (SessionIDFromRequest r) = Some s" and "SessionIDFromRequest r \<noteq> ''''"
    and "\<not> Expired s (at_time m)"
    and "route (SetClaims r (Session_Claims s)) = Api (first_page (s_normalized session))"
  shows "\<exists>mapped page j w' ms st'.
    list_all2 (mapped_with view oob session (index_flights (current_flights view (s_normalized session) st)) now st)
      upstream mapped \<and>
    page = take 50 (UpsertFlights (current_flights view (s_normalized session) st) mapped) \<and>
    router a m route pattern recoverer r w (mets, snd (flights_Run (app_redis a) oob fetch now st)) = Served w' (ms, st') \<and>
    w_status w' = Some 200 \<and> w_body w' = [JsonChunk j] \<and>
    response_json flight_json (flights_body (first_query (s_normalized session))
      (loaded_of (app_unicode a) (first_query (s_normalized session))
        (next_flights (current_flights view (s_normalized session) st) mapped now)) page) = Some j"
proof -
  let ?R = "app_redis a" and ?n = "s_normalized session" and ?e = "current_flights view (s_normalized session) st"
  let ?body = "\<lambda>mapped. response_json flight_json (flights_body (first_query ?n)
    (loaded_of (app_unicode a) (first_query ?n) (next_flights ?e mapped now)) (take 50 (UpsertFlights ?e mapped)))"
  let ?fetched = "\<lambda>mapped. list_all2 (mapped_with view oob session (index_flights ?e) now st) upstream mapped"
  obtain res st1 where run: "flights_Run ?R oob fetch now st = (res, st1)" by fastforce
  have up1: "up (server st1)" by (rule live_redis.flights_Run_up [OF assms(1) run assms(2)])
  have "view (server st1) (KeySession i) = view (server st) (KeySession i)" for i
    by (rule redis_service.flights_Run_frame [OF live_redis.axioms(1) [OF assms(1)] run])
      (simp_all add: writes_to_def key_defs)
  then have session: "session_table view st1 (SessionIDFromRequest r) = Some s"
    using assms(18) by (simp add: session_table_def stored_def)
  have served: "\<exists>w2 st2. api_gate ?R (app_api_keys a) (at_time m) (site a m route) r w1 st1 = Served w2 st2 \<and>
      (\<exists>mapped j. ?fetched mapped \<and> ?body mapped = Some j \<and> w2 = WriteJSON 200 (Some j) w1)" for w1
  proof -
    obtain st2 where gate: "api_gate ?R (app_api_keys a) (at_time m) (site a m route) r w1 st1 =
        site a m route (SetClaims r (Session_Claims s)) w1 st2"
      and same: "view (server st2) = view (server st1)" "up (server st2)"
      by (rule live_redis.api_gate_open [OF assms(1) up1 session assms(19,20,14)])
    obtain mapped st3 where mapped: "?fetched mapped"
      and page: "GetActiveFlights (app_unicode a) ?R (first_query ?n) (SetClaims r (Session_Claims s)) w1 st2 =
        Served (WriteJSON 200 (?body mapped) w1) st3"
      using job_feeds_reader [OF assms(1,2) run assms(4-13) _ same, of 50 "app_unicode a" "SetClaims r (Session_Claims s)" w1]
      by (auto simp: first_query_def)
    obtain j where "?body mapped = Some j"
      using page_encodes [OF assms(9,10) mapped] by blast
    with gate mapped page assms(21) show ?thesis by (auto simp: apiHandler_first_page)
  qed
  obtain w1 w2 ms st2 mapped j where "router a m route pattern recoverer r w (mets, st1) = Served w2 (ms, st2)"
      "w_status w1 = None" "w_body w1 = []" "?fetched mapped" "?body mapped = Some j" "w2 = WriteJSON 200 (Some j) w1"
    using router_serves [OF assms(3,15), of w a m route st1
        "\<lambda>w1 w2 st2. \<exists>mapped j. ?fetched mapped \<and> ?body mapped = Some j \<and> w2 = WriteJSON 200 (Some j) w1" pattern mets]
      served assms(16,17) by auto
  then show ?thesis
    by (intro exI [of _ mapped] exI [of _ "take 50 (UpsertFlights ?e mapped)"] exI [of _ j] exI [of _ w2])
       (auto simp: run WriteJSON_def)
qed

section \<open>The stages of signing in\<close>

lemma router_signed_link:
  assumes T: "timed_redis (app_redis a) view up clock expires" and "up (server st)" and "recovers recoverer" and "key_ok (app_secret a)"
    and "prefix ''/api/v1'' (rq_path r)" and "\<not> isGameAPIPath (rq_path r)" and "\<not> preflight r"
    and "request_key r \<noteq> []" and "key_opens view (app_api_keys a) st (request_key r)"
    and "route (SetClaims r (key_claims r)) = Api CallSignedLink" and "c_discord_user (key_claims r) \<noteq> []"
    and "requested_redirect (rq_body r) = Some wanted" and "NormalizeRedirect wanted = Inr redirectTo"
    and "GetByDiscordID (app_users a) (c_discord_user (key_claims r)) = Inr (Some user)"
    and "at_ticket_id m = Some i" and "at_nonce m = Some nonce" and "length nonce = NonceSize"
    and "ticket_ok (link_ticket (key_claims r) user redirectTo)"
  obtains v ms st1 j where
    "router a m route pattern recoverer r w (mets, st) =
       Served (WriteJSON 200 (link_json (FormatLoginURL (ui_base_url (cfg_auth (app_config a)))
         (link_token (app_secret a) nonce i)) redirectTo) v) (ms, st1)"
    "w_status v = w_status w" "w_body v = w_body w"
    "ticket_of_json j = Some (link_ticket (key_claims r) user redirectTo)"
    "decryptTicketID (app_secret a) (link_token (app_secret a) nonce i) = Inr i"
    "alive_until view clock expires (KeyLoginTicket (hex_encode i)) (Some j) (clock (server st) + TicketTTL) (server st1)"
    "up (server st1)" "clock (server st1) = clock (server st)"
proof -
  let ?R = "app_redis a" and ?c = "key_claims r" and ?token = "link_token (app_secret a) nonce i"
    and ?base = "ui_base_url (cfg_auth (app_config a))" and ?t = "link_ticket (key_claims r) user redirectTo"
  note L = timed_redis.axioms(1) [OF T] and E = timed_redis.axioms(2) [OF T]
  have "\<exists>w2 st1. api_gate ?R (app_api_keys a) (at_time m) (site a m route) r w' st = Served w2 st1 \<and>
      (w2 = WriteJSON 200 (link_json (FormatLoginURL ?base ?token) redirectTo) w' \<and> up (server st1) \<and>
       (\<exists>st0. Issue ?R (app_secret a) (Some i) (Some nonce) ?t st0 = (Inr ?token, st1) \<and> clock (server st0) = clock (server st)))" for w'
  proof -
    obtain st0 res where gate: "api_gate ?R (app_api_keys a) (at_time m) (site a m route) r w' st =
        site a m route (SetClaims r ?c) w' st0" and up: "up (server st0)"
      and look: "KeyLookup ?R (app_api_keys a) (request_key r) st = (res, st0)"
      by (rule live_redis.api_gate_key_open [OF L assms(2,5,6,8,9)])
    have now: "clock (server st0) = clock (server st)"
      using expiring_redis.KeyLookup_entry [OF E look] by (auto simp: leaves_def)
    have c: "rq_claims (SetClaims r ?c) = Some ?c" "requested_redirect (rq_body (SetClaims r ?c)) = Some wanted"
      using assms(12) by (simp_all add: SetClaims_def)
    obtain st1 where "GenerateSignedLink ?R (app_users a) (app_secret a) ?base (Some i) (Some nonce) (SetClaims r ?c) w' st0 =
        Served (WriteJSON 200 (link_json (FormatLoginURL ?base ?token) redirectTo) w') st1"
      "Issue ?R (app_secret a) (Some i) (Some nonce) ?t st0 = (Inr ?token, st1)" "up (server st1)"
      by (rule live_redis.GenerateSignedLink_live [OF L up assms(4) c(1) assms(11) c(2) assms(13,14)])
    with gate now assms(10,15,16) show ?thesis by auto
  qed
  from router_serves [where w = w and pattern = pattern and mets = mets, OF assms(3,7) this] obtain v w2 ms st1 st0 where
    router: "router a m route pattern recoverer r w (mets, st) = Served w2 (ms, st1)" "w_status v = w_status w" "w_body v = w_body w"
    and P: "w2 = WriteJSON 200 (link_json (FormatLoginURL ?base ?token) redirectTo) v" "up (server st1)"
    and issue: "Issue ?R (app_secret a) (Some i) (Some nonce) ?t st0 = (Inr ?token, st1)"
    and now: "clock (server st0) = clock (server st)"
    by (elim exE conjE) (rule that)
  show thesis
    by (rule timed_redis.Issue_alive [OF T issue assms(17,18)], rule that [OF router(1) [unfolded P(1)] router(2,3)])
      (simp_all add: now P(2))
qed

lemma router_login:
  assumes T: "timed_redis (app_redis a) view up clock expires" and "up (server st1)" and "recovers recoverer"
    and "alive_until view clock expires (KeyLoginTicket (hex_encode i)) (Some j) d (server st1)" and "clock (server st1) < d"
    and "ticket_of_json j = Some t" and "decryptTicketID (app_secret a) token = Inr i"
    and "query_value r ''token'' = token" and "token \<noteq> []"
    and "op_ok (OpCreate (at_time m) (at_uuid m) (ticket_input t))"
    and "\<not> prefix ''/api/v1'' (rq_path r)" and "\<not> preflight r" and "route r = SiteLogin"
  obtains v ms st2 j' where
    "router a m route pattern recoverer r w (mets, st1) =
       Served (http_Redirect r (t_redirect t) 303 (SetCookie r (at_uuid m) v)) (ms, st2)"
    "w_status v = w_status w" "w_body v = w_body w"
    "browser_session_of_json j' = Some (new_session (at_time m) (at_uuid m) (ticket_input t))"
    "alive_until view clock expires (KeySession (at_uuid m)) (Some j') (clock (server st1) + session_TTL) (server st2)"
    "up (server st2)" "clock (server st2) = clock (server st1)"
proof -
  let ?R = "app_redis a"
  have "\<exists>w2 st2. api_gate ?R (app_api_keys a) (at_time m) (site a m route) r w' st1 = Served w2 st2 \<and>
      (w2 = http_Redirect r (t_redirect t) 303 (SetCookie r (at_uuid m) w') \<and>
       (\<exists>j'. browser_session_of_json j' = Some (new_session (at_time m) (at_uuid m) (ticket_input t)) \<and>
         alive_until view clock expires (KeySession (at_uuid m)) (Some j') (clock (server st1) + session_TTL) (server st2)) \<and>
       up (server st2) \<and> clock (server st2) = clock (server st1))" for w'
  proof -
    obtain st2 j' where l: "Login ?R (app_secret a) (app_pages a) (at_time m) (at_uuid m) r w' st1 =
        Served (http_Redirect r (t_redirect t) 303 (SetCookie r (at_uuid m) w')) st2"
      "browser_session_of_json j' = Some (new_session (at_time m) (at_uuid m) (ticket_input t))"
      "alive_until view clock expires (KeySession (at_uuid m)) (Some j') (clock (server st1) + session_TTL) (server st2)"
      by (rule timed_redis.Login_timed [OF T assms(2,4-10)])
    moreover note timed_redis.Login_state [OF T assms(2), of "app_secret a" "app_pages a" "at_time m" "at_uuid m" r w', unfolded l state_of.simps]
    ultimately show ?thesis using assms(13) by (auto simp: api_gate_public [OF assms(11)])
  qed
  from router_serves [where w = w and pattern = pattern and mets = mets, OF assms(3,12) this] obtain v w2 ms st2 j' where
    router: "router a m route pattern recoverer r w (mets, st1) = Served w2 (ms, st2)" "w_status v = w_status w" "w_body v = w_body w"
    and P: "w2 = http_Redirect r (t_redirect t) 303 (SetCookie r (at_uuid m) v)" "up (server st2)" "clock (server st2) = clock (server st1)"
    and j': "browser_session_of_json j' = Some (new_session (at_time m) (at_uuid m) (ticket_input t))"
      "alive_until view clock expires (KeySession (at_uuid m)) (Some j') (clock (server st1) + session_TTL) (server st2)"
    by (elim exE conjE) (rule that)
  show thesis by (rule that [OF router(1) [unfolded P(1)] router(2,3) j' P(2,3)])
qed

lemma router_login_late:
  assumes T: "timed_redis (app_redis a) view up clock expires" and "up (server st1)" and "recovers recoverer"
    and "view (server st1) (KeyLoginTicket (hex_encode i)) = None" and "decryptTicketID (app_secret a) token = Inr i"
    and "query_value r ''token'' = token"
    and "\<not> prefix ''/api/v1'' (rq_path r)" and "\<not> preflight r" and "route r = SiteLogin"
  obtains v ms st2 where "router a m route pattern recoverer r w (mets, st1) = Served (renderExpired (app_pages a) v) (ms, st2)"
    "w_status v = w_status w" "w_body v = w_body w" "up (server st2)" "clock (server st2) = clock (server st1)"
proof -
  have "\<exists>w2 st2. api_gate (app_redis a) (app_api_keys a) (at_time m) (site a m route) r w' st1 = Served w2 st2 \<and>
      w2 = renderExpired (app_pages a) w' \<and> up (server st2) \<and> clock (server st2) = clock (server st1)" for w'
  proof -
    obtain st2 where l: "Login (app_redis a) (app_secret a) (app_pages a) (at_time m) (at_uuid m) r w' st1 =
        Served (renderExpired (app_pages a) w') st2"
      by (rule live_redis.Login_again [OF timed_redis.axioms(1) [OF T] assms(2,4,6,5)])
    moreover note timed_redis.Login_state [OF T assms(2), of "app_secret a" "app_pages a" "at_time m" "at_uuid m" r w', unfolded l state_of.simps]
    ultimately show ?thesis using assms(9) by (simp add: api_gate_public [OF assms(7)])
  qed
  from router_serves [where w = w and pattern = pattern and mets = mets, OF assms(3,8) this] that show thesis by blast
qed

lemma router_dashboard:
  assumes T: "timed_redis (app_redis a) view up clock expires" and "up (server st)" and "recovers recoverer"
    and "alive_until view clock expires (KeySession i) (Some j) d (server st)"
    and "browser_session_of_json j = Some s" and "d \<le> bs_expires s"
    and "SessionIDFromRequest r = i" and "i \<noteq> []"
    and "at_time m = clock (server st)" and "app_pages a ''dashboard'' = PageOk"
    and "\<not> prefix ''/api/v1'' (rq_path r)" and "\<not> preflight r" and "route r = SiteDashboard"
  obtains v ms st' where
    "router a m route pattern recoverer r w (mets, st) =
       Served (if at_time m < d
         then write_chunk (PageChunk ''dashboard'') (set_header ''Content-Type'' ''text/html; charset=utf-8'' v)
         else http_Redirect r ''/auth/login'' 303 v) (ms, st')"
    "w_status v = w_status w" "w_body v = w_body w"
proof -
  have "\<exists>w2 st2. api_gate (app_redis a) (app_api_keys a) (at_time m) (site a m route) r w' st = Served w2 st2 \<and>
      w2 = (if at_time m < d
         then write_chunk (PageChunk ''dashboard'') (set_header ''Content-Type'' ''text/html; charset=utf-8'' w')
         else http_Redirect r ''/auth/login'' 303 w')" for w'
  proof -
    obtain st3 where "ui_gate (app_redis a) (at_time m) (Dashboard (app_pages a)) r w' st =
        (if at_time m < d then Dashboard (app_pages a) (SetClaims r (Session_Claims s)) w' st3
         else Served (http_Redirect r ''/auth/login'' 303 w') st3)"
      unfolding assms(9) by (rule ui_gate_over_time [OF T assms(2,4-8)])
    then show ?thesis
      using assms(10,13) by (simp add: api_gate_public [OF assms(11)] Dashboard_def render_page_def Render_def Let_def)
  qed
  from router_serves [where w = w and pattern = pattern and mets = mets, OF assms(3,12) this] that show thesis by blast
qed

section \<open>Signing in\<close>

text \<open>
  C3: Signing in, through the whole stack, while Redis is up and other programs leave the entries of
  this link and this session alone: a bot with an enabled key that acts for a known Discord user
  gets 200 and a link. The browser that opens it within ten minutes is redirected to the wanted page
  with the cookie of a new session, later it gets 401 and the page for expired links. With the cookie
  it gets the dashboard until seven days after it opened the link, and from then on the way to the
  sign-in page.
\<close>
theorem sign_in_through_the_stack:
  assumes "timed_redis (app_redis a) view up clock expires" and "up (server st)" and "recovers recoverer"
    and "key_ok (app_secret a)" and "app_pages a ''dashboard'' = PageOk"
    and "prefix ''/api/v1'' (rq_path r1)" and "\<not> isGameAPIPath (rq_path r1)" and "\<not> preflight r1"
    and "request_key r1 \<noteq> ''''" and "key_opens view (app_api_keys a) st (request_key r1)"
    and "route (SetClaims r1 (key_claims r1)) = Api CallSignedLink" and "c_discord_user (key_claims r1) \<noteq> ''''"
    and "requested_redirect (rq_body r1) = Some wanted" and "NormalizeRedirect wanted = Inr redirectTo"
    and "GetByDiscordID (app_users a) (c_discord_user (key_claims r1)) = Inr (Some user)"
    and "ticket_ok (link_ticket (key_claims r1) user redirectTo)"
    and "at_ticket_id m1 = Some i" and "at_nonce m1 = Some nonce" and "length nonce = NonceSize"
    and one: "res1 = router a m1 route pattern recoverer r1 w (mets, st)"
    and "lapse view clock expires {KeyLoginTicket (hex_encode i)} (server (snd (state_of res1))) (server st1)"
    and "up (server st1)" and "at_time m2 = clock (server st1)"
    and "\<not> prefix ''/api/v1'' (rq_path r2)" and "\<not> preflight r2" and "route r2 = SiteLogin"
    and "query_value r2 ''token'' = link_token (app_secret a) nonce i"
    and "at_uuid m2 = uuid" and "uuid \<noteq> ''''"
    and "op_ok (OpCreate (at_time m2) uuid (ticket_input (link_ticket (key_claims r1) user redirectTo)))"
    and two: "res2 = router a m2 route pattern recoverer r2 w (mets1, st1)"
    and "lapse view clock expires {KeySession uuid} (server (snd (state_of res2))) (server st2)"
    and "up (server st2)" and "at_time m3 = clock (server st2)"
    and "\<not> prefix ''/api/v1'' (rq_path r3)" and "\<not> preflight r3" and "route r3 = SiteDashboard"
    and "SessionIDFromRequest r3 = uuid"
    and three: "res3 = router a m3 route pattern recoverer r3 w (mets2, st2)"
    and "w_status w = None" and "w_body w = []"
  shows "\<exists>v1 v2. w_status v1 = None \<and> w_body v1 = [] \<and> w_status v2 = None \<and> w_body v2 = [] \<and>
    res1 = Served (WriteJSON 200 (link_json (FormatLoginURL (ui_base_url (cfg_auth (app_config a)))
        (link_token (app_secret a) nonce i)) redirectTo) v1) (state_of res1) \<and>
    (if at_time m2 < clock (server st) + 10 * 60 * sec_ns
     then res2 = Served (http_Redirect r2 redirectTo 303 (SetCookie r2 uuid v2)) (state_of res2) \<and>
       w_status (reply_of res2) = Some 303 \<and>
       (\<exists>w3. res3 = Served w3 (state_of res3) \<and>
         (if at_time m3 < at_time m2 + 7 * 24 * 3600 * sec_ns
          then w_status w3 = Some 200 \<and> w_body w3 = [PageChunk ''dashboard'']
          else w_status w3 = Some 303 \<and> sent_header ''Location'' w3 = Some ''/auth/login''))
     else res2 = Served (renderExpired (app_pages a) v2) (state_of res2) \<and> w_status (reply_of res2) = Some 401)"
proof -
  note T = assms(1) and L = timed_redis.axioms(1) [OF assms(1)]
  let ?t = "link_ticket (key_claims r1) user redirectTo" and ?k = "KeyLoginTicket (hex_encode i)"
    and ?token = "link_token (app_secret a) nonce i"
  have ttl: "10 * 60 * sec_ns = TicketTTL" "7 * 24 * 3600 * sec_ns = session_TTL"
    by (simp_all add: TicketTTL_def session_TTL_def)
  obtain v1 ms1 st0 j where 1: "router a m1 route pattern recoverer r1 w (mets, st) =
       Served (WriteJSON 200 (link_json (FormatLoginURL (ui_base_url (cfg_auth (app_config a))) ?token) redirectTo) v1) (ms1, st0)"
    and v1: "w_status v1 = None" "w_body v1 = []"
    and j: "ticket_of_json j = Some ?t" "decryptTicketID (app_secret a) ?token = Inr i"
    and a0: "alive_until view clock expires ?k (Some j) (clock (server st) + TicketTTL) (server st0)"
    by (rule router_signed_link [where route = route and r = r1, OF assms(1-4,6-15,17-19,16),
          where pattern = pattern and w = w and mets = mets]) (use assms(40,41) in simp_all)
  have a1: "alive_until view clock expires ?k (Some j) (clock (server st) + TicketTTL) (server st1)"
    by (rule alive_until_lapse [OF a0 assms(21) [unfolded one 1 state_of.simps snd_conv]]) simp
  show ?thesis
  proof (cases "at_time m2 < clock (server st) + TicketTTL")
    case True
    then have early: "clock (server st1) < clock (server st) + TicketTTL" using assms(23) by simp
    obtain v2 ms2 st3 j' where 2: "router a m2 route pattern recoverer r2 w (mets1, st1) =
         Served (http_Redirect r2 (t_redirect ?t) 303 (SetCookie r2 (at_uuid m2) v2)) (ms2, st3)"
      and v2: "w_status v2 = None" "w_body v2 = []"
      and s: "browser_session_of_json j' = Some (new_session (at_time m2) (at_uuid m2) (ticket_input ?t))"
      and a3: "alive_until view clock expires (KeySession (at_uuid m2)) (Some j') (clock (server st1) + session_TTL) (server st3)"
      by (rule router_login [where route = route and r = r2 and m = m2, OF T assms(22,3) a1 early j assms(27)
            link_token_nonempty [OF assms(19)] _ assms(24-26), where pattern = pattern and w = w and mets = mets1])
         (use assms(28,30,40,41) in simp_all)
    have a2: "alive_until view clock expires (KeySession uuid) (Some j') (at_time m2 + session_TTL) (server st2)"
      unfolding assms(23) using alive_until_lapse [OF a3 assms(32) [unfolded two 2 state_of.simps snd_conv]] assms(28) by simp
    obtain v3 ms3 st4 where 3: "router a m3 route pattern recoverer r3 w (mets2, st2) =
         Served (if at_time m3 < at_time m2 + session_TTL
           then write_chunk (PageChunk ''dashboard'') (set_header ''Content-Type'' ''text/html; charset=utf-8'' v3)
           else http_Redirect r3 ''/auth/login'' 303 v3) (ms3, st4)"
      and v3: "w_status v3 = None" "w_body v3 = []"
      by (rule router_dashboard [where route = route and r = r3 and m = m3, OF T assms(33,3) a2 s _ assms(38,29,34,5,35-37),
            where pattern = pattern and w = w and mets = mets2]) (use assms(40,41) in \<open>simp_all add: new_session_def\<close>)
    have "redirect_location ''/auth/login'' = ''/auth/login''" by code_simp
    with True 1 2 3 v1 v2 v3 sent_status [OF v2(1), of r2 redirectTo uuid] assms(28) sent_Redirect [OF v3(1), of r3 "''/auth/login''" 303]
    show ?thesis
      unfolding one two three ttl by (intro exI [of _ v1] exI [of _ v2]) (simp add: link_ticket_def)
  next
    case False
    then have "view (server st1) ?k = None" using a1 assms(23) by (simp add: alive_until_def)
    then obtain v2 ms2 st3 where 2: "router a m2 route pattern recoverer r2 w (mets1, st1) =
        Served (renderExpired (app_pages a) v2) (ms2, st3)" and v2: "w_status v2 = None" "w_body v2 = []"
      by (rule router_login_late [where route = route and r = r2 and m = m2, OF T assms(22,3) _ j(2) assms(27,24-26),
            where pattern = pattern and w = w and mets = mets1]) (use assms(40,41) in simp_all)
    with False 1 v1 expired_page [OF v2(1)] show ?thesis
      unfolding one two ttl by (intro exI [of _ v1] exI [of _ v2]) simp
  qed
qed

text \<open>The example: after the sessions job has run, a user signs in and asks for the flights.\<close>

definition ex_input :: create_input where
  "ex_input = \<lparr>ci_user = ''u1'', ci_discord = ''42'', ci_server = '''', ci_username = ''ann''\<rparr>"

definition ex_signed_in :: "mem store" where
  "ex_signed_in = snd (Service_Create mem_redis 0 ''s-1'' ex_input (snd ex_run))"

definition ex_asking :: request where
  "ex_asking = ex_visit\<lparr>rq_path := ''/api/v1/game/flights''\<rparr>"

lemma ex_asking_facts:
  "SessionIDFromRequest ex_asking = ''s-1''" "\<not> preflight ex_asking" "isGameAPIPath (rq_path ex_asking)"
  by code_simp+

lemma ex_signed_in_facts:
  "mem_up (server ex_signed_in)"
  "stored mem_view snapshot_of_json KeyActiveSessions ex_signed_in = Some (Snapshot (Some [ex_cached_session]) 0 None)"
  "server_known mem_view (s_normalized ex_cached_session) ex_signed_in"
  "session_table mem_view ex_signed_in ''s-1'' = Some (new_session 0 ''s-1'' ex_input)"
proof -
  have ok: "op_ok (OpCreate 0 ''s-1'' ex_input)" using ex_year by (simp add: ex_input_def input_ok_def)
  note created = mem_live.Service_Create_live [OF ex_store(1) ok prod.collapse [symmetric], folded ex_signed_in_def]
  have frame: "mem_view (server ex_signed_in) k = mem_view (server (snd ex_run)) k" if "k \<noteq> KeySession ''s-1''" for k
    using fun_cong [OF created(3), of k] that by simp
  have run: "sessions_Run mem_redis id (Inr [ex_session]) 0 (store_of mem_empty) = (Inr (), snd ex_run)"
    using ex_run_ok by (simp add: ex_run_def)
  show "mem_up (server ex_signed_in)" by (rule created(1))
  show "stored mem_view snapshot_of_json KeyActiveSessions ex_signed_in = Some (Snapshot (Some [ex_cached_session]) 0 None)"
    using ex_store(2) frame [of KeyActiveSessions] by (simp add: stored_def key_defs)
  have "server_known mem_view (s_normalized ex_cached_session) (snd ex_run)"
    using mem.sessions_Run_snapshot(2) [OF run] by (simp add: server_known_def ex_prepared)
  then show "server_known mem_view (s_normalized ex_cached_session) ex_signed_in"
    using frame [of KeySessionNames] by (simp add: server_known_def stored_def key_defs)
  show "session_table mem_view ex_signed_in ''s-1'' = Some (new_session 0 ''s-1'' ex_input)"
    using created(4) by (simp add: session_table_def)
qed

theorem flights_reach_the_browser_witness:
  "\<exists>j w' ms st'.
     router ex_app ex_moment (\<lambda>_. Api (first_page (s_normalized ex_cached_session))) rq_path chi_recoverer
       ex_asking fresh_writer (\<lparr>m_requests = \<lambda>_. 0, m_durations = \<lambda>_. 0\<rparr>,
         snd (flights_Run mem_redis (\<lambda>_. 0) (\<lambda>_. Inr [ex_upstream]) 0 ex_signed_in)) = Served w' (ms, st') \<and>
     w_status w' = Some 200 \<and> w_body w' = [JsonChunk j]"
proof -
  have app: "app_redis ex_app = mem_redis" by (simp add: ex_app_def)
  have live: "live_redis (app_redis ex_app) mem_view mem_up" unfolding app by (rule mem_live.live_redis_axioms)
  have "\<not> Expired (new_session 0 ''s-1'' ex_input) (at_time ex_moment)"
    by (simp add: Expired_def new_session_def ex_moment_def session_TTL_def sec_ns_def)
  then show ?thesis
    using flights_reach_the_browser [OF live ex_signed_in_facts(1) recovers_chi ex_signed_in_facts(2) _ ex_eligible _ _ _ _ _
        ex_signed_in_facts(3) _ ex_asking_facts(3,2), of "\<lambda>_. Inr [ex_upstream]" "[ex_upstream]" 0 fresh_writer
        "new_session 0 ''s-1'' ex_input" ex_moment "\<lambda>_. Api (first_page (s_normalized ex_cached_session))" "\<lambda>_. 0" rq_path
        "\<lparr>m_requests = \<lambda>_. 0, m_durations = \<lambda>_. 0\<rparr>"]
      ex_encodable ex_time ex_year ex_signed_in_facts(4) ex_asking_facts(1) by (auto simp: app)
qed

text \<open>The example: a bot with the key \<open>k\<close> acts for the user of \<open>ex_users\<close>.\<close>

definition ex_bot_app :: "mem app" where
  "ex_bot_app = ex_app
     \<lparr>app_config := default_config\<lparr>cfg_auth := (cfg_auth default_config)\<lparr>signed_link_secret := ex_secret\<rparr>\<rparr>,
      app_users := ex_users, app_api_keys := (\<lambda>k. if k = ''k'' then Row True else NoRows)\<rparr>"

definition ex_bot :: request where
  "ex_bot = (ex_get ''/api/v1/auth/signed-link'')\<lparr>rq_headers := [(''X-API-Key'', ''k''), (''X-Discord-User-Id'', ''42'')]\<rparr>"

definition ex_link_moment :: moment where
  "ex_link_moment = ex_moment\<lparr>at_uuid := ''s-1'', at_ticket_id := Some ''ticket'', at_nonce := Some ex_nonce\<rparr>"

definition ex_route :: "request \<Rightarrow> route" where
  "ex_route r =
     (if rq_path r = ''/auth/login'' then SiteLogin else if rq_path r = ''/dashboard'' then SiteDashboard
      else Api CallSignedLink)"

lemma ex_bot_facts:
  "prefix ''/api/v1'' (rq_path ex_bot)" "\<not> isGameAPIPath (rq_path ex_bot)" "\<not> preflight ex_bot"
  "request_key ex_bot = ''k''" "c_discord_user (key_claims ex_bot) = ''42''" "c_discord_server (key_claims ex_bot) = ''''"
  "requested_redirect (rq_body ex_bot) = Some ''''" "NormalizeRedirect '''' = Inr ''/dashboard''"
  by code_simp+

lemma ex_browser_facts:
  "\<not> prefix ''/api/v1'' (rq_path ex_opening)" "\<not> preflight ex_opening" "ex_route ex_opening = SiteLogin"
  "\<not> prefix ''/api/v1'' (rq_path ex_visit)" "\<not> preflight ex_visit" "ex_route ex_visit = SiteDashboard"
  by (simp_all add: ex_opening_def ex_visit_def ex_get_def preflight_def get_header_def ex_route_def)


definition ex_mets :: http_metrics where
  "ex_mets = \<lparr>m_requests = \<lambda>_. 0, m_durations = \<lambda>_. 0\<rparr>"

definition waited :: "int \<Rightarrow> (http_metrics \<times> mem store) served \<Rightarrow> mem store" where
  "waited d res = (snd (state_of res))\<lparr>server := mem_tick d (server (snd (state_of res)))\<rparr>"

definition ex_linked :: "(http_metrics \<times> mem store) served" where
  "ex_linked = router ex_bot_app ex_link_moment ex_route rq_path chi_recoverer ex_bot fresh_writer (ex_mets, store_of mem_empty)"

definition ex_followed :: "int \<Rightarrow> (http_metrics \<times> mem store) served" where
  "ex_followed d = router ex_bot_app (ex_link_moment\<lparr>at_time := d\<rparr>) ex_route rq_path chi_recoverer ex_opening fresh_writer
     (ex_mets, waited d ex_linked)"

definition ex_back :: "int \<Rightarrow> int \<Rightarrow> (http_metrics \<times> mem store) served" where
  "ex_back d e = router ex_bot_app (ex_link_moment\<lparr>at_time := d + e\<rparr>) ex_route rq_path chi_recoverer ex_visit fresh_writer
     (ex_mets, waited e (ex_followed d))"

lemma waited_simps [simp]:
  "mem_now (server (waited d res)) = mem_now (server (snd (state_of res))) + d"
  "mem_up (server (waited d res)) = mem_up (server (snd (state_of res)))"
  "0 \<le> d \<Longrightarrow> lapse mem_view mem_now mem_expires K (server (snd (state_of res))) (server (waited d res))"
  by (simp_all add: waited_def mem_lapse) (simp_all add: mem_tick_def)

lemma reply_of_served: "res = Served w (state_of res) \<Longrightarrow> reply_of res = w"
  by (cases res) simp_all

theorem sign_in_through_the_stack_witness:
  "let nine = 9 * 60 * sec_ns; ten = 10 * 60 * sec_ns; day = 24 * 3600 * sec_ns in
   w_status (reply_of (ex_followed nine)) = Some 303 \<and> w_body (reply_of (ex_back nine (6 * day))) = [PageChunk ''dashboard''] \<and>
   sent_header ''Location'' (reply_of (ex_back nine (7 * day))) = Some ''/auth/login'' \<and>
   w_status (reply_of (ex_followed ten)) = Some 401"
proof -
  let ?a = ex_bot_app and ?m = ex_link_moment
  have T: "timed_redis (app_redis ?a) mem_view mem_up mem_now mem_expires"
    using mem_timed.timed_redis_axioms by (simp add: ex_bot_app_def ex_app_def)
  have app: "key_ok (app_secret ?a)" "app_secret ?a = ex_secret" "app_pages ?a ''dashboard'' = PageOk"
    using ex_ticket_facts(2) by (simp_all add: ex_bot_app_def app_secret_def ex_app_def)
  obtain user where u: "GetByDiscordID (app_users ?a) (c_discord_user (key_claims ex_bot)) = Inr (Some user)"
    and user: "u_id user = ''u1''" "u_discord user = ''42''" "DisplayName user = ''ann''"
    by (simp add: GetByDiscordID_def ex_bot_app_def ex_users_def ex_bot_facts ex_row_def nullString_def DisplayName_def)
  have key: "key_opens mem_view (app_api_keys ?a) (store_of mem_empty) (request_key ex_bot)" "request_key ex_bot \<noteq> ''''"
      "c_discord_user (key_claims ex_bot) \<noteq> ''''"
    by (simp_all add: key_opens_def cached_status_def key_enabled_def ex_bot_app_def ex_bot_facts)
  have m: "at_ticket_id ?m = Some ''ticket''" "at_nonce ?m = Some ex_nonce" "at_uuid (?m\<lparr>at_time := d\<rparr>) = ''s-1''"
    "at_time (?m\<lparr>at_time := d\<rparr>) = d" for d
    by (simp_all add: ex_link_moment_def ex_moment_def)
  let ?t = "link_ticket (key_claims ex_bot) user ''/dashboard''"
  have t: "ticket_ok ?t" by (simp add: ticket_ok_def link_ticket_def user ex_bot_facts)
  have o: "op_ok (OpCreate (at_time (?m\<lparr>at_time := d\<rparr>)) ''s-1'' (ticket_input ?t))"
    if "year_in_range d" "year_in_range (d + session_TTL)" for d
    using that by (simp add: input_ok_def ticket_input_def link_ticket_def user ex_bot_facts)
  have q: "query_value ex_opening ''token'' = link_token (app_secret ?a) ex_nonce ''ticket''"
    by (simp add: query_value_def ex_opening_def app)
  have r: "ex_route (SetClaims ex_bot (key_claims ex_bot)) = Api CallSignedLink"
    by (simp add: ex_route_def SetClaims_def ex_bot_def ex_get_def)
  have e0: "mem_now mem_empty = 0" by (simp add: mem_empty_def)
  have up0: "mem_up (server (store_of mem_empty))" and now0: "mem_now (server (store_of mem_empty)) = 0"
    by (simp_all add: mem_empty_def)
  have w: "w_status fresh_writer = None" "w_body fresh_writer = []" by (simp_all add: fresh_writer_def)
  obtain j where linked: "mem_up (server (snd (state_of ex_linked)))" "mem_now (server (snd (state_of ex_linked))) = 0"
    and j: "ticket_of_json j = Some ?t" "decryptTicketID (app_secret ?a) (link_token (app_secret ?a) ex_nonce ''ticket'') = Inr ''ticket''"
      "alive_until mem_view mem_now mem_expires (KeyLoginTicket (hex_encode ''ticket'')) (Some j) TicketTTL (server (snd (state_of ex_linked)))"
    unfolding ex_linked_def
    by (rule router_signed_link [where route = ex_route, OF T up0 recovers_chi app(1) ex_bot_facts(1-3) key(2,1) r key(3)
        ex_bot_facts(7,8) u m(1,2) ex_ticket_facts(3) t, where pattern = rq_path and w = fresh_writer and mets = ex_mets])
      (simp add: e0)
  have steps: "(if d < TicketTTL then w_status (reply_of (ex_followed d)) = Some 303 \<and>
       (if e < session_TTL then w_body (reply_of (ex_back d e)) = [PageChunk ''dashboard'']
        else sent_header ''Location'' (reply_of (ex_back d e)) = Some ''/auth/login'')
     else w_status (reply_of (ex_followed d)) = Some 401)"
    if "0 \<le> d" "0 \<le> e" "year_in_range d" "year_in_range (d + session_TTL)" for d e
  proof -
    have u1: "mem_up (server (waited d ex_linked))" and n1: "at_time (?m\<lparr>at_time := d\<rparr>) = mem_now (server (waited d ex_linked))"
      by (simp_all add: linked)
    note alive = alive_until_lapse [OF j(3) waited_simps(3) [OF that(1)] singletonI]
    have "mem_up (server (snd (state_of (ex_followed d)))) \<and> mem_now (server (snd (state_of (ex_followed d)))) = d"
    proof (cases "d < TicketTTL")
      case True
      then have early: "mem_now (server (waited d ex_linked)) < TicketTTL" by (simp add: linked)
      show ?thesis
        unfolding ex_followed_def
        by (rule router_login [where route = ex_route and m = "?m\<lparr>at_time := d\<rparr>", OF T u1 recovers_chi alive early j(1,2) q
            link_token_nonempty [OF ex_ticket_facts(3)] _ ex_browser_facts(1-3),
            where pattern = rq_path and w = fresh_writer and mets = ex_mets])
          (use o [OF that(3,4)] m(3) in \<open>simp_all add: linked\<close>)
    next
      case False
      then have gone: "mem_view (server (waited d ex_linked)) (KeyLoginTicket (hex_encode ''ticket'')) = None"
        using alive by (simp add: alive_until_def linked)
      show ?thesis
        unfolding ex_followed_def
        by (rule router_login_late [where route = ex_route and m = "?m\<lparr>at_time := d\<rparr>", OF T u1 recovers_chi gone j(2) q
            ex_browser_facts(1-3), where pattern = rq_path and w = fresh_writer and mets = ex_mets])
          (simp add: linked)
    qed
    then have u2: "mem_up (server (waited e (ex_followed d)))"
      and n2: "at_time (?m\<lparr>at_time := d + e\<rparr>) = mem_now (server (waited e (ex_followed d)))" by simp_all
    have "0 \<le> e" "''s-1'' \<noteq> ''''" using that(2) by simp_all
    from sign_in_through_the_stack [where route = ex_route, OF T up0 recovers_chi app(1,3) ex_bot_facts(1-3) key(2,1) r key(3)
        ex_bot_facts(7,8) u t m(1,2) ex_ticket_facts(3) ex_linked_def waited_simps(3) [OF that(1)] u1 n1 ex_browser_facts(1-3) q
        m(3) this(2) o [OF that(3,4)] ex_followed_def waited_simps(3) [OF this(1)] u2 n2 ex_browser_facts(4-6)
        ex_visit_session ex_back_def w]
    show ?thesis unfolding now0 m(4) by (auto simp: TicketTTL_def session_TTL_def dest: reply_of_served split: if_splits)
  qed
  have years: "year_in_range (9 * 60 * sec_ns)" "year_in_range (9 * 60 * sec_ns + session_TTL)"
    "year_in_range (10 * 60 * sec_ns)" "year_in_range (10 * 60 * sec_ns + session_TTL)" by code_simp+
  show ?thesis
    using steps [of "9 * 60 * sec_ns" "6 * (24 * 3600 * sec_ns)"] steps [of "9 * 60 * sec_ns" "7 * (24 * 3600 * sec_ns)"]
      steps [of "10 * 60 * sec_ns" 0] years by (auto simp: Let_def sec_ns_def TicketTTL_def session_TTL_def)
qed

end
