(* ===== verification/Spec2Isabelle.thy ===== *)
theory Spec2Isabelle
  imports Prelude GoStrings GoTime GoFloat Json Cache MemRedis Expiry Codec InfiniteFlight GameSessions
    SessionsJob LiveriesJob GameFlights Flights FlightsJob
    Encoding GoCipher Refinement Utf8 Auth Tickets Http BrowserSessions SessionStore Accounts Middleware
    Gates JsonText FlightTokens CachedResponse SessionsApi FlightsApi FlightsApiSpec LoginApi
    KeyRevocation Metrics Scheduler Jobs GoDuration GoUrl Config Health Server Lifecycle System
    Commands Concurrency CommandBounds Journey
begin

text \<open>
  Verification development for politburo, a server that keeps a cache of live Infinite Flight data
  and serves it to browsers and bots.

  \<^bold>\<open>The program.\<close> Three scheduled jobs (\<open>internal/jobs\<close>) fetch sessions, liveries and flights
  from the upstream API (\<open>internal/infiniteflight\<close>), map them (\<open>internal/game\<close>) and write snapshots
  to Redis through a JSON store (\<open>internal/cache\<close>). HTTP handlers (\<open>internal/transport/http\<close>) answer
  from these snapshots, behind a stack of middleware that authenticates browser sessions
  (\<open>internal/session\<close>) and API keys (\<open>internal/apikeys\<close>). A bot with an API key asks for a sign-in
  link (\<open>internal/auth\<close>, \<open>internal/users\<close>); opening it consumes a one-time ticket and starts a
  browser session. \<open>internal/config\<close> reads the settings, \<open>internal/app\<close> builds the parts,
  \<open>internal/scheduler\<close> runs the jobs and \<open>cmd/politburo\<close> is the main program.

  \<^bold>\<open>Foundations.\<close> \<open>Prelude\<close> holds error values, slices, the one-entry-per-key loop and bounded
  histories; \<open>GoStrings\<close>, \<open>Utf8\<close>, \<open>GoTime\<close>, \<open>GoFloat\<close>, \<open>GoDuration\<close>, \<open>GoUrl\<close>, \<open>Encoding\<close> and
  \<open>GoCipher\<close> hold what the program uses of Go's library (strings as bytes, times and durations in
  nanoseconds, binary64 as sign and exact rational with rounding, \<open>net/url\<close>, hexadecimal and base64,
  AES and GCM computed block by block). \<open>Json\<close> and \<open>Codec\<close> give JSON values and one locale for
  codecs, interpreted for every stored structure; \<open>JsonText\<close> prints and parses JSON text where the
  text itself is encrypted. \<open>Refinement\<close> lifts a one-step refinement to sequences of operations.
  \<open>MemRedis\<close> is a store in memory on which the Redis contracts are interpreted and every witness
  runs.

  \<^bold>\<open>Cache.\<close> \<open>Cache\<close> models \<open>cache/keys.go\<close> and the operations of \<open>cache/store.go\<close> over a Redis
  client, a parameter with the contract \<open>redis_service\<close> (\<open>live_redis\<close> when it answers): keys never
  clash. \<open>Expiry\<close> extends the contract by the clock of Redis and the deadline of each entry
  (\<open>timed_redis\<close>), so that the lifetimes the program hands over have consequences: an entry is served
  before its deadline and never after. \<open>lapse\<close> is the passing of time between two calls, in which
  other entries change at will. Calls are taken to be instantaneous, and the clock of Redis to be that
  of the program. The lifetimes of tickets, sessions and key statuses are pinned that way. \<open>Metrics\<close> models the registry and shows that the counters of the store say what its callers
  saw.

  \<^bold>\<open>Jobs.\<close> \<open>InfiniteFlight\<close>, \<open>GameSessions\<close> and \<open>SessionsJob\<close>; \<open>LiveriesJob\<close>; \<open>GameFlights\<close>,
  \<open>Flights\<close> and \<open>FlightsJob\<close>: the upstream client, the snapshots, the mapper, merge, history and
  pagination, and the \<open>Run\<close> of each job. They show what a run stores, on success and on every
  failure, and the invariants of the stored data. Histories are bounded by 50 and 25 entries; page
  arithmetic is on 64-bit words, and what it does where it wraps is proved for every page.

  \<^bold>\<open>Identity.\<close> \<open>Auth\<close> and \<open>Tickets\<close> (\<open>auth/*.go\<close>): tickets log in once over every interleaving.
  \<open>BrowserSessions\<close> and \<open>SessionStore\<close> (\<open>session/*.go\<close>): the service refines a table of sessions,
  and over time a session lives for exactly seven days. \<open>Accounts\<close> and \<open>KeyRevocation\<close> (\<open>apikeys/*.go\<close>, \<open>users/*.go\<close>): a revoked key is refused after a
  minute. \<open>FlightTokens\<close> (\<open>game/flights/token.go\<close>): the encrypted ids of map markers.

  \<^bold>\<open>HTTP.\<close> \<open>Http\<close> models requests, the response writer, \<open>response/json.go\<close>, redirects and the
  rendering of pages; \<open>Middleware\<close> and \<open>Gates\<close> the files of \<open>middleware\<close>, with the locales that say
  what the gates need of the lookups; \<open>CachedResponse\<close>, \<open>SessionsApi\<close>, \<open>FlightsApi\<close>,
  \<open>FlightsApiSpec\<close>, \<open>LoginApi\<close> and \<open>Health\<close> the handlers, each with all of its outcomes, and the
  paths from a job to the reader and from a link to the dashboard. \<open>Server\<close> (\<open>server.go\<close>) composes
  them: the API calls, the site and the stack of middleware.

  \<^bold>\<open>Process.\<close> \<open>Config\<close> (\<open>config.go\<close>): a loaded configuration is well formed. \<open>Scheduler\<close> and
  \<open>Jobs\<close> (\<open>scheduler.go\<close>, \<open>jobs/register.go\<close>): a step relation for the scheduler under cron, whose
  metrics tell the truth, whose \<open>Stop\<close> waits until the jobs have drained, and which does not run a
  job again that panicked, depending on the version of cron. \<open>Lifecycle\<close> (\<open>app.go\<close>, \<open>database.go\<close>,
  \<open>logging.go\<close>, \<open>Server.Run\<close>, \<open>main.go\<close>): which handles are open and closed on every way out.

  \<^bold>\<open>System.\<close> \<open>System\<close> puts jobs, requests and expiry on one Redis, as a step relation: only jobs
  write game data, and its invariants hold after every sequence of steps. \<open>Commands\<close> splits the
  jobs into programs of single Redis commands, and \<open>Concurrency\<close> runs any number of them at once,
  interleaved command by command: what a program relies on and guarantees is stated for each entry of
  the cache (\<open>entry_ok\<close>), and a run whose commands nothing interrupts is the model of the job, exactly.
  The counters of the store are not part of the programs. \<open>CommandBounds\<close> bounds the commands of a
  run, whatever Redis replies and others do in between. \<open>Journey\<close> follows data and users through
  all parts: from upstream to the browser, and from a bot's request for a link to the dashboard.

  \<^bold>\<open>Parameters.\<close> Not under \<open>src\<close>, and therefore arguments: the Redis client, query results of the
  database, the upstream client's answers, the clock and random bytes, the lower-casing of letters
  outside ASCII, HTML templates, chi's routing and its \<open>Recoverer\<close>, cron's schedule parser, its
  moments and whether its \<open>SkipIfStillRunning\<close> defers the return of its token, the files and the environment, and what a release of Go accepts as an IP literal. The
  hypotheses on them state documented behaviour; each has a witness on a concrete instance.

  \<^bold>\<open>Bounds and fuel.\<close> \<open>parse_json\<close> recurses with fuel twice the length of the text plus two, more
  than the nesting of any text; every other loop is a terminating function. The counters of the
  metrics are natural numbers.

  \<^bold>\<open>Conventions.\<close> Messages of errors keep their constant part. Text that was decoded from JSON or
  received in a header is taken as the bytes it has, and the encoders replace invalid UTF-8 where a
  property depends on it (\<open>enc_text\<close>); structures with other text are stored as given.

  \<^bold>\<open>Not modelled.\<close> Log lines; durations and payload sizes in the metrics; the metrics page and the
  embedded static files; connection pools, network time-outs and the contexts that carry them; request
  ids. What remains of the source beside these are imports, the declarations of interfaces and handler
  structs that only hold the parts, and their constructors that only store their arguments.
\<close>

end
